(* ===== verification/Prelude.thy ===== *)
theory Prelude
  imports "HOL-Library.Word"
begin

unbundle bit_operations_syntax

text \<open>
  The prelude of the development: the machine integers of the x86_64 target by their C
  names, the byte-addressed memory that pointers point into, the outcomes of code that does
  not return normally, and the word and list lemmas the components share.

  Conventions.  A C integer of w bits is a w-bit word; \<open>unat\<close> reads it unsigned and
  \<open>sint\<close> as two's complement.  A pointer is a 64-bit word, NULL is 0.  A byte of text is
  a \<open>u8\<close>; \<open>bytes_of\<close> turns a string literal into its bytes (without the
  terminating NUL) and \<open>lit\<close> into the whole array, NUL included.
\<close>

section \<open>Machine integers\<close>

type_synonym u8 = "8 word"
type_synonym u16 = "16 word"
type_synonym u32 = "32 word"
type_synonym u64 = "64 word"

text \<open>The memory of the machine: one byte per address.\<close>

type_synonym mem = "u64 \<Rightarrow> u8"

definition bytes_of :: "string \<Rightarrow> u8 list" where
  "bytes_of s = map of_char s"

definition lit :: "string \<Rightarrow> u8 list" where
  "lit s = bytes_of s @ [0]"

section \<open>Code that does not return normally\<close>

text \<open>
  The result of an operation that may fail to return is a sum: \<open>Inr\<close> of its value, or
  \<open>Inl\<close> of the reason.  The first constructors are accesses that C leaves undefined, so
  that memory safety of an operation is the statement that they do not occur; the last two
  are the ways the kernel stops on purpose (\<open>hcf\<close>) or by waiting for ever.
\<close>

datatype abnormal =
    Read_Past_End      \<comment> \<open>a read beyond the end of an array or string object\<close>
  | Write_Past_End     \<comment> \<open>a write beyond the end of a local array\<close>
  | Bad_Vararg         \<comment> \<open>va_arg of a type that the next argument does not have, or no argument left\<close>
  | Div_By_Zero        \<comment> \<open>an integer division by zero\<close>
  | Halts              \<comment> \<open>the code entered the endless loop of hcf or abort\<close>
  | Diverges           \<comment> \<open>the code waits for an event that never comes\<close>

type_synonym 'a outcome = "abnormal + 'a"

definition rbind :: "'a outcome \<Rightarrow> ('a \<Rightarrow> 'b outcome) \<Rightarrow> 'b outcome" where
  "rbind r f = (case r of Inl e \<Rightarrow> Inl e | Inr a \<Rightarrow> f a)"

lemma rbind_simps [simp]:
  "rbind (Inl e) f = Inl e"
  "rbind (Inr a) f = f a"
  by (simp_all add: rbind_def)

lemma rbind_Inr_iff: "rbind r f = Inr b \<longleftrightarrow> (\<exists>a. r = Inr a \<and> f a = Inr b)"
  by (cases r) auto

lemma rbind_Inl_iff: "rbind r f = Inl e \<longleftrightarrow> r = Inl e \<or> (\<exists>a. r = Inr a \<and> f a = Inl e)"
  by (cases r) auto

lemma rbind_cong [fundef_cong]:
  "r = r' \<Longrightarrow> (\<And>a. r' = Inr a \<Longrightarrow> f a = g a) \<Longrightarrow> rbind r f = rbind r' g"
  by (cases r') auto

lemma rbind_assoc: "rbind (rbind r f) g = rbind r (\<lambda>a. rbind (f a) g)"
  by (cases r) auto

section \<open>Words\<close>

text \<open>
  \<open>word_unat\<close> collects the facts that move a goal about words to \<open>nat\<close>.
\<close>

named_theorems word_unat \<open>rules that read word arithmetic as arithmetic on nat\<close>

declare unat_word_ariths [word_unat] word_less_nat_alt [word_unat] word_le_nat_alt [word_unat]
  unat_of_nat [word_unat] unat_div_distrib [word_unat] unat_mod_distrib [word_unat]

lemma unat_u64_lt [simp]: "unat (w :: u64) < 18446744073709551616"
  using unsigned_less [where w = w and 'a = nat] by simp

lemma unat_u32_lt [simp]: "unat (w :: u32) < 4294967296"
  using unsigned_less [where w = w and 'a = nat] by simp

lemma unat_u8_lt [simp]: "unat (w :: u8) < 256"
  using unsigned_less [where w = w and 'a = nat] by simp

lemma of_nat_word_inj:
  "i < 2 ^ LENGTH('a) \<Longrightarrow> j < 2 ^ LENGTH('a) \<Longrightarrow>
   (of_nat i :: 'a::len word) = of_nat j \<longleftrightarrow> i = j"
  by (metis of_nat_inverse)

lemma of_nat_u64_inj [simp]:
  "i < 18446744073709551616 \<Longrightarrow> j < 18446744073709551616 \<Longrightarrow>
   (of_nat i :: u64) = of_nat j \<longleftrightarrow> i = j"
  using of_nat_word_inj [where 'a = 64] by simp

lemma unat_of_nat_u64 [simp]: "i < 18446744073709551616 \<Longrightarrow> unat (of_nat i :: u64) = i"
  by (simp add: unat_of_nat)

lemma unat_ucast_up_u64 [simp]: "unat (ucast (w :: u32) :: u64) = unat w"
proof -
  have "unat w < 2 ^ 64" by (rule less_trans [OF unat_u32_lt]) simp
  then show ?thesis by (simp add: unsigned_ucast_eq take_bit_nat_eq_self)
qed

lemma unat_ucast_u8_u64 [simp]: "unat (ucast (w :: u8) :: u64) = unat w"
proof -
  have "unat w < 2 ^ 64" by (rule less_trans [OF unat_u8_lt]) simp
  then show ?thesis by (simp add: unsigned_ucast_eq take_bit_nat_eq_self)
qed

lemma unat_ucast_u8_u32 [simp]: "unat (ucast (w :: u8) :: u32) = unat w"
proof -
  have "unat w < 2 ^ 32" by (rule less_trans [OF unat_u8_lt]) simp
  then show ?thesis by (simp add: unsigned_ucast_eq take_bit_nat_eq_self)
qed

text \<open>Rounding up to a page: the C idiom \<open>(x + 4095) & ~4095\<close>.\<close>

lemma and_not_mask12: "unat (x AND NOT 4095 :: u64) = 4096 * (unat x div 4096)"
proof -
  have m: "(4095 :: u64) = mask 12" by (simp add: mask_eq_exp_minus_1)
  have "x AND NOT 4095 = push_bit 12 (drop_bit 12 x)"
    unfolding m by (rule bit_word_eqI) (auto simp: bit_and_iff bit_not_iff bit_mask_iff bit_push_bit_iff bit_drop_bit_eq)
  then have "unat (x AND NOT 4095) = unat (push_bit 12 (drop_bit 12 x))" by simp
  also have "\<dots> = take_bit 64 (push_bit 12 (drop_bit 12 (unat x)))"
    using unat_u64_lt [of x] by (simp add: unsigned_push_bit_eq unsigned_drop_bit_eq take_bit_nat_eq_self
        del: unat_u64_lt)
  also have "\<dots> = 4096 * (unat x div 4096)"
  proof -
    have "4096 * (unat x div 4096) \<le> unat x" by simp
    also have "\<dots> < 2 ^ 64" using unat_u64_lt [of x] by simp
    finally show ?thesis by (simp add: push_bit_eq_mult drop_bit_eq_div take_bit_nat_eq_self mult.commute)
  qed
  finally show ?thesis .
qed

lemmas and_not_4095 = and_not_mask12 [simplified]

text \<open>Bit-by-bit reading of words put together from fields by shifts and masks.\<close>

lemmas bit_fields = bit_or_iff bit_and_iff bit_ucast_iff bit_push_bit_iff bit_drop_bit_eq bit_mask_iff

text \<open>The offset of an address in a region that starts at \<open>base\<close>.\<close>

lemma offset_add [simp]: "(base + off) - base = (off :: u64)"
  by simp

lemma add_offset_eq_iff:
  "i < 18446744073709551616 \<Longrightarrow> a = base + of_nat i \<longleftrightarrow> unat (a - base :: u64) = i"
proof
  assume "i < 18446744073709551616" and "a = base + of_nat i"
  then show "unat (a - base) = i" by simp
next
  assume "unat (a - base) = i"
  then have "of_nat i = a - base" by (metis of_nat_unat ucast_id)
  then show "a = base + of_nat i" by simp
qed

lemma add_offset_unat: "a = base + k \<longleftrightarrow> unat (a - base :: u64) = unat k"
  using add_offset_eq_iff [of "unat k" a base] by simp

text \<open>The C idiom \<open>(w >> n) & 1\<close> tests bit n.\<close>

lemma drop_bit_and_one: "drop_bit n w AND 1 \<noteq> 0 \<longleftrightarrow> bit (w :: 'a::len word) n"
  by (simp add: and_one_eq bit_iff_odd_drop_bit odd_iff_mod_2_eq_one)

end
