(* ===== verification/Libc_String.thy ===== *)
theory Libc_String
  imports Prelude "HOL-Library.List_Lexorder"
begin

text \<open>
  The memory and string functions of the kernel's C library (libc/string): memcpy, memmove,
  memset, memcmp and strlen, over the byte memory.  A loop \<open>for (i = 0; i < size; i++)\<close>
  is a recursion on a natural index below \<open>unat size\<close>: an index below a 64-bit size never
  wraps, while the addresses \<open>base + i\<close> are 64-bit words and do.  strlen has no bound and
  is a partial function whose value None is "the loop does not end".
\<close>

section \<open>memcpy, memmove, memset\<close>

function copy_up :: "mem \<Rightarrow> u64 \<Rightarrow> u64 \<Rightarrow> nat \<Rightarrow> nat \<Rightarrow> mem" where
  "copy_up m dst src i n =
     (if i < n then copy_up (m(dst + of_nat i := m (src + of_nat i))) dst src (Suc i) n else m)"
  by pat_completeness auto
termination by (relation "measure (\<lambda>(m, dst, src, i, n). n - i)") auto

primrec copy_down :: "mem \<Rightarrow> u64 \<Rightarrow> u64 \<Rightarrow> nat \<Rightarrow> mem" where
  "copy_down m dst src 0 = m"
| "copy_down m dst src (Suc i) = copy_down (m(dst + of_nat i := m (src + of_nat i))) dst src i"

definition memcpy :: "mem \<Rightarrow> u64 \<Rightarrow> u64 \<Rightarrow> u64 \<Rightarrow> mem" where
  "memcpy m dstptr srcptr sz = copy_up m dstptr srcptr 0 (unat sz)"

definition memmove :: "mem \<Rightarrow> u64 \<Rightarrow> u64 \<Rightarrow> u64 \<Rightarrow> mem" where
  "memmove m dstptr srcptr sz =
     (if dstptr < srcptr then copy_up m dstptr srcptr 0 (unat sz)
      else copy_down m dstptr srcptr (unat sz))"

function set_up :: "mem \<Rightarrow> u64 \<Rightarrow> u8 \<Rightarrow> nat \<Rightarrow> nat \<Rightarrow> mem" where
  "set_up m buf c i n = (if i < n then set_up (m(buf + of_nat i := c)) buf c (Suc i) n else m)"
  by pat_completeness auto
termination by (relation "measure (\<lambda>(m, buf, c, i, n). n - i)") auto

text \<open>The fill value is an \<open>int\<close> of which memset stores the low byte.\<close>

definition memset :: "mem \<Rightarrow> u64 \<Rightarrow> u32 \<Rightarrow> u64 \<Rightarrow> mem" where
  "memset m bufptr val sz = set_up m bufptr (ucast val) 0 (unat sz)"

declare copy_up.simps [simp del] set_up.simps [simp del]

section \<open>memcmp, strlen\<close>

function cmp_loop :: "mem \<Rightarrow> u64 \<Rightarrow> u64 \<Rightarrow> nat \<Rightarrow> nat \<Rightarrow> int" where
  "cmp_loop m a b i n =
     (if i < n then
        if m (a + of_nat i) < m (b + of_nat i) then - 1
        else if m (b + of_nat i) < m (a + of_nat i) then 1
        else cmp_loop m a b (Suc i) n
      else 0)"
  by pat_completeness auto
termination by (relation "measure (\<lambda>(m, a, b, i, n). n - i)") auto

declare cmp_loop.simps [simp del]

definition memcmp :: "mem \<Rightarrow> u64 \<Rightarrow> u64 \<Rightarrow> u64 \<Rightarrow> int" where
  "memcmp m aptr bptr sz = cmp_loop m aptr bptr 0 (unat sz)"

partial_function (option) strlen_loop :: "mem \<Rightarrow> u64 \<Rightarrow> u64 \<Rightarrow> u64 option" where
  "strlen_loop m str len = (if m (str + len) \<noteq> 0 then strlen_loop m str (len + 1) else Some len)"

definition strlen :: "mem \<Rightarrow> u64 \<Rightarrow> u64 option" where
  "strlen m str = strlen_loop m str 0"

section \<open>What the copies do\<close>

text \<open>
  A region \<open>[base, base + n)\<close> does not wrap when it ends at or below the top of memory.
\<close>

definition no_wrap :: "u64 \<Rightarrow> nat \<Rightarrow> bool" where
  "no_wrap base n \<longleftrightarrow> unat base + n \<le> 18446744073709551616"

definition in_region :: "u64 \<Rightarrow> u64 \<Rightarrow> nat \<Rightarrow> bool" where
  "in_region a base n \<longleftrightarrow> unat (a - base) < n"

lemma no_wrap_unat: "no_wrap base n \<Longrightarrow> i < n \<Longrightarrow> unat (base + of_nat i) = unat base + i"
  unfolding no_wrap_def
  by (subst unat_add_lem [THEN iffD1]) (simp_all add: unat_of_nat)

lemma in_region_iff:
  "n \<le> 18446744073709551616 \<Longrightarrow> in_region a base n \<longleftrightarrow> (\<exists>i<n. a = base + of_nat i)"
proof
  assume "in_region a base n"
  then show "\<exists>i<n. a = base + of_nat i"
    unfolding in_region_def by (intro exI [of _ "unat (a - base)"]) simp
next
  assume "n \<le> 18446744073709551616" "\<exists>i<n. a = base + of_nat i"
  then show "in_region a base n"
    unfolding in_region_def by (auto intro: less_le_trans)
qed

lemma copy_up_outside:
  "i \<le> n \<Longrightarrow> n \<le> 18446744073709551616 \<Longrightarrow> (\<forall>j. i \<le> j \<and> j < n \<longrightarrow> a \<noteq> dst + of_nat j) \<Longrightarrow>
   copy_up m dst src i n a = m a"
proof (induction m dst src i n rule: copy_up.induct)
  case (1 m dst src i n)
  then show ?case by (subst copy_up.simps) (auto simp: fun_upd_def)
qed

lemma set_up_char:
  "n \<le> 18446744073709551616 \<Longrightarrow>
   set_up m buf c i n a = (if i \<le> unat (a - buf) \<and> unat (a - buf) < n then c else m a)"
proof (induction m buf c i n rule: set_up.induct)
  case (1 m buf c i n)
  show ?case
  proof (cases "i < n")
    case True
    with 1 have "set_up m buf c i n a =
      (if Suc i \<le> unat (a - buf) \<and> unat (a - buf) < n then c else (m(buf + of_nat i := c)) a)"
      by (subst set_up.simps) (simp add: fun_upd_def)
    moreover have "a = buf + of_nat i \<longleftrightarrow> unat (a - buf) = i"
      using True "1.prems" by (intro add_offset_eq_iff) simp
    ultimately show ?thesis using True by auto
  next
    case False
    then show ?thesis by (subst set_up.simps) auto
  qed
qed

lemma memset_char [simp]:
  "memset m buf val sz a = (if in_region a buf (unat sz) then ucast val else m a)"
  unfolding memset_def in_region_def by (simp add: set_up_char less_imp_le)

text \<open>
  A forward copy is right when no byte is overwritten before it is read: no source byte
  coincides with an earlier destination byte.  A backward copy needs the mirror image.
\<close>

definition fwd_safe :: "u64 \<Rightarrow> u64 \<Rightarrow> nat \<Rightarrow> bool" where
  "fwd_safe dst src n \<longleftrightarrow> (\<forall>j<n. \<forall>i<j. src + of_nat j \<noteq> dst + of_nat i)"

definition bwd_safe :: "u64 \<Rightarrow> u64 \<Rightarrow> nat \<Rightarrow> bool" where
  "bwd_safe dst src n \<longleftrightarrow> (\<forall>j<n. \<forall>i<j. src + of_nat i \<noteq> dst + of_nat j)"

lemma copy_up_inside:
  "n \<le> 18446744073709551616 \<Longrightarrow> fwd_safe dst src n \<Longrightarrow> i \<le> j \<Longrightarrow> j < n \<Longrightarrow>
   copy_up m dst src i n (dst + of_nat j) = m (src + of_nat j)"
proof (induction m dst src i n rule: copy_up.induct)
  case (1 m dst src i n)
  let ?m = "m(dst + of_nat i := m (src + of_nat i))"
  have unf: "copy_up m dst src i n = copy_up ?m dst src (Suc i) n"
    using 1 by (subst copy_up.simps) simp
  show ?case
  proof (cases "i = j")
    case True
    have "\<forall>j'. Suc i \<le> j' \<and> j' < n \<longrightarrow> dst + of_nat j \<noteq> dst + of_nat j'"
      using True 1 by auto
    with 1 True have "copy_up ?m dst src (Suc i) n (dst + of_nat j) = ?m (dst + of_nat j)"
      by (intro copy_up_outside) auto
    then show ?thesis using True unf by simp
  next
    case False
    then have "copy_up ?m dst src (Suc i) n (dst + of_nat j) = ?m (src + of_nat j)"
      using 1 by (intro "1.IH") auto
    moreover have "src + of_nat j \<noteq> dst + of_nat i"
      using False 1 unfolding fwd_safe_def by auto
    ultimately show ?thesis using unf by simp
  qed
qed

lemma copy_down_outside:
  "n \<le> 18446744073709551616 \<Longrightarrow> \<not> in_region a dst n \<Longrightarrow> copy_down m dst src n a = m a"
proof (induction n arbitrary: m)
  case (Suc n)
  then have "\<not> in_region a dst n" and "a \<noteq> dst + of_nat n"
    by (auto simp: in_region_iff)
  with Suc show ?case by simp
qed simp

lemma copy_down_inside:
  "n \<le> 18446744073709551616 \<Longrightarrow> bwd_safe dst src n \<Longrightarrow> j < n \<Longrightarrow>
   copy_down m dst src n (dst + of_nat j) = m (src + of_nat j)"
proof (induction n arbitrary: m)
  case (Suc n)
  let ?m = "m(dst + of_nat n := m (src + of_nat n))"
  have bw: "bwd_safe dst src n" using Suc.prems unfolding bwd_safe_def by auto
  show ?case
  proof (cases "j = n")
    case True
    then have "\<not> in_region (dst + of_nat j) dst n"
      using Suc.prems by (simp add: in_region_def)
    with Suc.prems True show ?thesis by (simp add: copy_down_outside)
  next
    case False
    with Suc.prems have "copy_down ?m dst src n (dst + of_nat j) = ?m (src + of_nat j)"
      by (intro Suc.IH bw) auto
    moreover have "src + of_nat j \<noteq> dst + of_nat n"
      using False Suc.prems unfolding bwd_safe_def by auto
    ultimately show ?thesis by simp
  qed
qed simp

lemma copy_up_region:
  assumes "n \<le> 18446744073709551616" "fwd_safe dst src n"
  shows "copy_up m dst src 0 n a = (if in_region a dst n then m (src + (a - dst)) else m a)"
proof (cases "in_region a dst n")
  case True
  with assms obtain j where "j < n" "a = dst + of_nat j" by (auto simp: in_region_iff)
  with assms True show ?thesis by (simp add: copy_up_inside)
next
  case False
  with assms show ?thesis by (auto simp: in_region_iff copy_up_outside)
qed

lemma copy_down_region:
  assumes "n \<le> 18446744073709551616" "bwd_safe dst src n"
  shows "copy_down m dst src n a = (if in_region a dst n then m (src + (a - dst)) else m a)"
proof (cases "in_region a dst n")
  case True
  with assms obtain j where "j < n" "a = dst + of_nat j" by (auto simp: in_region_iff)
  with assms True show ?thesis by (simp add: copy_down_inside)
next
  case False
  with assms show ?thesis by (simp add: copy_down_outside)
qed

lemma fwd_safe_below:
  assumes "no_wrap dst n" "no_wrap src n" "dst < src"
  shows "fwd_safe dst src n"
  unfolding fwd_safe_def
proof (intro allI impI)
  fix i j assume ij: "j < n" "i < j"
  with assms have "unat (src + of_nat j) = unat src + j" "unat (dst + of_nat i) = unat dst + i"
    by (auto intro!: no_wrap_unat)
  with ij assms(3) show "src + of_nat j \<noteq> dst + of_nat i"
    by (metis add_less_le_mono less_imp_le not_less_iff_gr_or_eq word_less_nat_alt add_strict_mono)
qed

lemma bwd_safe_above:
  assumes "no_wrap dst n" "no_wrap src n" "\<not> dst < src"
  shows "bwd_safe dst src n"
  unfolding bwd_safe_def
proof (intro allI impI)
  fix i j assume ij: "j < n" "i < j"
  with assms have "unat (src + of_nat i) = unat src + i" "unat (dst + of_nat j) = unat dst + j"
    by (auto intro!: no_wrap_unat)
  moreover have "unat src \<le> unat dst" using assms(3) by (simp add: word_less_nat_alt)
  ultimately show "src + of_nat i \<noteq> dst + of_nat j" using ij by (metis add_le_less_mono nat_neq_iff)
qed

lemma memmove_region:
  assumes "no_wrap dst (unat sz)" "no_wrap src (unat sz)"
  shows "memmove m dst src sz a = (if in_region a dst (unat sz) then m (src + (a - dst)) else m a)"
  unfolding memmove_def
  using assms by (auto simp: copy_up_region copy_down_region fwd_safe_below bwd_safe_above less_imp_le)

section \<open>What the comparisons do\<close>

text \<open>The bytes of a region, lowest address first.\<close>

definition bytes_at :: "mem \<Rightarrow> u64 \<Rightarrow> nat \<Rightarrow> u8 list" where
  "bytes_at m a n = map (\<lambda>i. m (a + of_nat i)) [0..<n]"

lemma length_bytes_at [simp]: "length (bytes_at m a n) = n"
  by (simp add: bytes_at_def)

lemma nth_bytes_at [simp]: "i < n \<Longrightarrow> bytes_at m a n ! i = m (a + of_nat i)"
  by (simp add: bytes_at_def)

lemma cmp_loop_lex:
  "cmp_loop m a b i n =
     (let xs = map (\<lambda>i. m (a + of_nat i)) [i..<n]; ys = map (\<lambda>i. m (b + of_nat i)) [i..<n]
      in if xs < ys then - 1 else if ys < xs then 1 else 0)"
proof (induction m a b i n rule: cmp_loop.induct)
  case (1 m a b i n)
  show ?case
  proof (cases "i < n")
    case True
    with 1 show ?thesis
      by (subst cmp_loop.simps) (auto simp: upt_conv_Cons Let_def Cons_less_Cons)
  next
    case False
    then show ?thesis by (subst cmp_loop.simps) simp
  qed
qed

lemma strlen_loop_step [simp]:
  "m (str + len) = 0 \<Longrightarrow> strlen_loop m str len = Some len"
  "m (str + len) \<noteq> 0 \<Longrightarrow> strlen_loop m str len = strlen_loop m str (len + 1)"
  by (subst strlen_loop.simps, simp)+

lemma strlen_loop_upto:
  assumes "m (str + of_nat k) = 0" "\<forall>j<k. m (str + of_nat j) \<noteq> 0" "j \<le> k"
  shows "strlen_loop m str (of_nat j) = Some (of_nat k)"
  using assms(3)
proof (induction j rule: inc_induct)
  case base
  then show ?case using assms(1) by simp
next
  case (step j)
  then have "m (str + of_nat j) \<noteq> 0" using assms(2) by simp
  moreover have "of_nat j + 1 = (of_nat (Suc j) :: u64)" by simp
  ultimately show ?case using step.IH by (metis strlen_loop_step(2))
qed

lemma strlen_loop_Some: "strlen_loop m str len = Some r \<Longrightarrow> m (str + r) = 0"
  by (rule strlen_loop.raw_induct [where P = "\<lambda>m str len r. m (str + r) = 0"])
    (auto split: if_splits)

section \<open>Properties\<close>

text \<open>
  C21. memmove copies: when neither region runs over the top of memory, whether they overlap
  or not, byte i of the destination holds what byte i of the source held before the call,
  and no byte outside the destination changes.
\<close>

theorem memmove_correct:
  assumes "no_wrap dst (unat sz)" "no_wrap src (unat sz)"
  shows "bytes_at (memmove m dst src sz) dst (unat sz) = bytes_at m src (unat sz)
    \<and> (\<forall>a. \<not> in_region a dst (unat sz) \<longrightarrow> memmove m dst src sz a = m a)"
proof -
  have "in_region (dst + of_nat i) dst (unat sz)" if "i < unat sz" for i
    using that less_trans [OF that unat_u64_lt] by (simp add: in_region_def)
  with assms show ?thesis by (simp add: memmove_region bytes_at_def)
qed

theorem memmove_correct_witness:
  "bytes_at (memmove (\<lambda>a. ucast a) 16 18 4) 16 4 = [18, 19, 20, 21]
    \<and> memmove (\<lambda>a. ucast a) 16 18 4 20 = 20"
proof -
  have "no_wrap 16 (unat (4::u64))" "no_wrap 18 (unat (4::u64))" by (simp_all add: no_wrap_def)
  from memmove_correct [OF this, of "\<lambda>a. ucast a"]
  show ?thesis by (simp add: bytes_at_def in_region_def upt_rec)
qed

text \<open>
  memcpy on regions that do not overlap, and memset: afterwards the destination holds
  the source bytes (the low byte of the fill value), and nothing else changes.
\<close>

theorem memcpy_memset_correct:
  assumes "\<forall>i<unat sz. \<forall>j<unat sz. src + of_nat i \<noteq> dst + of_nat j"
  shows "memcpy m dst src sz a = (if in_region a dst (unat sz) then m (src + (a - dst)) else m a)
    \<and> memset m dst c sz a = (if in_region a dst (unat sz) then ucast c else m a)"
proof -
  have "fwd_safe dst src (unat sz)" using assms unfolding fwd_safe_def by auto
  then show ?thesis by (simp add: memcpy_def copy_up_region less_imp_le)
qed

theorem memcpy_memset_correct_witness:
  "memcpy (\<lambda>a. ucast a) 100 8 2 101 = 9 \<and> memset (\<lambda>a. ucast a) 100 0x1FF 2 101 = 255"
proof -
  have "\<forall>i<unat (2::u64). \<forall>j<unat (2::u64). (8::u64) + of_nat i \<noteq> 100 + of_nat j"
    by (auto simp: less_2_cases_iff)
  from memcpy_memset_correct [OF this, where m = "\<lambda>a. ucast a" and a = 101 and c = "0x1FF"]
  show ?thesis by (simp add: in_region_def)
qed

text \<open>
  C32. memcmp is the lexicographic comparison of the two regions as strings of unsigned
  bytes: -1, 1 or 0 as the first is smaller, greater or equal.
\<close>

theorem memcmp_lexicographic:
  "memcmp m a b sz =
     (if bytes_at m a (unat sz) < bytes_at m b (unat sz) then - 1
      else if bytes_at m b (unat sz) < bytes_at m a (unat sz) then 1 else 0)"
  unfolding memcmp_def cmp_loop_lex Let_def bytes_at_def by (rule refl)

text \<open>
  C33. strlen returns the distance to the first NUL byte at or after the pointer (addresses
  wrap at the top of memory), and does not return exactly when memory holds no NUL byte.
\<close>

theorem strlen_first_nul:
  "strlen m str =
     (if \<exists>k. m (str + of_nat k) = 0 then Some (of_nat (LEAST k. m (str + of_nat k) = 0)) else None)"
proof (cases "\<exists>k. m (str + of_nat k) = 0")
  case True
  let ?k = "LEAST k. m (str + of_nat k) = 0"
  have "m (str + of_nat ?k) = 0" using True by (rule LeastI_ex)
  moreover have "\<forall>j<?k. m (str + of_nat j) \<noteq> 0" using not_less_Least by blast
  ultimately have "strlen_loop m str (of_nat 0) = Some (of_nat ?k)"
    by (rule strlen_loop_upto) simp
  with True show ?thesis by (simp add: strlen_def)
next
  case False
  have "strlen_loop m str 0 \<noteq> Some r" for r
  proof
    assume "strlen_loop m str 0 = Some r"
    then have "m (str + r) = 0" by (rule strlen_loop_Some)
    then have "m (str + of_nat (unat r)) = 0" by simp
    with False show False by blast
  qed
  with False show ?thesis by (auto simp: strlen_def)
qed

end
