(* ===== verification/Mem_Words.thy ===== *)
theory Mem_Words
  imports Libc_String
begin

text \<open>
  Multi-byte accesses through pointers: a 64-bit (32-bit) load or store at an address touches
  the eight (four) bytes from that address on, least significant byte first, as the x86_64
  target does.  The lemmas give loads and stores bit by bit; they carry the proofs about the
  page bitmap, the framebuffer and the interrupt table.
\<close>

definition load_le :: "mem \<Rightarrow> u64 \<Rightarrow> nat \<Rightarrow> u64" where
  "load_le m a n = foldr (\<lambda>b w. push_bit 8 w OR ucast b) (bytes_at m a n) 0"

definition load64 :: "mem \<Rightarrow> u64 \<Rightarrow> u64" where
  "load64 m a = load_le m a 8"

definition load32 :: "mem \<Rightarrow> u64 \<Rightarrow> u32" where
  "load32 m a = ucast (load_le m a 4)"

definition store_le :: "mem \<Rightarrow> u64 \<Rightarrow> nat \<Rightarrow> u64 \<Rightarrow> mem" where
  "store_le m a n v x = (if in_region x a n then ucast (drop_bit (8 * unat (x - a)) v) else m x)"

definition store64 :: "mem \<Rightarrow> u64 \<Rightarrow> u64 \<Rightarrow> mem" where
  "store64 m a v = store_le m a 8 v"

definition store32 :: "mem \<Rightarrow> u64 \<Rightarrow> u32 \<Rightarrow> mem" where
  "store32 m a v = store_le m a 4 (ucast v)"

lemma bytes_at_Suc: "bytes_at m a (Suc n) = m a # bytes_at m (a + 1) n"
  by (rule nth_equalityI) (auto simp: nth_Cons add.assoc split: nat.split)

lemma load_le_0 [simp]: "load_le m a 0 = 0"
  by (simp add: load_le_def bytes_at_def)

lemma load_le_Suc: "load_le m a (Suc n) = push_bit 8 (load_le m (a + 1) n) OR ucast (m a)"
  by (simp add: load_le_def bytes_at_Suc)

lemma bit_load_le:
  "n \<le> 8 \<Longrightarrow> bit (load_le m a n) k \<longleftrightarrow> k < 8 * n \<and> bit (m (a + of_nat (k div 8))) (k mod 8)"
proof (induction n arbitrary: a k)
  case 0
  then show ?case by simp
next
  case (Suc n)
  have k64: "k < 64" if "k < 8 + 8 * n" using that Suc.prems by simp
  show ?case
  proof (cases "k < 8")
    case True
    then show ?thesis by (simp add: load_le_Suc bit_or_iff bit_push_bit_iff bit_ucast_iff)
  next
    case False
    have "of_nat ((k - 8) div 8) + 1 = (of_nat (k div 8) :: u64)"
    proof -
      have "k div 8 = Suc ((k - 8) div 8)" using False by (simp add: le_div_geq)
      then show ?thesis by simp
    qed
    then have addr: "a + 1 + of_nat ((k - 8) div 8) = a + of_nat (k div 8)"
      by (simp add: add.assoc add.commute [of 1])
    have md: "(k - 8) mod 8 = k mod 8" using False by (simp add: le_mod_geq)
    have "bit (ucast (m a) :: u64) k = False" using False by (auto simp: bit_ucast_iff dest: bit_imp_le_length)
    then have "bit (load_le m a (Suc n)) k \<longleftrightarrow> k < 64 \<and> bit (load_le m (a + 1) n) (k - 8)"
      using False by (auto simp: load_le_Suc bit_or_iff bit_push_bit_iff)
    also have "\<dots> \<longleftrightarrow> k < 64 \<and> k - 8 < 8 * n \<and> bit (m (a + 1 + of_nat ((k - 8) div 8))) ((k - 8) mod 8)"
      using Suc.prems by (subst Suc.IH) simp_all
    also have "\<dots> \<longleftrightarrow> k < 8 * Suc n \<and> bit (m (a + of_nat (k div 8))) (k mod 8)"
      unfolding addr md using False k64 by auto
    finally show ?thesis .
  qed
qed

lemma bit_load64: "bit (load64 m a) k \<longleftrightarrow> k < 64 \<and> bit (m (a + of_nat (k div 8))) (k mod 8)"
  by (simp add: load64_def bit_load_le)

lemma bit_load32: "bit (load32 m a) k \<longleftrightarrow> k < 32 \<and> bit (m (a + of_nat (k div 8))) (k mod 8)"
  by (simp add: load32_def bit_load_le bit_ucast_iff)

lemma bit_store_le:
  "bit (store_le m a n v x) k \<longleftrightarrow>
     (if in_region x a n then k < 8 \<and> bit v (8 * unat (x - a) + k) else bit (m x) k)"
  by (auto simp: store_le_def bit_ucast_iff bit_drop_bit_eq)

lemma store_le_outside: "\<not> in_region x a n \<Longrightarrow> store_le m a n v x = m x"
  by (simp add: store_le_def)

lemma load64_store64_same [simp]: "load64 (store64 m a v) a = v"
proof (rule bit_word_eqI)
  fix k assume "k < LENGTH(64)"
  then have k: "k < 64" by simp
  then have "k div 8 < 8" by (simp add: less_mult_imp_div_less)
  then have "in_region (a + of_nat (k div 8)) a 8" by (simp add: in_region_def)
  with k \<open>k div 8 < 8\<close> show "bit (load64 (store64 m a v) a) k = bit v k"
    by (simp add: bit_load64 store64_def bit_store_le)
qed

lemma load32_store32_same [simp]: "load32 (store32 m a v) a = v"
proof (rule bit_word_eqI)
  fix k assume "k < LENGTH(32)"
  then have k: "k < 32" by simp
  then have "k div 8 < 4" by (simp add: less_mult_imp_div_less)
  then have "in_region (a + of_nat (k div 8)) a 4" by (simp add: in_region_def)
  with k \<open>k div 8 < 4\<close> show "bit (load32 (store32 m a v) a) k = bit v k"
    by (simp add: bit_load32 store32_def bit_store_le bit_ucast_iff)
qed

end
