(* ===== verification/Console.thy ===== *)
theory Console
  imports Prelude
begin

text \<open>
  The calls by which the memory, interrupt and CPU code talk to the console: the ULOG macros
  (kernel/include/kernel/log/ulog.h), printf, and the text colour of the terminal.  A
  component that only reports keeps the calls it makes, in order and with their arguments,
  in its own state; the theories of the log and of the terminal say what a call does.

  An argument of a variadic call is what the callee can fetch with va_arg: an 8-byte
  integer slot (the System V ABI passes every integer and pointer in one), a string, given
  by the bytes from the pointer to the end of the array, or the bit pattern of a double.
\<close>

datatype varg = Word u64 | Str "u8 list" | Dbl u64

section \<open>Severities\<close>

type_synonym ulog_level_t = u32

definition ULOG_TRACE_LEVEL :: ulog_level_t where [simp]: "ULOG_TRACE_LEVEL = 100"
definition ULOG_DEBUG_LEVEL :: ulog_level_t where [simp]: "ULOG_DEBUG_LEVEL = 101"
definition ULOG_INFO_LEVEL :: ulog_level_t where [simp]: "ULOG_INFO_LEVEL = 102"
definition ULOG_WARNING_LEVEL :: ulog_level_t where [simp]: "ULOG_WARNING_LEVEL = 103"
definition ULOG_ERROR_LEVEL :: ulog_level_t where [simp]: "ULOG_ERROR_LEVEL = 104"
definition ULOG_CRITICAL_LEVEL :: ulog_level_t where [simp]: "ULOG_CRITICAL_LEVEL = 105"
definition ULOG_ALWAYS_LEVEL :: ulog_level_t where [simp]: "ULOG_ALWAYS_LEVEL = 106"

section \<open>Colours\<close>

definition COLORS_TEXT_FG :: u32 where [simp]: "COLORS_TEXT_FG = 0xF0F6FC"
definition COLORS_BG :: u32 where [simp]: "COLORS_BG = 0x0D1117"
definition COLORS_GREEN :: u32 where [simp]: "COLORS_GREEN = 0x008000"
definition COLORS_RED :: u32 where [simp]: "COLORS_RED = 0x800000"
definition COLORS_BLUE :: u32 where [simp]: "COLORS_BLUE = 0x000080"
definition COLORS_YELLOW :: u32 where [simp]: "COLORS_YELLOW = 0x808000"
definition COLORS_WHITE :: u32 where [simp]: "COLORS_WHITE = 0xC0C0C0"

section \<open>Calls\<close>

datatype console_call =
    Ulog ulog_level_t string "varg list"
  | Printf string "varg list"
  | Set_text_color u32
  | Reset_text_color

abbreviation ULOG_INFO :: "string \<Rightarrow> varg list \<Rightarrow> console_call" where
  "ULOG_INFO \<equiv> Ulog ULOG_INFO_LEVEL"

abbreviation ULOG_DEBUG :: "string \<Rightarrow> varg list \<Rightarrow> console_call" where
  "ULOG_DEBUG \<equiv> Ulog ULOG_DEBUG_LEVEL"

abbreviation ULOG_CRITICAL :: "string \<Rightarrow> varg list \<Rightarrow> console_call" where
  "ULOG_CRITICAL \<equiv> Ulog ULOG_CRITICAL_LEVEL"

end
