(* ===== verification/Pmm_Bitmap.thy ===== *)
theory Pmm_Bitmap
  imports Mem_Words Console
begin

text \<open>
  The page bitmap of the physical memory manager (struct pmm_bitmap_t and the inline
  functions bitmap_check, bitmap_use, bitmap_free of kernel/include/kernel/mem/pmm.h).

  The bitmap lives in memory: \<open>bm_map\<close> is the address of its first 64-bit row and bit n
  is bit \<open>n mod 64\<close> of row \<open>n div 64\<close>; a set bit is a used page.  \<open>page_bit\<close> reads
  the same bit bytewise.  The locale \<open>bit_array\<close> is the contract its clients rely on: what
  a check returns after a use or a free, below a capacity.  It is interpreted on the code's
  operations, for the capacity of 2 ^ 38 bits up to which bitmap_check's 32-bit row number
  does not wrap and the rows of the map do not run over the top of memory.
\<close>

definition PAGE_SIZE :: u64 where [simp]: "PAGE_SIZE = 0x1000"
definition BITS_PER_ROW :: u64 where [simp]: "BITS_PER_ROW = 64"
definition FREE :: u32 where [simp]: "FREE = 0x00"
definition USED :: u32 where [simp]: "USED = 0xff"

definition ALIGN_UP :: "u64 \<Rightarrow> u64 \<Rightarrow> u64" where
  "ALIGN_UP address align = (address + align - 1) AND NOT (align - 1)"

definition BIT_TO_PAGE :: "u64 \<Rightarrow> u64" where "BIT_TO_PAGE bitn = bitn * PAGE_SIZE"
definition PAGE_TO_BIT :: "u64 \<Rightarrow> u64" where "PAGE_TO_BIT page = page div PAGE_SIZE"

record pmm_bitmap_t =
  bm_map :: u64
  bm_size :: u64
  total_pages :: u64
  used_pages :: u64
  highest_address :: u64
  lowest_address :: u64

section \<open>Operations\<close>

definition bitmap_check :: "pmm_bitmap_t \<Rightarrow> mem \<Rightarrow> u64 \<Rightarrow> bool" where
  "bitmap_check bitmap m bit_number =
     (let row = (ucast (bit_number div BITS_PER_ROW) :: u32);
          column = (ucast (bit_number mod BITS_PER_ROW) :: u32)
      in drop_bit (unat column) (load64 m (bm_map bitmap + 8 * ucast row)) AND 1 \<noteq> 0)"

definition bitmap_use :: "pmm_bitmap_t \<Rightarrow> u64 \<Rightarrow> mem \<Rightarrow> mem" where
  "bitmap_use bitmap bit_number m =
     (let a = bm_map bitmap + 8 * (bit_number div BITS_PER_ROW)
      in store64 m a (load64 m a OR push_bit (unat (bit_number mod BITS_PER_ROW)) 1))"

definition bitmap_free :: "pmm_bitmap_t \<Rightarrow> u64 \<Rightarrow> mem \<Rightarrow> mem" where
  "bitmap_free bitmap bit_number m =
     (let a = bm_map bitmap + 8 * (bit_number div BITS_PER_ROW)
      in store64 m a (load64 m a AND NOT (push_bit (unat (bit_number mod BITS_PER_ROW)) 1)))"

section \<open>Bits, bytewise\<close>

definition page_bit :: "mem \<Rightarrow> u64 \<Rightarrow> nat \<Rightarrow> bool" where
  "page_bit m base n \<longleftrightarrow> bit (m (base + of_nat (n div 8))) (n mod 8)"

text \<open>The capacity: 2 ^ 38 bits, in 2 ^ 32 rows.\<close>

definition bit_cap :: nat where "bit_cap = 2 ^ 38"

lemma row_word:
  "n < bit_cap \<Longrightarrow> (ucast (of_nat n div 64 :: u64) :: u32) = of_nat (n div 64)"
  "n < bit_cap \<Longrightarrow> unat (of_nat n div 64 :: u64) = n div 64"
  "n < bit_cap \<Longrightarrow> unat (of_nat n mod 64 :: u64) = n mod 64"
proof -
  assume n: "n < bit_cap"
  then have u: "unat (of_nat n :: u64) = n" by (simp add: bit_cap_def)
  show d: "unat (of_nat n div 64 :: u64) = n div 64" by (simp add: unat_div_distrib u)
  show "unat (of_nat n mod 64 :: u64) = n mod 64" by (simp add: unat_mod_distrib u)
  have "n div 64 < 2 ^ 32" using n by (simp add: bit_cap_def less_mult_imp_div_less)
  moreover have "(of_nat n div 64 :: u64) = of_nat (n div 64)" using d by (metis of_nat_unat ucast_id)
  ultimately show "(ucast (of_nat n div 64 :: u64) :: u32) = of_nat (n div 64)"
    by (simp add: unsigned_of_nat take_bit_nat_eq_self)
qed

lemma row_addr: "n < bit_cap \<Longrightarrow> 8 * (of_nat n div 64 :: u64) = of_nat (8 * (n div 64))"
  by (subst row_word(2) [symmetric], assumption) (simp only: of_nat_mult of_nat_numeral of_nat_unat ucast_id)

lemma row_addr32:
  "n < bit_cap \<Longrightarrow> 8 * (ucast (ucast (of_nat n div 64 :: u64) :: u32) :: u64) = of_nat (8 * (n div 64))"
proof -
  assume n: "n < bit_cap"
  then have "n div 64 < 2 ^ 32" by (simp add: bit_cap_def less_mult_imp_div_less)
  then have "(ucast (of_nat (n div 64) :: u32) :: u64) = of_nat (n div 64)"
    by (simp add: unsigned_of_nat take_bit_nat_eq_self)
  with n show ?thesis by (simp add: row_word(1))
qed

lemma div64_div8: "n div 64 = n div 8 div (8 :: nat)"
  by (simp add: div_mult2_eq [symmetric])

lemma mod64_div8: "n mod 64 div 8 = n div 8 mod (8 :: nat)"
  using mod_mult2_eq [of n 8 8] by simp

lemma div8_split: "n div 8 = 8 * (n div 64) + n mod 64 div (8 :: nat)"
  by (simp add: div64_div8 mod64_div8)

lemma mod64_mod8 [simp]: "n mod 64 mod 8 = n mod (8 :: nat)"
  by (simp add: mod_mod_cancel)

lemma bit_load_row:
  "j < 64 \<Longrightarrow> bit (load64 m (base + of_nat (8 * r))) j \<longleftrightarrow> page_bit m base (64 * r + j)"
proof -
  assume j: "j < 64"
  have "64 * r + j = j + 8 * (8 * r)" by simp
  then have "(64 * r + j) div 8 = 8 * r + j div 8" "(64 * r + j) mod 8 = j mod 8"
    by (simp_all only: div_mult_self2 mod_mult_self2)
  with j show ?thesis by (simp add: bit_load64 page_bit_def add.assoc)
qed

lemma page_bit_store_row:
  assumes n: "n < bit_cap" and r: "r < 2 ^ 32"
  shows "page_bit (store64 m (base + of_nat (8 * r)) v) base n =
    (if n div 64 = r then bit v (n mod 64) else page_bit m base n)"
proof -
  let ?x = "base + of_nat (n div 8)" and ?a = "base + of_nat (8 * r)"
  have small: "n div 8 < 2 ^ 35" "8 * r < 2 ^ 35" using n r by (simp_all add: bit_cap_def less_mult_imp_div_less)
  have "in_region ?x ?a 8 \<longleftrightarrow> (\<exists>i<8. ?x = ?a + of_nat i)" by (simp add: in_region_iff)
  also have "\<dots> \<longleftrightarrow> (\<exists>i<8. (of_nat (n div 8) :: u64) = of_nat (8 * r + i))" by (simp add: add.assoc)
  also have "\<dots> \<longleftrightarrow> (\<exists>i<8. n div 8 = 8 * r + i)"
    using small by (intro ex_cong1 conj_cong refl of_nat_u64_inj) simp_all
  also have "\<dots> \<longleftrightarrow> n div 64 = r"
  proof
    assume "\<exists>i<8. n div 8 = 8 * r + i"
    then show "n div 64 = r" by (auto simp: div64_div8)
  next
    assume "n div 64 = r"
    then show "\<exists>i<8. n div 8 = 8 * r + i"
      using div8_split [of n] by (intro exI [of _ "n mod 64 div 8"]) (simp add: less_mult_imp_div_less)
  qed
  finally have reg: "in_region ?x ?a 8 \<longleftrightarrow> n div 64 = r" .
  show ?thesis
  proof (cases "n div 64 = r")
    case True
    then have "?x - ?a = of_nat (n mod 64 div 8)" using div8_split [of n] by simp
    moreover have "n mod 64 div 8 < 8" by (simp add: less_mult_imp_div_less)
    ultimately have "unat (?x - ?a) = n mod 64 div 8" by simp
    moreover have "8 * (n mod 64 div 8) + n mod 8 = n mod 64"
      by (metis mod64_mod8 mult_div_mod_eq)
    ultimately show ?thesis using True reg by (simp add: page_bit_def store64_def bit_store_le)
  next
    case False
    then show ?thesis using reg by (simp add: page_bit_def store64_def bit_store_le)
  qed
qed

lemma bitmap_check_page_bit:
  "n < bit_cap \<Longrightarrow> bitmap_check b m (of_nat n) \<longleftrightarrow> page_bit m (bm_map b) n"
proof -
  assume n: "n < bit_cap"
  have "unat (ucast (of_nat n mod 64 :: u64) :: u32) = n mod 64"
  proof -
    have "unat (of_nat n mod 64 :: u64) = n mod 64" by (rule row_word(3) [OF n])
    then show ?thesis by (simp add: unsigned_ucast_eq take_bit_nat_eq_self)
  qed
  with n show ?thesis
    using bit_load_row [of "n mod 64" m "bm_map b" "n div 64"]
    by (simp add: bitmap_check_def row_addr32 drop_bit_and_one)
qed

lemma bitmap_use_row:
  "k < bit_cap \<Longrightarrow> bitmap_use b (of_nat k) m =
    store64 m (bm_map b + of_nat (8 * (k div 64)))
      (load64 m (bm_map b + of_nat (8 * (k div 64))) OR push_bit (k mod 64) 1)"
  by (simp only: bitmap_use_def Let_def BITS_PER_ROW_def row_addr row_word(3))

lemma page_bit_use:
  assumes k: "k < bit_cap" and n: "n < bit_cap"
  shows "page_bit (bitmap_use b (of_nat k) m) (bm_map b) n \<longleftrightarrow> n = k \<or> page_bit m (bm_map b) n"
proof -
  have r: "k div 64 < 2 ^ 32" using k by (simp add: bit_cap_def less_mult_imp_div_less)
  show ?thesis
  proof (cases "n div 64 = k div 64")
    case True
    have "bit (load64 m (bm_map b + of_nat (8 * (n div 64)))) (n mod 64) = page_bit m (bm_map b) n"
      using bit_load_row [of "n mod 64" m "bm_map b" "n div 64"] by simp
    moreover have "n = k \<longleftrightarrow> n mod 64 = k mod 64" using True by (metis mult_div_mod_eq)
    ultimately show ?thesis
      unfolding bitmap_use_row [OF k] page_bit_store_row [OF n r]
      by (simp only: True [symmetric] if_True bit_or_iff bit_push_bit_iff) (auto simp: bit_1_iff)
  next
    case False
    then show ?thesis unfolding bitmap_use_row [OF k] page_bit_store_row [OF n r] by auto
  qed
qed

lemma bitmap_free_row:
  "k < bit_cap \<Longrightarrow> bitmap_free b (of_nat k) m =
    store64 m (bm_map b + of_nat (8 * (k div 64)))
      (load64 m (bm_map b + of_nat (8 * (k div 64))) AND NOT (push_bit (k mod 64) 1))"
  by (simp only: bitmap_free_def Let_def BITS_PER_ROW_def row_addr row_word(3))

lemma page_bit_free:
  assumes k: "k < bit_cap" and n: "n < bit_cap"
  shows "page_bit (bitmap_free b (of_nat k) m) (bm_map b) n \<longleftrightarrow> n \<noteq> k \<and> page_bit m (bm_map b) n"
proof -
  have r: "k div 64 < 2 ^ 32" using k by (simp add: bit_cap_def less_mult_imp_div_less)
  show ?thesis
  proof (cases "n div 64 = k div 64")
    case True
    have "bit (load64 m (bm_map b + of_nat (8 * (n div 64)))) (n mod 64) = page_bit m (bm_map b) n"
      using bit_load_row [of "n mod 64" m "bm_map b" "n div 64"] by simp
    moreover have "n = k \<longleftrightarrow> n mod 64 = k mod 64" using True by (metis mult_div_mod_eq)
    ultimately show ?thesis
      unfolding bitmap_free_row [OF k] page_bit_store_row [OF n r]
      by (simp only: True [symmetric] if_True bit_and_iff bit_not_iff bit_push_bit_iff) (auto simp: bit_1_iff)
  next
    case False
    then show ?thesis unfolding bitmap_free_row [OF k] page_bit_store_row [OF n r] by auto
  qed
qed

text \<open>The frame: an operation on bit k writes only the eight bytes of its row.\<close>

lemma row_region:
  assumes "k < bit_cap" "k < 64 * r" "\<not> in_region x (bm_map b) (8 * r)" "8 * r \<le> 18446744073709551616"
  shows "\<not> in_region x (bm_map b + of_nat (8 * (k div 64))) 8"
proof
  assume "in_region x (bm_map b + of_nat (8 * (k div 64))) 8"
  then obtain i where i: "i < 8" "x = bm_map b + of_nat (8 * (k div 64) + i)"
    by (auto simp: in_region_iff add.assoc)
  have "k div 64 < r" using assms(2) by (simp add: less_mult_imp_div_less mult.commute)
  with i(1) have "8 * (k div 64) + i < 8 * r" by linarith
  with i(2) assms(3,4) show False by (auto simp: in_region_iff)
qed

lemma bitmap_use_outside:
  "k < bit_cap \<Longrightarrow> k < 64 * r \<Longrightarrow> \<not> in_region x (bm_map b) (8 * r) \<Longrightarrow> 8 * r \<le> 18446744073709551616 \<Longrightarrow>
   bitmap_use b (of_nat k) m x = m x"
  using row_region [of k r x b]
  unfolding bitmap_use_row store64_def by (intro store_le_outside)

lemma bitmap_free_outside:
  "k < bit_cap \<Longrightarrow> k < 64 * r \<Longrightarrow> \<not> in_region x (bm_map b) (8 * r) \<Longrightarrow> 8 * r \<le> 18446744073709551616 \<Longrightarrow>
   bitmap_free b (of_nat k) m x = m x"
  using row_region [of k r x b]
  unfolding bitmap_free_row store64_def by (intro store_le_outside)

section \<open>The contract of a bitmap\<close>

text \<open>
  \<open>bit_array\<close> is what the allocator needs of the bitmap: a use and a free of one bit change
  the answer of a check of that bit and of no other.  \<open>used\<close> is the set of used bits; the
  allocator's loops use and free runs of consecutive bits.
\<close>

locale bit_array =
  fixes check :: "'s \<Rightarrow> nat \<Rightarrow> bool"
    and useb :: "nat \<Rightarrow> 's \<Rightarrow> 's"
    and freeb :: "nat \<Rightarrow> 's \<Rightarrow> 's"
    and cap :: nat
  assumes check_use: "k < cap \<Longrightarrow> n < cap \<Longrightarrow> check (useb k s) n \<longleftrightarrow> n = k \<or> check s n"
    and check_free: "k < cap \<Longrightarrow> n < cap \<Longrightarrow> check (freeb k s) n \<longleftrightarrow> n \<noteq> k \<and> check s n"
begin

lemma check_use_run:
  "i + n \<le> cap \<Longrightarrow> k < cap \<Longrightarrow> check (fold useb [i..<i + n] s) k \<longleftrightarrow> k \<in> {i..<i + n} \<or> check s k"
proof (induction n)
  case (Suc n)
  then show ?case by (auto simp: check_use less_Suc_eq)
qed simp

lemma check_free_run:
  "i + n \<le> cap \<Longrightarrow> k < cap \<Longrightarrow> check (fold freeb [i..<i + n] s) k \<longleftrightarrow> k \<notin> {i..<i + n} \<and> check s k"
proof (induction n)
  case (Suc n)
  then show ?case by (auto simp: check_free less_Suc_eq)
qed simp

lemma check_use_free_run:
  assumes "i + n \<le> cap" "k < cap" "\<forall>j\<in>{i..<i + n}. \<not> check s j"
  shows "check (fold freeb [i..<i + n] (fold useb [i..<i + n] s)) k \<longleftrightarrow> check s k"
  using assms by (auto simp: check_use_run check_free_run)

lemma check_free_twice:
  assumes "i + n \<le> cap" "k < cap"
  shows "check (fold freeb [i..<i + n] (fold freeb [i..<i + n] s)) k \<longleftrightarrow> check (fold freeb [i..<i + n] s) k"
  using assms by (auto simp: check_free_run)

end

interpretation bm: bit_array
  "\<lambda>m n. bitmap_check b m (of_nat n)" "\<lambda>n. bitmap_use b (of_nat n)" "\<lambda>n. bitmap_free b (of_nat n)" bit_cap
  for b
  by unfold_locales (simp_all add: bitmap_check_page_bit page_bit_use page_bit_free)

end
