(* ===== verification/Pmm_Alloc.thy ===== *)
theory Pmm_Alloc
  imports Pmm_Bitmap
begin

text \<open>
  The page allocator (kernel/arch/x86_64/mem/pmm.c): kalloc, find_first_free_page_range and
  kfree over the page bitmap.  The state holds the memory, the descriptor of the bitmap, the
  offset of the higher-half direct map and the console calls made so far.

  \<open>first_fit\<close> is the abstract search, on bit numbers; the code's search returns the byte
  offset of the page and 0 for "none", so that it cannot tell a run at page 0 from no run.
\<close>

record pmm =
  mem :: mem
  pmm_bitmap :: pmm_bitmap_t
  g_hhdm_offset :: u64
  console :: "console_call list"

section \<open>Operations\<close>

text \<open>The inner loop of the search: are the page_count bits from bit_i on free?\<close>

function lookahead :: "pmm_bitmap_t \<Rightarrow> mem \<Rightarrow> u64 \<Rightarrow> u64 \<Rightarrow> nat \<Rightarrow> bool" where
  "lookahead b m bit_i page_count i =
     (if i < unat page_count then
        if bitmap_check b m (bit_i + of_nat i) then False
        else if of_nat i = page_count - 1 then True
        else lookahead b m bit_i page_count (Suc i)
      else False)"
  by pat_completeness auto
termination by (relation "measure (\<lambda>(b, m, bit_i, page_count, i). unat page_count - i)") auto

function find_loop :: "pmm_bitmap_t \<Rightarrow> mem \<Rightarrow> u64 \<Rightarrow> nat \<Rightarrow> u64" where
  "find_loop b m page_count i =
     (if i < unat (total_pages b) then
        if \<not> bitmap_check b m (of_nat i) then
          if lookahead b m (of_nat i) page_count 0 then BIT_TO_PAGE (of_nat i)
          else find_loop b m page_count (Suc i)
        else find_loop b m page_count (Suc i)
      else 0)"
  by pat_completeness auto
termination by (relation "measure (\<lambda>(b, m, page_count, i). unat (total_pages b) - i)") auto

declare lookahead.simps [simp del] find_loop.simps [simp del]

definition find_first_free_page_range :: "pmm \<Rightarrow> u64 \<Rightarrow> u64" where
  "find_first_free_page_range s page_count = find_loop (pmm_bitmap s) (mem s) page_count 0"

function use_loop :: "pmm_bitmap_t \<Rightarrow> u64 \<Rightarrow> nat \<Rightarrow> nat \<Rightarrow> mem \<Rightarrow> mem" where
  "use_loop b index i n m =
     (if i < n then use_loop b index (Suc i) n (bitmap_use b (index + of_nat i) m) else m)"
  by pat_completeness auto
termination by (relation "measure (\<lambda>(b, index, i, n, m). n - i)") auto

function free_loop :: "pmm_bitmap_t \<Rightarrow> u64 \<Rightarrow> nat \<Rightarrow> nat \<Rightarrow> mem \<Rightarrow> mem" where
  "free_loop b index i n m =
     (if i < n then free_loop b index (Suc i) n (bitmap_free b (index + of_nat i) m) else m)"
  by pat_completeness auto
termination by (relation "measure (\<lambda>(b, index, i, n, m). n - i)") auto

declare use_loop.simps [simp del] free_loop.simps [simp del]

definition kalloc :: "u64 \<Rightarrow> pmm \<Rightarrow> u64 \<times> pmm" where
  "kalloc page_count s =
     (let b = pmm_bitmap s in
      if used_pages b \<ge> total_pages b then
        (0, s\<lparr>console := console s @ [ULOG_CRITICAL ''Out of Memory.'' []]\<rparr>)
      else
        let pointer = find_first_free_page_range s page_count in
        if pointer = 0 then (0, s)
        else
          let index = PAGE_TO_BIT pointer;
              s' = s\<lparr>mem := use_loop b index 0 (unat page_count) (mem s),
                     pmm_bitmap := b\<lparr>used_pages := used_pages b + page_count\<rparr>\<rparr>
          in (lowest_address b + BIT_TO_PAGE index + g_hhdm_offset s, s'))"

definition kfree :: "u64 \<Rightarrow> u64 \<Rightarrow> pmm \<Rightarrow> pmm" where
  "kfree pointer page_count s =
     (let b = pmm_bitmap s;
          index = PAGE_TO_BIT (pointer - g_hhdm_offset s - lowest_address b)
      in s\<lparr>console := console s @ [ULOG_DEBUG ''Freeing %d pages starting at index %d'' [Word page_count, Word index]],
           mem := free_loop b index 0 (unat page_count) (mem s),
           pmm_bitmap := b\<lparr>used_pages := used_pages b - page_count\<rparr>\<rparr>)"

section \<open>The loops as runs of bits\<close>

lemma use_loop_fold:
  "unat index + n \<le> bit_cap \<Longrightarrow> i \<le> n \<Longrightarrow>
   use_loop b index i n m = fold (\<lambda>k. bitmap_use b (of_nat k)) [unat index + i..<unat index + n] m"
proof (induction b index i n m rule: use_loop.induct)
  case (1 b index i n m)
  show ?case
  proof (cases "i < n")
    case True
    with 1 show ?thesis by (subst use_loop.simps) (simp add: upt_conv_Cons)
  next
    case False
    then show ?thesis by (subst use_loop.simps) simp
  qed
qed

lemma free_loop_fold:
  "unat index + n \<le> bit_cap \<Longrightarrow> i \<le> n \<Longrightarrow>
   free_loop b index i n m = fold (\<lambda>k. bitmap_free b (of_nat k)) [unat index + i..<unat index + n] m"
proof (induction b index i n m rule: free_loop.induct)
  case (1 b index i n m)
  show ?case
  proof (cases "i < n")
    case True
    with 1 show ?thesis by (subst free_loop.simps) (simp add: upt_conv_Cons)
  next
    case False
    then show ?thesis by (subst free_loop.simps) simp
  qed
qed

text \<open>
  \<open>lookahead\<close> answers for the whole run if the run stays below the capacity or meets a used
  bit there.
\<close>

definition free_run :: "pmm_bitmap_t \<Rightarrow> mem \<Rightarrow> nat \<Rightarrow> nat \<Rightarrow> bool" where
  "free_run b m i n \<longleftrightarrow> 0 < n \<and> (\<forall>k\<in>{i..<i + n}. \<not> page_bit m (bm_map b) k)"

lemma lookahead_free_run:
  "j < unat pc \<Longrightarrow> i + unat pc \<le> bit_cap \<or> (\<exists>g. i + j \<le> g \<and> g < bit_cap \<and> page_bit m (bm_map b) g) \<Longrightarrow>
   lookahead b m (of_nat i) pc j \<longleftrightarrow> (\<forall>k\<in>{i + j..<i + unat pc}. \<not> page_bit m (bm_map b) k)"
proof (induction "unat pc - j" arbitrary: j rule: less_induct)
  case less
  have cap: "i + j < bit_cap" using less.prems by auto
  have chk: "bitmap_check b m (of_nat i + of_nat j) \<longleftrightarrow> page_bit m (bm_map b) (i + j)"
    using bitmap_check_page_bit [OF cap, of b m] by simp
  have pc1: "unat (pc - 1) = unat pc - 1"
    using less.prems(1) by (intro unat_minus_one) auto
  have last: "of_nat j = pc - 1 \<longleftrightarrow> Suc j = unat pc"
  proof -
    have "of_nat j = pc - 1 \<longleftrightarrow> j = unat (pc - 1)"
      using less.prems(1) less_trans [OF less.prems(1) unat_u64_lt]
      by (metis of_nat_unat ucast_id unat_of_nat_u64)
    then show ?thesis using pc1 less.prems(1) by auto
  qed
  show ?case
  proof (cases "page_bit m (bm_map b) (i + j)")
    case True
    with less.prems chk show ?thesis by (subst lookahead.simps) auto
  next
    case False
    show ?thesis
    proof (cases "Suc j = unat pc")
      case True
      then have "{i + j..<i + unat pc} = {i + j}" by auto
      with less.prems chk last False True show ?thesis by (subst lookahead.simps) simp
    next
      case not_last: False
      then have j: "Suc j < unat pc" using less.prems(1) by simp
      have "i + unat pc \<le> bit_cap \<or> (\<exists>g. i + Suc j \<le> g \<and> g < bit_cap \<and> page_bit m (bm_map b) g)"
        using less.prems(2) False by (metis add_Suc_right le_eq_less_or_eq Suc_leI)
      then have "lookahead b m (of_nat i) pc (Suc j) \<longleftrightarrow>
          (\<forall>k\<in>{i + Suc j..<i + unat pc}. \<not> page_bit m (bm_map b) k)"
        using j by (intro less.hyps) auto
      moreover have "{i + j..<i + unat pc} = insert (i + j) {i + Suc j..<i + unat pc}"
        using less.prems(1) by auto
      moreover have "lookahead b m (of_nat i) pc j = lookahead b m (of_nat i) pc (Suc j)"
        using less.prems chk last False not_last by (subst lookahead.simps) simp
      ultimately show ?thesis using False by simp
    qed
  qed
qed

section \<open>The abstract search\<close>

text \<open>The first start below \<open>total_pages\<close> of a run of n free bits.\<close>

definition first_fit :: "pmm_bitmap_t \<Rightarrow> mem \<Rightarrow> nat \<Rightarrow> nat option" where
  "first_fit b m n = find (\<lambda>i. free_run b m i n) [0..<unat (total_pages b)]"

text \<open>
  The bitmap is sound when its bits fit below the capacity and a used bit, at or above
  \<open>total_pages\<close>, stops every search before the end of the bitmap.
\<close>

definition bits :: "pmm_bitmap_t \<Rightarrow> nat" where
  "bits b = 64 * unat (bm_size b)"

definition sentinel :: "pmm_bitmap_t \<Rightarrow> mem \<Rightarrow> nat \<Rightarrow> bool" where
  "sentinel b m g \<longleftrightarrow> unat (total_pages b) \<le> g \<and> g < bits b \<and> page_bit m (bm_map b) g"

definition bitmap_sound :: "pmm_bitmap_t \<Rightarrow> mem \<Rightarrow> bool" where
  "bitmap_sound b m \<longleftrightarrow> bits b \<le> bit_cap \<and> (\<exists>g. sentinel b m g)"

lemma find_loop_first:
  "bitmap_sound b m \<Longrightarrow>
   find_loop b m pc i =
    (case find (\<lambda>i. free_run b m i (unat pc)) [i..<unat (total_pages b)] of
       None \<Rightarrow> 0 | Some j \<Rightarrow> BIT_TO_PAGE (of_nat j))"
proof (induction b m pc i rule: find_loop.induct)
  case (1 b m pc i)
  show ?case
  proof (cases "i < unat (total_pages b)")
    case True
    from "1.prems" obtain g where g: "unat (total_pages b) \<le> g" "g < bit_cap" "page_bit m (bm_map b) g"
      by (auto simp: bitmap_sound_def sentinel_def)
    have look: "unat pc \<noteq> 0 \<Longrightarrow> lookahead b m (of_nat i) pc 0 \<longleftrightarrow> free_run b m i (unat pc)"
      using True g by (subst lookahead_free_run) (auto simp: free_run_def)
    have look0: "unat pc = 0 \<Longrightarrow> \<not> lookahead b m (of_nat i) pc 0 \<and> \<not> free_run b m i (unat pc)"
      by (subst lookahead.simps) (simp add: free_run_def)
    have chk: "bitmap_check b m (of_nat i) \<longleftrightarrow> page_bit m (bm_map b) i"
      using True g by (intro bitmap_check_page_bit) simp
    have used: "page_bit m (bm_map b) i \<Longrightarrow> \<not> free_run b m i (unat pc)"
      by (auto simp: free_run_def)
    from True 1 look look0 chk used show ?thesis
      by (subst find_loop.simps) (cases "unat pc = 0"; auto simp: upt_conv_Cons)
  next
    case False
    then show ?thesis by (subst find_loop.simps) simp
  qed
qed

lemma first_fit_run:
  "first_fit b m n = Some i \<Longrightarrow> i < unat (total_pages b) \<and> free_run b m i n \<and> (\<forall>j<i. \<not> free_run b m j n)"
  by (auto simp: first_fit_def find_Some_iff)

lemma first_fit_below_sentinel:
  assumes "first_fit b m n = Some i" "sentinel b m g"
  shows "i + n \<le> g"
proof (rule ccontr)
  assume "\<not> i + n \<le> g"
  moreover from first_fit_run [OF assms(1)] assms(2) have "i \<le> g" by (simp add: sentinel_def)
  ultimately have "g \<in> {i..<i + n}" by simp
  moreover from first_fit_run [OF assms(1)] have "\<forall>k\<in>{i..<i + n}. \<not> page_bit m (bm_map b) k"
    by (simp add: free_run_def)
  ultimately show False using assms(2) by (auto simp: sentinel_def)
qed

text \<open>
  The pointer to page i, and kalloc's answer in terms of the abstract search.  A run that
  starts at page 0 is found but not allocated, because its offset is the NULL of the search.
\<close>

definition page_ptr :: "pmm \<Rightarrow> nat \<Rightarrow> u64" where
  "page_ptr s i = lowest_address (pmm_bitmap s) + BIT_TO_PAGE (of_nat i) + g_hhdm_offset s"

definition use_run :: "pmm_bitmap_t \<Rightarrow> nat \<Rightarrow> nat \<Rightarrow> mem \<Rightarrow> mem" where
  "use_run b i n = fold (\<lambda>k. bitmap_use b (of_nat k)) [i..<i + n]"

definition free_bits :: "pmm_bitmap_t \<Rightarrow> nat \<Rightarrow> nat \<Rightarrow> mem \<Rightarrow> mem" where
  "free_bits b i n = fold (\<lambda>k. bitmap_free b (of_nat k)) [i..<i + n]"

lemma BIT_TO_PAGE_bit:
  "i < bit_cap \<Longrightarrow> unat (BIT_TO_PAGE (of_nat i)) = 4096 * i"
  "i < bit_cap \<Longrightarrow> PAGE_TO_BIT (BIT_TO_PAGE (of_nat i)) = of_nat i"
  "i < bit_cap \<Longrightarrow> BIT_TO_PAGE (of_nat i) = 0 \<longleftrightarrow> i = 0"
proof -
  assume i: "i < bit_cap"
  have eq: "BIT_TO_PAGE (of_nat i) = of_nat (4096 * i)" by (simp add: BIT_TO_PAGE_def mult.commute)
  show u: "unat (BIT_TO_PAGE (of_nat i)) = 4096 * i"
    unfolding eq using i by (intro unat_of_nat_u64) (simp add: bit_cap_def)
  have "unat (PAGE_TO_BIT (BIT_TO_PAGE (of_nat i))) = i" by (simp add: PAGE_TO_BIT_def unat_div_distrib u)
  then show "PAGE_TO_BIT (BIT_TO_PAGE (of_nat i)) = of_nat i" by (metis of_nat_unat ucast_id)
  show "BIT_TO_PAGE (of_nat i) = 0 \<longleftrightarrow> i = 0" using u by (metis mult_eq_0_iff unat_eq_zero zero_neq_numeral)
qed

lemma kalloc_first_fit:
  assumes "bitmap_sound (pmm_bitmap s) (mem s)"
  shows "kalloc n s =
    (let b = pmm_bitmap s in
     if used_pages b \<ge> total_pages b then
       (0, s\<lparr>console := console s @ [ULOG_CRITICAL ''Out of Memory.'' []]\<rparr>)
     else case first_fit b (mem s) (unat n) of
       None \<Rightarrow> (0, s)
     | Some i \<Rightarrow>
         if i = 0 then (0, s)
         else (page_ptr s i, s\<lparr>mem := use_run b i (unat n) (mem s),
                               pmm_bitmap := b\<lparr>used_pages := used_pages b + n\<rparr>\<rparr>))"
proof -
  let ?b = "pmm_bitmap s"
  have ff: "find_first_free_page_range s n =
      (case first_fit ?b (mem s) (unat n) of None \<Rightarrow> 0 | Some j \<Rightarrow> BIT_TO_PAGE (of_nat j))"
    using assms by (simp add: find_first_free_page_range_def find_loop_first first_fit_def)
  show ?thesis
  proof (cases "first_fit ?b (mem s) (unat n)")
    case None
    then show ?thesis by (simp add: kalloc_def Let_def ff)
  next
    case (Some i)
    from assms obtain g where g: "sentinel ?b (mem s) g" "g < bit_cap" by (auto simp: bitmap_sound_def sentinel_def)
    from first_fit_below_sentinel [OF Some g(1)] g(2) first_fit_run [OF Some]
    have i: "i < bit_cap" "i + unat n \<le> bit_cap" by (auto simp: free_run_def)
    then have u: "unat (of_nat i :: u64) = i" by (simp add: bit_cap_def)
    from Some i show ?thesis
      using use_loop_fold [of "of_nat i" "unat n" 0 ?b "mem s"]
      by (simp add: kalloc_def Let_def ff BIT_TO_PAGE_bit u use_run_def page_ptr_def)
  qed
qed

end
