(* ===== verification/Pmm_Heap.thy ===== *)
theory Pmm_Heap
  imports Pmm_Alloc
begin

text \<open>
  The allocator seen from outside: a heap whose clients allocate runs of pages, free what
  they were given, and write to the pages they hold.  \<open>used_set\<close> abstracts the bitmap to
  the set of used page numbers, \<open>heap_step\<close> are the moves of the clients, and \<open>heap_inv\<close>
  is what every sequence of moves keeps, provided that the pages the bitmap itself lies in
  are marked used at the start.
\<close>

section \<open>The bitmap as a set of page numbers\<close>

definition used_set :: "pmm_bitmap_t \<Rightarrow> mem \<Rightarrow> nat set" where
  "used_set b m = {k. k < bits b \<and> page_bit m (bm_map b) k}"

lemma bits_used_pages [simp]: "bits (b\<lparr>used_pages := x\<rparr>) = bits b"
  by (simp add: bits_def)

lemma used_set_used_pages [simp]: "used_set (b\<lparr>used_pages := x\<rparr>) m = used_set b m"
  by (simp add: used_set_def)

lemma sentinel_used_pages [simp]: "sentinel (b\<lparr>used_pages := x\<rparr>) m g = sentinel b m g"
  by (simp add: sentinel_def)

lemma sentinel_used_set:
  "sentinel b m g \<longleftrightarrow> unat (total_pages b) \<le> g \<and> g \<in> used_set b m"
  by (auto simp: sentinel_def used_set_def)

lemma used_set_use_run:
  assumes "bits b \<le> bit_cap" "i + n \<le> bits b"
  shows "used_set b (use_run b i n m) = used_set b m \<union> {i..<i + n}"
proof -
  have "page_bit (use_run b i n m) (bm_map b) k \<longleftrightarrow> k \<in> {i..<i + n} \<or> page_bit m (bm_map b) k"
    if "k < bits b" for k
    using bm.check_use_run [of i n k b m] assms that
    by (simp add: use_run_def bitmap_check_page_bit)
  with assms show ?thesis by (auto simp: used_set_def)
qed

lemma used_set_free_bits:
  assumes "bits b \<le> bit_cap" "i + n \<le> bits b"
  shows "used_set b (free_bits b i n m) = used_set b m - {i..<i + n}"
proof -
  have "page_bit (free_bits b i n m) (bm_map b) k \<longleftrightarrow> k \<notin> {i..<i + n} \<and> page_bit m (bm_map b) k"
    if "k < bits b" for k
    using bm.check_free_run [of i n k b m] assms that
    by (simp add: free_bits_def bitmap_check_page_bit)
  with assms show ?thesis by (auto simp: used_set_def)
qed

text \<open>The allocator's stores stay inside the storage of the bitmap.\<close>

definition storage :: "pmm_bitmap_t \<Rightarrow> u64 set" where
  "storage b = {a. in_region a (bm_map b) (8 * unat (bm_size b))}"

lemma fold_frame:
  "(\<And>k m. k \<in> set ks \<Longrightarrow> f k m x = m x) \<Longrightarrow> fold f ks m x = m (x :: u64)" for m :: mem
  by (induction ks arbitrary: m) simp_all

lemma use_run_frame:
  assumes "bits b \<le> bit_cap" "i + n \<le> bits b" "x \<notin> storage b"
  shows "use_run b i n m x = m x" "free_bits b i n m x = m x"
proof -
  have "8 * unat (bm_size b) \<le> 18446744073709551616" using assms(1) by (simp add: bits_def bit_cap_def)
  with assms show "use_run b i n m x = m x" "free_bits b i n m x = m x"
    unfolding use_run_def free_bits_def storage_def
    by (auto intro!: fold_frame bitmap_use_outside bitmap_free_outside simp: bits_def)
qed

lemma used_set_cong:
  assumes "\<And>x. x \<in> storage b \<Longrightarrow> m x = m' x" "bits b \<le> bit_cap"
  shows "used_set b m = used_set b m'"
proof -
  have "page_bit m (bm_map b) k = page_bit m' (bm_map b) k" if "k < bits b" for k
  proof -
    have "k div 8 < 8 * unat (bm_size b)" using that by (simp add: bits_def less_mult_imp_div_less)
    moreover have "k div 8 < 18446744073709551616"
      using that assms(2) by (simp add: bit_cap_def less_mult_imp_div_less)
    ultimately have "bm_map b + of_nat (k div 8) \<in> storage b" by (simp add: storage_def in_region_def)
    then show ?thesis by (simp add: page_bit_def assms(1))
  qed
  then show ?thesis by (auto simp: used_set_def)
qed

section \<open>Pointers and page numbers\<close>

text \<open>The page number kfree computes from a pointer.\<close>

definition page_index :: "pmm \<Rightarrow> u64 \<Rightarrow> nat" where
  "page_index s p = unat (PAGE_TO_BIT (p - g_hhdm_offset s - lowest_address (pmm_bitmap s)))"

definition run_of :: "pmm \<Rightarrow> u64 \<times> u64 \<Rightarrow> nat set" where
  "run_of s = (\<lambda>(p, n). {page_index s p..<page_index s p + unat n})"

text \<open>All pages the bitmap covers have addresses in the direct map, below its end.\<close>

definition pages_fit :: "pmm \<Rightarrow> bool" where
  "pages_fit s \<longleftrightarrow> unat (g_hhdm_offset s) + unat (lowest_address (pmm_bitmap s)) + 4096 * bits (pmm_bitmap s)
     \<le> 18446744073709551616"

lemma page_index_ptr: "i < bit_cap \<Longrightarrow> page_index s (page_ptr s i) = i"
proof -
  assume i: "i < bit_cap"
  have "page_ptr s i - g_hhdm_offset s - lowest_address (pmm_bitmap s) = BIT_TO_PAGE (of_nat i)"
    by (simp add: page_ptr_def)
  then show ?thesis using i by (simp add: page_index_def BIT_TO_PAGE_bit) (simp add: bit_cap_def)
qed

lemma unat_page_ptr:
  assumes "pages_fit s" "bits (pmm_bitmap s) \<le> bit_cap" "i < bits (pmm_bitmap s)"
  shows "unat (page_ptr s i) = unat (g_hhdm_offset s) + unat (lowest_address (pmm_bitmap s)) + 4096 * i"
proof -
  let ?l = "lowest_address (pmm_bitmap s)" and ?h = "g_hhdm_offset s" and ?o = "BIT_TO_PAGE (of_nat i)"
  have o: "unat ?o = 4096 * i" using assms by (simp add: BIT_TO_PAGE_bit)
  have "unat (?l + ?o) = unat ?l + unat ?o"
    using assms o by (subst unat_add_lem [symmetric]) (simp add: pages_fit_def)
  moreover have "unat (?l + ?o + ?h) = unat (?l + ?o) + unat ?h"
    using assms o calculation by (subst unat_add_lem [symmetric]) (simp add: pages_fit_def)
  ultimately show ?thesis by (simp add: page_ptr_def o)
qed

lemma page_ptr_nonzero:
  assumes "pages_fit s" "bits (pmm_bitmap s) \<le> bit_cap" "i < bits (pmm_bitmap s)" "0 < i"
  shows "page_ptr s i \<noteq> 0"
  using unat_page_ptr [OF assms(1-3)] assms(4) by (metis add_is_0 mult_is_0 not_gr_zero unat_0 zero_neq_numeral)

lemma kfree_ptr:
  assumes "i + unat n \<le> bit_cap" "i < bit_cap"
  shows "kfree (page_ptr s i) n s =
    s\<lparr>console := console s @ [ULOG_DEBUG ''Freeing %d pages starting at index %d'' [Word n, Word (of_nat i)]],
      mem := free_bits (pmm_bitmap s) i (unat n) (mem s),
      pmm_bitmap := (pmm_bitmap s)\<lparr>used_pages := used_pages (pmm_bitmap s) - n\<rparr>\<rparr>"
proof -
  have idx: "PAGE_TO_BIT (page_ptr s i - g_hhdm_offset s - lowest_address (pmm_bitmap s)) = of_nat i"
    using assms(2) by (simp add: page_ptr_def BIT_TO_PAGE_bit)
  have "unat (of_nat i :: u64) = i" using assms(2) by (simp add: bit_cap_def)
  with assms idx show ?thesis
    using free_loop_fold [of "of_nat i" "unat n" 0 "pmm_bitmap s" "mem s"]
    by (simp add: kfree_def Let_def free_bits_def)
qed

section \<open>Clients of the allocator\<close>

text \<open>
  A configuration is the allocator's state and the list of live allocations, each with the
  pointer kalloc returned and the page count that was asked for.  A client may allocate, free
  a live allocation with its own count, or store a byte into pages it holds.
\<close>

type_synonym heap = "pmm \<times> (u64 \<times> u64) list"

inductive heap_step :: "heap \<Rightarrow> heap \<Rightarrow> bool" where
  alloc: "kalloc n s = (p, s') \<Longrightarrow> p \<noteq> 0 \<Longrightarrow> heap_step (s, L) (s', (p, n) # L)"
| alloc_fails: "kalloc n s = (0, s') \<Longrightarrow> heap_step (s, L) (s', L)"
| free: "(p, n) \<in> set L \<Longrightarrow> heap_step (s, L) (kfree p n s, remove1 (p, n) L)"
| store_byte: "(p, n) \<in> set L \<Longrightarrow> in_region a p (4096 * unat n) \<Longrightarrow>
    heap_step (s, L) (s\<lparr>mem := (mem s)(a := v)\<rparr>, L)"

inductive heap_reach :: "pmm \<Rightarrow> heap \<Rightarrow> bool" for s0 where
  start: "heap_reach s0 (s0, [])"
| step: "heap_reach s0 h \<Longrightarrow> heap_step h h' \<Longrightarrow> heap_reach s0 h'"

inductive_cases heap_stepE: "heap_step (s, L) h'"

text \<open>The pages that overlap the storage of the bitmap.\<close>

definition page_bytes :: "pmm \<Rightarrow> nat \<Rightarrow> u64 set" where
  "page_bytes s k = {a. in_region a (page_ptr s k) 4096}"

definition storage_pages :: "pmm \<Rightarrow> nat set" where
  "storage_pages s = {k. k < bits (pmm_bitmap s) \<and> page_bytes s k \<inter> storage (pmm_bitmap s) \<noteq> {}}"

fun disjoint_runs :: "pmm \<Rightarrow> (u64 \<times> u64) list \<Rightarrow> bool" where
  "disjoint_runs s [] = True"
| "disjoint_runs s (x # L) = ((\<forall>y\<in>set L. run_of s x \<inter> run_of s y = {}) \<and> disjoint_runs s L)"

text \<open>
  The start: the bitmap is sound with the guard bit g, the pages are addressable, and the
  pages of the bitmap's own storage are used.
\<close>

definition heap_ready :: "nat \<Rightarrow> pmm \<Rightarrow> bool" where
  "heap_ready g s \<longleftrightarrow> bits (pmm_bitmap s) \<le> bit_cap \<and> sentinel (pmm_bitmap s) (mem s) g \<and> pages_fit s
     \<and> storage_pages s \<subseteq> used_set (pmm_bitmap s) (mem s)"

definition live_ok :: "nat \<Rightarrow> pmm \<Rightarrow> u64 \<times> u64 \<Rightarrow> bool" where
  "live_ok g s x \<longleftrightarrow> (case x of (p, n) \<Rightarrow>
     p = page_ptr s (page_index s p) \<and> 0 < unat n \<and> run_of s x \<subseteq> used_set (pmm_bitmap s) (mem s)
     \<and> g \<notin> run_of s x \<and> run_of s x \<inter> storage_pages s = {})"

definition heap_inv :: "nat \<Rightarrow> u64 \<Rightarrow> heap \<Rightarrow> bool" where
  "heap_inv g u0 h \<longleftrightarrow> (case h of (s, L) \<Rightarrow>
     heap_ready g s \<and> disjoint_runs s L \<and> (\<forall>x\<in>set L. live_ok g s x)
     \<and> used_pages (pmm_bitmap s) = u0 + sum_list (map snd L))"

text \<open>Moves that leave the geometry alone: \<open>same_layout\<close> carries pointers and storage over.\<close>

definition same_layout :: "pmm \<Rightarrow> pmm \<Rightarrow> bool" where
  "same_layout s s' \<longleftrightarrow> g_hhdm_offset s' = g_hhdm_offset s
     \<and> (\<exists>x. pmm_bitmap s' = (pmm_bitmap s)\<lparr>used_pages := x\<rparr>)"

lemma same_layout_simps:
  assumes "same_layout s s'"
  shows "page_ptr s' = page_ptr s" "page_index s' = page_index s" "run_of s' = run_of s"
    "bits (pmm_bitmap s') = bits (pmm_bitmap s)" "storage (pmm_bitmap s') = storage (pmm_bitmap s)"
    "pages_fit s' = pages_fit s" "used_set (pmm_bitmap s') = used_set (pmm_bitmap s)"
    "storage_pages s' = storage_pages s" "sentinel (pmm_bitmap s') = sentinel (pmm_bitmap s)"
    "disjoint_runs s' = disjoint_runs s"
proof -
  from assms obtain x where x: "g_hhdm_offset s' = g_hhdm_offset s" "pmm_bitmap s' = (pmm_bitmap s)\<lparr>used_pages := x\<rparr>"
    by (auto simp: same_layout_def)
  show pp: "page_ptr s' = page_ptr s" by (simp add: fun_eq_iff page_ptr_def x)
  show "page_index s' = page_index s" by (simp add: fun_eq_iff page_index_def x)
  then show ro: "run_of s' = run_of s" by (simp add: fun_eq_iff run_of_def)
  show "bits (pmm_bitmap s') = bits (pmm_bitmap s)" by (simp add: x)
  show "storage (pmm_bitmap s') = storage (pmm_bitmap s)" by (simp add: x storage_def)
  then show "storage_pages s' = storage_pages s" by (simp add: x storage_pages_def page_bytes_def pp)
  show "pages_fit s' = pages_fit s" by (simp add: pages_fit_def x)
  show "used_set (pmm_bitmap s') = used_set (pmm_bitmap s)" by (simp add: fun_eq_iff x)
  show "sentinel (pmm_bitmap s') = sentinel (pmm_bitmap s)" by (simp add: fun_eq_iff x)
  show "disjoint_runs s' = disjoint_runs s"
  proof
    fix L show "disjoint_runs s' L = disjoint_runs s L" by (induction L) (simp_all add: ro)
  qed
qed

lemma disjoint_runs_remove1: "disjoint_runs s L \<Longrightarrow> disjoint_runs s (remove1 x L)"
  by (induction L) (auto dest: subsetD [OF set_remove1_subset])

lemma disjoint_runs_others:
  "disjoint_runs s L \<Longrightarrow> x \<in> set L \<Longrightarrow> y \<in> set (remove1 x L) \<Longrightarrow> run_of s x \<inter> run_of s y = {}"
  by (induction L) (auto split: if_splits)

text \<open>The effect of the two operations on the set of used pages, for live allocations.\<close>

lemma kalloc_live:
  assumes rdy: "heap_ready g s" and al: "kalloc n s = (p, s')" and p: "p \<noteq> 0"
  shows "same_layout s s'" "p = page_ptr s (page_index s p)" "0 < unat n" "g \<notin> run_of s (p, n)"
    and "run_of s (p, n) \<inter> used_set (pmm_bitmap s) (mem s) = {}"
    and "used_set (pmm_bitmap s') (mem s') = used_set (pmm_bitmap s) (mem s) \<union> run_of s (p, n)"
    and "used_pages (pmm_bitmap s') = used_pages (pmm_bitmap s) + n"
proof -
  let ?b = "pmm_bitmap s"
  from rdy have cap: "bits ?b \<le> bit_cap" and sen: "sentinel ?b (mem s) g" by (auto simp: heap_ready_def)
  then have "bitmap_sound ?b (mem s)" by (auto simp: bitmap_sound_def)
  from al p obtain i where ff: "first_fit ?b (mem s) (unat n) = Some i"
    and s': "s' = s\<lparr>mem := use_run ?b i (unat n) (mem s), pmm_bitmap := ?b\<lparr>used_pages := used_pages ?b + n\<rparr>\<rparr>"
    and pi: "p = page_ptr s i"
    unfolding kalloc_first_fit [OF \<open>bitmap_sound ?b (mem s)\<close>]
    by (auto simp: Let_def split: if_splits option.splits)
  show "same_layout s s'" "used_pages (pmm_bitmap s') = used_pages ?b + n" by (auto simp: same_layout_def s')
  from first_fit_run [OF ff] have fr: "free_run ?b (mem s) i (unat n)" by simp
  then show n0: "0 < unat n" by (simp add: free_run_def)
  have le: "i + unat n \<le> g" by (rule first_fit_below_sentinel [OF ff sen])
  with sen have ib: "i + unat n \<le> bits ?b" by (simp add: sentinel_def)
  with n0 cap have icap: "i < bit_cap" by simp
  have run: "run_of s (p, n) = {i..<i + unat n}" by (simp add: run_of_def pi page_index_ptr icap)
  show "p = page_ptr s (page_index s p)" by (simp add: pi page_index_ptr icap)
  show "g \<notin> run_of s (p, n)" unfolding run using le by simp
  show "used_set (pmm_bitmap s') (mem s') = used_set ?b (mem s) \<union> run_of s (p, n)"
    unfolding run by (simp add: s' used_set_use_run cap ib)
  show "run_of s (p, n) \<inter> used_set ?b (mem s) = {}"
    unfolding run using fr by (auto simp: free_run_def used_set_def)
qed

lemma kfree_live:
  assumes rdy: "heap_ready g s" and lx: "live_ok g s (p, n)"
  shows "same_layout s (kfree p n s)"
    and "used_set (pmm_bitmap (kfree p n s)) (mem (kfree p n s)) = used_set (pmm_bitmap s) (mem s) - run_of s (p, n)"
    and "used_pages (pmm_bitmap (kfree p n s)) = used_pages (pmm_bitmap s) - n"
proof -
  let ?b = "pmm_bitmap s" and ?i = "page_index s p" and ?s' = "kfree p n s"
  from lx have pi: "p = page_ptr s ?i" and n0: "0 < unat n" and sub: "run_of s (p, n) \<subseteq> used_set ?b (mem s)"
    and run: "run_of s (p, n) = {?i..<?i + unat n}"
    by (auto simp: live_ok_def run_of_def)
  from rdy have cap: "bits ?b \<le> bit_cap" by (simp add: heap_ready_def)
  have "?i + unat n - 1 \<in> run_of s (p, n)" using n0 unfolding run by auto
  with sub have "?i + unat n - 1 < bits ?b" by (auto simp: used_set_def)
  then have ib: "?i + unat n \<le> bits ?b" by simp
  have s': "?s' = s\<lparr>console := console s @ [ULOG_DEBUG ''Freeing %d pages starting at index %d'' [Word n, Word (of_nat ?i)]],
      mem := free_bits ?b ?i (unat n) (mem s), pmm_bitmap := ?b\<lparr>used_pages := used_pages ?b - n\<rparr>\<rparr>"
    using kfree_ptr [of ?i n s] ib cap n0 pi by simp
  show "same_layout s ?s'" "used_pages (pmm_bitmap ?s') = used_pages ?b - n" by (auto simp: same_layout_def s')
  show "used_set (pmm_bitmap ?s') (mem ?s') = used_set ?b (mem s) - run_of s (p, n)"
    unfolding run by (simp add: s' used_set_free_bits cap ib)
qed

lemma heap_inv_alloc:
  assumes inv: "heap_inv g u0 (s, L)" and al: "kalloc n s = (p, s')" and p: "p \<noteq> 0"
  shows "heap_inv g u0 (s', (p, n) # L)"
proof -
  from inv have rdy: "heap_ready g s" and dj: "disjoint_runs s L" and lv: "\<forall>x\<in>set L. live_ok g s x"
    and cnt: "used_pages (pmm_bitmap s) = u0 + sum_list (map snd L)" by (auto simp: heap_inv_def)
  note k = kalloc_live [OF rdy al p] and lay = same_layout_simps [OF kalloc_live(1) [OF rdy al p]]
  have "heap_ready g s'"
    using rdy k(6) by (auto simp: heap_ready_def lay sentinel_used_set)
  moreover have "live_ok g s' (p, n)"
    using rdy k(2-6) by (auto simp: live_ok_def lay heap_ready_def)
  moreover have "\<forall>x\<in>set L. live_ok g s' x"
    using lv k(6) by (fastforce simp: live_ok_def lay)
  moreover have "disjoint_runs s' ((p, n) # L)"
    using dj lv k(5) by (fastforce simp: lay live_ok_def)
  moreover have "used_pages (pmm_bitmap s') = u0 + sum_list (map snd ((p, n) # L))"
    by (simp add: k(7) cnt)
  ultimately show ?thesis by (simp add: heap_inv_def)
qed

lemma heap_inv_free:
  assumes inv: "heap_inv g u0 (s, L)" and x: "(p, n) \<in> set L"
  shows "heap_inv g u0 (kfree p n s, remove1 (p, n) L)"
proof -
  let ?s' = "kfree p n s"
  from inv have rdy: "heap_ready g s" and dj: "disjoint_runs s L" and lv: "\<forall>x\<in>set L. live_ok g s x"
    and cnt: "used_pages (pmm_bitmap s) = u0 + sum_list (map snd L)" by (auto simp: heap_inv_def)
  from lv x have lx: "live_ok g s (p, n)" by blast
  note k = kfree_live [OF rdy lx] and lay = same_layout_simps [OF kfree_live(1) [OF rdy lx]]
  have "heap_ready g ?s'"
    using rdy lx k(2) by (auto simp: heap_ready_def lay sentinel_used_set live_ok_def)
  moreover have "live_ok g ?s' y" if y: "y \<in> set (remove1 (p, n) L)" for y
  proof -
    from y have "live_ok g s y" using lv by (auto dest: subsetD [OF set_remove1_subset])
    with disjoint_runs_others [OF dj x y] k(2) show ?thesis
      by (cases y) (auto simp: live_ok_def lay)
  qed
  moreover have "disjoint_runs ?s' (remove1 (p, n) L)" using dj by (simp add: lay disjoint_runs_remove1)
  moreover have "sum_list (map snd L) = n + sum_list (map snd (remove1 (p, n) L))"
    using sum_list_map_remove1 [OF x, of snd] by simp
  then have "used_pages (pmm_bitmap ?s') = u0 + sum_list (map snd (remove1 (p, n) L))"
    by (simp add: k(3) cnt)
  ultimately show ?thesis by (simp add: heap_inv_def)
qed

text \<open>A byte inside a live allocation lies outside the bitmap, so storing to it is harmless.\<close>

lemma live_byte_outside:
  assumes rdy: "heap_ready g s" and lx: "live_ok g s (p, n)" and a: "in_region a p (4096 * unat n)"
  shows "a \<notin> storage (pmm_bitmap s)"
proof
  let ?b = "pmm_bitmap s" and ?i = "page_index s p" and ?j = "unat (a - p) div 4096"
  assume st: "a \<in> storage ?b"
  from lx have pi: "p = page_ptr s ?i" and sub: "run_of s (p, n) \<subseteq> used_set ?b (mem s)"
    and no: "run_of s (p, n) \<inter> storage_pages s = {}" and run: "run_of s (p, n) = {?i..<?i + unat n}"
    by (auto simp: live_ok_def run_of_def)
  have j: "?j < unat n" using a by (simp add: in_region_def less_mult_imp_div_less mult.commute)
  then have mem_run: "?i + ?j \<in> run_of s (p, n)" unfolding run by simp
  with sub have bits: "?i + ?j < bits ?b" by (auto simp: used_set_def)
  have cap: "bits ?b \<le> bit_cap" and fit: "pages_fit s" using rdy by (simp_all add: heap_ready_def)
  have "of_nat (?i + ?j) = of_nat ?i + (of_nat ?j :: u64)" by simp
  then have "page_ptr s (?i + ?j) = p + of_nat ?j * 4096"
    by (subst pi) (simp add: page_ptr_def BIT_TO_PAGE_def algebra_simps)
  then have "a - page_ptr s (?i + ?j) = (a - p) - of_nat ?j * 4096" by simp
  also have "\<dots> = of_nat (unat (a - p)) - of_nat (?j * 4096)" by simp
  also have "\<dots> = of_nat (unat (a - p) - ?j * 4096)" by (rule of_nat_diff [symmetric]) simp
  finally have "unat (a - page_ptr s (?i + ?j)) = unat (a - p) mod 4096"
    by (simp add: minus_div_mult_eq_mod less_trans [OF mod_less_divisor])
  then have "a \<in> page_bytes s (?i + ?j)" by (simp add: page_bytes_def in_region_def)
  with st bits have "?i + ?j \<in> storage_pages s" by (auto simp: storage_pages_def)
  with mem_run no show False by blast
qed

lemma store_live:
  fixes v :: u8
  assumes rdy: "heap_ready g s" and lx: "live_ok g s (p, n)" and a: "in_region a p (4096 * unat n)"
  defines "s' \<equiv> s\<lparr>mem := (mem s)(a := v)\<rparr>"
  shows "same_layout s s'" "pmm_bitmap s' = pmm_bitmap s"
    and "used_set (pmm_bitmap s) (mem s') = used_set (pmm_bitmap s) (mem s)"
proof -
  show "same_layout s s'" "pmm_bitmap s' = pmm_bitmap s"
    by (auto simp: same_layout_def s'_def intro: exI [of _ "used_pages (pmm_bitmap s)"])
  have "bits (pmm_bitmap s) \<le> bit_cap" using rdy by (simp add: heap_ready_def)
  then show "used_set (pmm_bitmap s) (mem s') = used_set (pmm_bitmap s) (mem s)"
    using live_byte_outside [OF rdy lx a] by (intro used_set_cong) (auto simp: s'_def)
qed

lemma heap_inv_store:
  assumes inv: "heap_inv g u0 (s, L)" and x: "(p, n) \<in> set L" and a: "in_region a p (4096 * unat n)"
  shows "heap_inv g u0 (s\<lparr>mem := (mem s)(a := v)\<rparr>, L)"
proof -
  from inv x have rdy: "heap_ready g s" and lx: "live_ok g s (p, n)" by (auto simp: heap_inv_def)
  note k = store_live [OF rdy lx a, where v = v] and lay = same_layout_simps [OF store_live(1) [OF rdy lx a, where v = v]]
  show ?thesis using inv k(3)
    by (simp add: heap_inv_def heap_ready_def live_ok_def lay sentinel_used_set)
qed

lemma kalloc_null:
  assumes "bitmap_sound (pmm_bitmap s) (mem s)" "pages_fit s" "kalloc n s = (0, s')"
  shows "mem s' = mem s \<and> pmm_bitmap s' = pmm_bitmap s \<and> g_hhdm_offset s' = g_hhdm_offset s"
proof -
  have cap: "bits (pmm_bitmap s) \<le> bit_cap" using assms(1) by (simp add: bitmap_sound_def)
  have "page_ptr s i \<noteq> 0" if "first_fit (pmm_bitmap s) (mem s) (unat n) = Some i" "i \<noteq> 0" for i
  proof -
    from assms(1) obtain g where "sentinel (pmm_bitmap s) (mem s) g" by (auto simp: bitmap_sound_def)
    with first_fit_run [OF that(1)] have "i < bits (pmm_bitmap s)" by (auto simp: sentinel_def)
    then show ?thesis using that(2) by (intro page_ptr_nonzero assms(2) cap) simp_all
  qed
  with assms(3) show ?thesis
    unfolding kalloc_first_fit [OF assms(1)]
    by (auto simp: Let_def split: if_splits option.splits)
qed

lemma heap_inv_step: "heap_step h h' \<Longrightarrow> heap_inv g u0 h \<Longrightarrow> heap_inv g u0 h'"
proof (induction rule: heap_step.induct)
  case (alloc_fails n s s' L)
  then have rdy: "heap_ready g s" by (simp add: heap_inv_def)
  then have "bitmap_sound (pmm_bitmap s) (mem s)" "pages_fit s" by (auto simp: heap_ready_def bitmap_sound_def)
  from kalloc_null [OF this alloc_fails.hyps] have eq: "mem s' = mem s" "pmm_bitmap s' = pmm_bitmap s"
    "g_hhdm_offset s' = g_hhdm_offset s" by auto
  have "same_layout s s'" by (auto simp: same_layout_def eq intro: exI [of _ "used_pages (pmm_bitmap s)"])
  then show ?case using alloc_fails.prems
    by (simp add: heap_inv_def heap_ready_def live_ok_def same_layout_simps(1,2,3,6,8,10) eq)
qed (auto intro: heap_inv_alloc heap_inv_free heap_inv_store)

lemma heap_reach_inv:
  "heap_reach s0 h \<Longrightarrow> heap_ready g s0 \<Longrightarrow> heap_inv g (used_pages (pmm_bitmap s0)) h"
proof (induction rule: heap_reach.induct)
  case start
  then show ?case by (simp add: heap_inv_def)
next
  case (step h h')
  then show ?case by (blast intro: heap_inv_step)
qed

section \<open>Properties\<close>

text \<open>
  A small heap for the witnesses: 64 pages from address 0 on, mapped at 0x1000000, of which
  page 0 and the pages from 8 on are used; the bitmap lies at 0x10.
\<close>

definition demo_heap :: pmm where
  "demo_heap = \<lparr>mem = (\<lambda>a. if a = 0x10 then 1 else 255),
     pmm_bitmap = \<lparr>bm_map = 0x10, bm_size = 1, total_pages = 8, used_pages = 1,
       highest_address = 0x8000, lowest_address = 0\<rparr>,
     g_hhdm_offset = 0x1000000, console = []\<rparr>"

lemma demo_layout: "bits (pmm_bitmap demo_heap) = 64" "bits (pmm_bitmap demo_heap) \<le> bit_cap"
  "pages_fit demo_heap" "sentinel (pmm_bitmap demo_heap) (mem demo_heap) 8"
  by (simp_all add: demo_heap_def bits_def bit_cap_def pages_fit_def sentinel_def page_bit_def)

lemma demo_sound: "bitmap_sound (pmm_bitmap demo_heap) (mem demo_heap)"
  using demo_layout by (auto simp: bitmap_sound_def)

lemma demo_storage: "storage_pages demo_heap = {}"
proof -
  have "page_bytes demo_heap k \<inter> storage (pmm_bitmap demo_heap) = {}" if k: "k < 64" for k
  proof (rule ccontr)
    assume "\<not> ?thesis"
    then obtain a where a: "in_region a (page_ptr demo_heap k) 4096" "in_region a 0x10 8"
      by (auto simp: page_bytes_def storage_def demo_heap_def)
    have p: "unat (page_ptr demo_heap k) = 0x1000000 + 4096 * k"
      using unat_page_ptr [of demo_heap k] demo_layout k by (simp add: demo_heap_def)
    from a(1) obtain i where i: "i < 4096" "a = page_ptr demo_heap k + of_nat i" by (auto simp: in_region_iff)
    have "unat a = unat (page_ptr demo_heap k) + i"
      unfolding i(2) using p k i(1) by (intro no_wrap_unat [of _ 4096]) (simp_all add: no_wrap_def)
    moreover from a(2) obtain j where j: "j < 8" "a = 0x10 + of_nat j" by (auto simp: in_region_iff)
    have "unat a = unat (0x10 :: u64) + j"
      unfolding j(2) using j(1) by (intro no_wrap_unat [of _ 8]) (simp_all add: no_wrap_def)
    ultimately show False using p j(1) by simp
  qed
  then show ?thesis by (simp add: storage_pages_def demo_layout)
qed

lemma demo_ready: "heap_ready 8 demo_heap"
  using demo_layout by (simp add: heap_ready_def demo_storage)

lemma demo_kalloc: "fst (kalloc 2 demo_heap) = 0x1001000" "fst (kalloc 9 demo_heap) = 0"
  "fst (kalloc 1 demo_heap) = 0x1001000"
  by code_simp+

text \<open>
  C5. What kalloc promises, for a bitmap whose end is guarded by a used bit: NULL exactly when
  the counters say the memory is exhausted, or no run of n free pages starts below total_pages,
  or the first such run starts at page 0, and then nothing changes but the log; otherwise a
  pointer to the first such run (first fit), which becomes used and was free, with no other page
  and no byte outside the bitmap changed and n added to the count of used pages.
\<close>

theorem kalloc_contract:
  assumes sound: "bitmap_sound (pmm_bitmap s) (mem s)" and fit: "pages_fit s"
    and al: "kalloc n s = (p, s')"
  shows "(p = 0 \<longleftrightarrow> used_pages (pmm_bitmap s) \<ge> total_pages (pmm_bitmap s)
      \<or> (\<forall>i<unat (total_pages (pmm_bitmap s)). \<not> free_run (pmm_bitmap s) (mem s) i (unat n))
      \<or> (0 < unat (total_pages (pmm_bitmap s)) \<and> free_run (pmm_bitmap s) (mem s) 0 (unat n)))
    \<and> (p = 0 \<longrightarrow> s' = s\<lparr>console := console s'\<rparr>)
    \<and> (p \<noteq> 0 \<longrightarrow> same_layout s s' \<and> console s' = console s \<and>
      (\<exists>i. p = page_ptr s i \<and> 0 < i \<and> i < unat (total_pages (pmm_bitmap s))
      \<and> free_run (pmm_bitmap s) (mem s) i (unat n)
      \<and> (\<forall>j<i. \<not> free_run (pmm_bitmap s) (mem s) j (unat n))
      \<and> used_set (pmm_bitmap s') (mem s') = used_set (pmm_bitmap s) (mem s) \<union> {i..<i + unat n}
      \<and> used_pages (pmm_bitmap s') = used_pages (pmm_bitmap s) + n
      \<and> (\<forall>x. x \<notin> storage (pmm_bitmap s) \<longrightarrow> mem s' x = mem s x)))"
proof -
  let ?b = "pmm_bitmap s" and ?m = "mem s" and ?n = "unat n"
  have cap: "bits ?b \<le> bit_cap" using sound by (simp add: bitmap_sound_def)
  from sound obtain g where g: "sentinel ?b ?m g" by (auto simp: bitmap_sound_def)
  show ?thesis
  proof (cases "first_fit ?b ?m ?n")
    case None
    then have none: "\<forall>i<unat (total_pages ?b). \<not> free_run ?b ?m i ?n"
      by (auto simp: first_fit_def find_None_iff)
    moreover from al None have "p = 0" "s' = s\<lparr>console := console s'\<rparr>"
      by (auto simp: kalloc_first_fit [OF sound] Let_def split: if_splits)
    ultimately show ?thesis by simp
  next
    case (Some i)
    note run = first_fit_run [OF Some]
    have ib: "i + ?n \<le> bits ?b" using first_fit_below_sentinel [OF Some g] g by (simp add: sentinel_def)
    have ptr: "i \<noteq> 0 \<Longrightarrow> page_ptr s i \<noteq> 0"
      using run ib by (intro page_ptr_nonzero fit cap) (auto simp: free_run_def)
    have zero: "free_run ?b ?m 0 ?n \<longleftrightarrow> i = 0" using run by auto
    from al Some run ptr zero show ?thesis
      by (auto simp: kalloc_first_fit [OF sound] Let_def used_set_use_run [OF cap ib] use_run_frame [OF cap ib] same_layout_def
          split: if_splits)
  qed
qed

theorem kalloc_contract_witness:
  "\<exists>i. fst (kalloc 2 demo_heap) = page_ptr demo_heap i \<and> 0 < i \<and> i < 8
     \<and> used_set (pmm_bitmap (snd (kalloc 2 demo_heap))) (mem (snd (kalloc 2 demo_heap)))
       = used_set (pmm_bitmap demo_heap) (mem demo_heap) \<union> {i..<i + 2}"
proof -
  have "kalloc 2 demo_heap = (fst (kalloc 2 demo_heap), snd (kalloc 2 demo_heap))" by simp
  from kalloc_contract [OF demo_sound demo_layout(3) this] demo_kalloc(1)
  have "\<exists>i. fst (kalloc 2 demo_heap) = page_ptr demo_heap i \<and> 0 < i
      \<and> i < unat (total_pages (pmm_bitmap demo_heap))
      \<and> used_set (pmm_bitmap (snd (kalloc 2 demo_heap))) (mem (snd (kalloc 2 demo_heap)))
        = used_set (pmm_bitmap demo_heap) (mem demo_heap) \<union> {i..<i + unat (2::u64)}"
    by auto
  then show ?thesis by (simp add: demo_heap_def)
qed

text \<open>
  C2. A heap is safe for its clients.  From a start where the pages of the bitmap's own storage
  are used, a used bit guards the end of the bitmap and the pages are addressable, after any sequence of allocations, releases of live allocations and stores into
  live pages, the live allocations are pairwise disjoint runs of used pages, none of which
  overlaps the storage of the bitmap, and the counter of used pages has grown by exactly the
  number of pages that are live.
\<close>

theorem heap_safety:
  assumes "heap_ready g s0" "heap_reach s0 (s, L)"
  shows "disjoint_runs s L
    \<and> (\<forall>x\<in>set L. run_of s x \<subseteq> used_set (pmm_bitmap s) (mem s) \<and> run_of s x \<inter> storage_pages s = {})
    \<and> used_pages (pmm_bitmap s) = used_pages (pmm_bitmap s0) + sum_list (map snd L)"
proof -
  have "heap_inv g (used_pages (pmm_bitmap s0)) (s, L)"
    by (rule heap_reach_inv [OF assms(2,1)])
  then show ?thesis by (auto simp: heap_inv_def live_ok_def)
qed

lemma demo_reach: "heap_reach demo_heap (snd (kalloc 2 demo_heap), [(0x1001000, 2)])"
proof -
  have "kalloc 2 demo_heap = (0x1001000, snd (kalloc 2 demo_heap))"
    using demo_kalloc(1) by (metis prod.collapse)
  then show ?thesis
    by (intro heap_reach.step [OF heap_reach.start] heap_step.alloc) simp_all
qed

theorem heap_safety_witness:
  "used_pages (pmm_bitmap (snd (kalloc 2 demo_heap))) = 3
    \<and> {1, 2} \<subseteq> used_set (pmm_bitmap (snd (kalloc 2 demo_heap))) (mem (snd (kalloc 2 demo_heap)))"
proof -
  let ?s = "snd (kalloc 2 demo_heap)"
  have "g_hhdm_offset ?s = 0x1000000" "lowest_address (pmm_bitmap ?s) = 0" by code_simp+
  then have "run_of ?s (0x1001000, 2) = {1, 2}"
    by (auto simp: run_of_def page_index_def PAGE_TO_BIT_def)
  with heap_safety [OF demo_ready demo_reach] show ?thesis by (simp add: demo_heap_def)
qed

text \<open>
  C17. kfree undoes kalloc: releasing an allocation with the count it was made with restores
  the set of used pages and the counter.
\<close>

theorem kalloc_kfree_roundtrip:
  assumes sound: "bitmap_sound (pmm_bitmap s) (mem s)"
    and al: "kalloc n s = (p, s')" and p: "p \<noteq> 0"
  shows "used_set (pmm_bitmap (kfree p n s')) (mem (kfree p n s')) = used_set (pmm_bitmap s) (mem s)
    \<and> used_pages (pmm_bitmap (kfree p n s')) = used_pages (pmm_bitmap s)"
proof -
  let ?b = "pmm_bitmap s"
  have cap: "bits ?b \<le> bit_cap" using sound by (simp add: bitmap_sound_def)
  from al p obtain i where ff: "first_fit ?b (mem s) (unat n) = Some i"
    and s': "s' = s\<lparr>mem := use_run ?b i (unat n) (mem s), pmm_bitmap := ?b\<lparr>used_pages := used_pages ?b + n\<rparr>\<rparr>"
    and pi: "p = page_ptr s i"
    by (auto simp: kalloc_first_fit [OF sound] Let_def split: if_splits option.splits)
  from sound obtain g where g: "sentinel ?b (mem s) g" by (auto simp: bitmap_sound_def)
  have ib: "i + unat n \<le> bits ?b" using first_fit_below_sentinel [OF ff g] g by (simp add: sentinel_def)
  have fr: "free_run ?b (mem s) i (unat n)" using first_fit_run [OF ff] by simp
  have pi': "p = page_ptr s' i" by (simp add: pi s' page_ptr_def)
  have "i + unat n \<le> bit_cap" "i < bit_cap" using ib cap fr by (auto simp: free_run_def)
  note kf = kfree_ptr [OF this, of s', folded pi']
  have "used_set ?b (free_bits ?b i (unat n) (use_run ?b i (unat n) (mem s)))
      = used_set ?b (mem s) \<union> {i..<i + unat n} - {i..<i + unat n}"
    by (simp add: used_set_free_bits used_set_use_run cap ib)
  also have "\<dots> = used_set ?b (mem s)" using fr by (auto simp: free_run_def used_set_def)
  moreover have "free_bits (?b\<lparr>used_pages := x\<rparr>) = free_bits ?b" for x
    by (simp add: fun_eq_iff free_bits_def bitmap_free_def [abs_def])
  ultimately show ?thesis unfolding kf by (simp add: s')
qed

theorem kalloc_kfree_roundtrip_witness:
  "used_pages (pmm_bitmap (kfree 0x1001000 2 (snd (kalloc 2 demo_heap)))) = 1"
proof -
  have "kalloc 2 demo_heap = (0x1001000, snd (kalloc 2 demo_heap))"
    using demo_kalloc(1) by (metis prod.collapse)
  from kalloc_kfree_roundtrip [OF demo_sound this] show ?thesis by (simp add: demo_heap_def)
qed

text \<open>
  kfree does not check: releasing the same run a second time changes no bit, but the
  counter loses the run's page count again, so that it no longer agrees with the bitmap.
\<close>

theorem kfree_twice:
  assumes "bits (pmm_bitmap s) \<le> bit_cap" "i + unat n \<le> bits (pmm_bitmap s)" "0 < unat n"
  defines "p \<equiv> page_ptr s i" and "s1 \<equiv> kfree (page_ptr s i) n s"
  shows "used_set (pmm_bitmap (kfree p n s1)) (mem (kfree p n s1)) = used_set (pmm_bitmap s1) (mem s1)
    \<and> used_pages (pmm_bitmap (kfree p n s1)) = used_pages (pmm_bitmap s1) - n"
proof -
  have i: "i + unat n \<le> bit_cap" "i < bit_cap" using assms by auto
  have lay: "same_layout s s1" by (auto simp: same_layout_def s1_def kfree_ptr [OF i])
  note sl = same_layout_simps [OF lay]
  have p: "p = page_ptr s1 i" by (simp add: p_def sl(1))
  let ?b1 = "pmm_bitmap s1"
  have "used_set ?b1 (free_bits ?b1 i (unat n) (mem s1)) = used_set ?b1 (mem s1) - {i..<i + unat n}"
    using assms sl by (intro used_set_free_bits) simp_all
  also have "\<dots> = used_set ?b1 (mem s1)"
  proof -
    have "used_set ?b1 (mem s1) = used_set (pmm_bitmap s) (mem s) - {i..<i + unat n}"
      using assms sl by (simp add: s1_def kfree_ptr [OF i] used_set_free_bits)
    then show ?thesis by blast
  qed
  finally show ?thesis by (simp add: p kfree_ptr [OF i])
qed

theorem kfree_twice_witness:
  "used_pages (pmm_bitmap (kfree (page_ptr demo_heap 3) 2 (kfree (page_ptr demo_heap 3) 2 demo_heap))) = - 3"
proof -
  have "3 + unat (2::u64) \<le> bits (pmm_bitmap demo_heap)" "0 < unat (2::u64)" by (simp_all add: demo_layout)
  from kfree_twice [OF demo_layout(2) this]
  show ?thesis by (simp add: kfree_ptr bit_cap_def demo_heap_def)
qed

end
