(* ===== verification/Pmm_Init.thy ===== *)
theory Pmm_Init
  imports Pmm_Heap
begin

text \<open>
  The start of the physical memory manager (pmm_initialize and print_memmap of
  kernel/arch/x86_64/mem/pmm.c): the memory map of the boot loader is scanned for the extent
  of usable memory, a place for the page bitmap is found and filled with "used", the map is
  printed, every usable page is released, and page 0 is reserved.

  The memory map is the list of the entries the boot loader's array of pointers leads to;
  its length is entry_count.  The loop that prints it counts in eight bits and is a partial
  function.
\<close>

record limine_memmap_entry =
  me_base :: u64
  me_length :: u64
  me_type :: u64

definition LIMINE_MEMMAP_USABLE :: u64 where [simp]: "LIMINE_MEMMAP_USABLE = 0"
definition LIMINE_MEMMAP_RESERVED :: u64 where [simp]: "LIMINE_MEMMAP_RESERVED = 1"
definition LIMINE_MEMMAP_ACPI_RECLAIMABLE :: u64 where [simp]: "LIMINE_MEMMAP_ACPI_RECLAIMABLE = 2"
definition LIMINE_MEMMAP_ACPI_NVS :: u64 where [simp]: "LIMINE_MEMMAP_ACPI_NVS = 3"
definition LIMINE_MEMMAP_BAD_MEMORY :: u64 where [simp]: "LIMINE_MEMMAP_BAD_MEMORY = 4"
definition LIMINE_MEMMAP_BOOTLOADER_RECLAIMABLE :: u64 where [simp]: "LIMINE_MEMMAP_BOOTLOADER_RECLAIMABLE = 5"
definition LIMINE_MEMMAP_EXECUTABLE_AND_MODULES :: u64 where [simp]: "LIMINE_MEMMAP_EXECUTABLE_AND_MODULES = 6"
definition LIMINE_MEMMAP_FRAMEBUFFER :: u64 where [simp]: "LIMINE_MEMMAP_FRAMEBUFFER = 7"

abbreviation usable :: "limine_memmap_entry \<Rightarrow> bool" where
  "usable e \<equiv> me_type e = LIMINE_MEMMAP_USABLE"

text \<open>The descriptor before initialisation.\<close>

definition pmm_bitmap_init :: pmm_bitmap_t where
  "pmm_bitmap_init = \<lparr>bm_map = 0, bm_size = 0, total_pages = 0, used_pages = 0,
     highest_address = 0, lowest_address = 0xffffffff\<rparr>"

section \<open>Counting the memory\<close>

definition scan_entry :: "limine_memmap_entry \<Rightarrow> pmm_bitmap_t \<Rightarrow> pmm_bitmap_t" where
  "scan_entry e b =
     (if usable e then
        let current_page_top = me_base e + me_length e;
            b1 = (if current_page_top > highest_address b then b\<lparr>highest_address := current_page_top\<rparr> else b);
            b2 = (if me_base e < lowest_address b1 then b1\<lparr>lowest_address := me_base e\<rparr> else b1)
        in b2
      else b)"

definition pmm_count :: "limine_memmap_entry list \<Rightarrow> pmm \<Rightarrow> pmm" where
  "pmm_count entries s =
     (let b = fold scan_entry entries (pmm_bitmap s);
          total = (highest_address b - lowest_address b) div PAGE_SIZE;
          b1 = b\<lparr>total_pages := total\<rparr>;
          b2 = b1\<lparr>bm_size := ALIGN_UP (total div BITS_PER_ROW) PAGE_SIZE\<rparr>
      in s\<lparr>pmm_bitmap := b2,
           console := console s @
             [ULOG_INFO ''Total usable memory: %d bytes, or %d pages available''
                [Word (highest_address b - lowest_address b), Word total],
              ULOG_INFO ''Highest usable address at memory 0x%08x, lowest at 0x%08x.''
                [Word (highest_address b), Word (lowest_address b)]]\<rparr>)"

section \<open>Placing the bitmap\<close>

text \<open>The entry that takes the bitmap loses its first \<open>size\<close> bytes; the loop stops there.\<close>

definition shrink :: "u64 \<Rightarrow> limine_memmap_entry \<Rightarrow> limine_memmap_entry" where
  "shrink sz entry = entry\<lparr>me_base := me_base entry + sz, me_length := me_length entry - sz\<rparr>"

definition place_at :: "limine_memmap_entry \<Rightarrow> pmm \<Rightarrow> pmm" where
  "place_at entry s =
     (let b = pmm_bitmap s; sz = bm_size b;
          map_ptr = me_base entry + g_hhdm_offset s;
          total = total_pages b - sz div PAGE_SIZE
      in s\<lparr>console := console s @
             [ULOG_DEBUG ''Current PMM Bitmap stored between 0x%.8lx and 0x%.8lx.''
                [Word (me_base entry), Word (me_base entry + sz - 1)]],
           mem := memset (mem s) map_ptr USED (sz * 8),
           pmm_bitmap := b\<lparr>bm_map := map_ptr, total_pages := total, used_pages := total\<rparr>\<rparr>)"

fun place_bitmap :: "limine_memmap_entry list \<Rightarrow> pmm \<Rightarrow> limine_memmap_entry list \<times> pmm" where
  "place_bitmap [] s = ([], s)"
| "place_bitmap (entry # entries) s =
     (if usable entry \<and> me_length entry \<ge> bm_size (pmm_bitmap s) then
        (shrink (bm_size (pmm_bitmap s)) entry # entries, place_at entry s)
      else
        let (entries', s') = place_bitmap entries s in (entry # entries', s'))"

section \<open>Printing the map\<close>

definition memmap_type_name :: "u64 \<Rightarrow> string" where
  "memmap_type_name t =
     (if t = LIMINE_MEMMAP_USABLE then ''USABLE''
      else if t = LIMINE_MEMMAP_RESERVED then ''RESERVED''
      else if t = LIMINE_MEMMAP_ACPI_RECLAIMABLE then ''ACPI RECLAIMABLE''
      else if t = LIMINE_MEMMAP_ACPI_NVS then ''ACPI NVS''
      else if t = LIMINE_MEMMAP_BAD_MEMORY then ''BAD MEMORY''
      else if t = LIMINE_MEMMAP_BOOTLOADER_RECLAIMABLE then ''BOOTLOADER RECLAIMABLE''
      else if t = LIMINE_MEMMAP_EXECUTABLE_AND_MODULES then ''EXECUTABLES & MODULES''
      else if t = LIMINE_MEMMAP_FRAMEBUFFER then ''FRAMEBUFFER''
      else [])"

definition print_entry :: "limine_memmap_entry \<Rightarrow> console_call list" where
  "print_entry e =
     (if usable e then [Set_text_color COLORS_GREEN] else [])
     @ [Printf ''[*] Base 0x%08x | Length 0x%08x (%8d pages) | %s.\<newline>''
          [Word (me_base e), Word (me_length e), Word (me_length e div PAGE_SIZE),
           Str (lit (memmap_type_name (me_type e)))],
        Reset_text_color]"

text \<open>The loop index is a \<open>uint8_t\<close> and is compared with the 64-bit number of entries.\<close>

partial_function (option) print_memmap_loop ::
  "limine_memmap_entry list \<Rightarrow> u8 \<Rightarrow> console_call list \<Rightarrow> console_call list option" where
  "print_memmap_loop entries i c =
     (if (ucast i :: u64) < of_nat (length entries)
      then print_memmap_loop entries (i + 1) (c @ print_entry (entries ! unat i))
      else Some c)"

definition print_memmap :: "limine_memmap_entry list \<Rightarrow> console_call list \<Rightarrow> console_call list option" where
  "print_memmap entries c =
     print_memmap_loop entries 0
       (c @ [ULOG_INFO ''Memory: Found %d memory entries from Limine.'' [Word (of_nat (length entries))]])"

section \<open>Initialisation\<close>

definition free_entry :: "limine_memmap_entry \<Rightarrow> pmm \<Rightarrow> pmm" where
  "free_entry e s =
     (if usable e then kfree (me_base e + g_hhdm_offset s) (me_length e div PAGE_SIZE) s else s)"

definition pmm_initialize :: "limine_memmap_entry list \<Rightarrow> pmm \<Rightarrow> (limine_memmap_entry list \<times> pmm) outcome" where
  "pmm_initialize entries s =
     (let (entries', s1) = place_bitmap entries (pmm_count entries s) in
      if bm_map (pmm_bitmap s1) = 0 then Inl Halts
      else
        case print_memmap entries' (console s1) of
          None \<Rightarrow> Inl Diverges
        | Some c \<Rightarrow>
            let s2 = fold free_entry entries' (s1\<lparr>console := c\<rparr>);
                s3 = s2\<lparr>mem := bitmap_use (pmm_bitmap s2) 0 (mem s2)\<rparr>;
                b = pmm_bitmap s3
            in Inr (entries', s3\<lparr>console := console s3 @
                 [ULOG_INFO ''Bitmap created with size %d. Used %d/%d pages''
                    [Word (bm_size b), Word (used_pages b), Word (total_pages b)]]\<rparr>))"

section \<open>The printing loop\<close>

lemma print_memmap_loop_end:
  "length entries < 18446744073709551616 \<Longrightarrow> length entries \<le> unat i \<Longrightarrow>
   print_memmap_loop entries i c = Some c"
  by (subst print_memmap_loop.simps) (simp add: word_less_nat_alt)

lemma print_memmap_loop_next:
  "length entries < 18446744073709551616 \<Longrightarrow> unat i < length entries \<Longrightarrow>
   print_memmap_loop entries i c = print_memmap_loop entries (i + 1) (c @ print_entry (entries ! unat i))"
  by (subst print_memmap_loop.simps) (simp add: word_less_nat_alt)

lemma print_memmap_loop_upto:
  "length entries \<le> 255 \<Longrightarrow> k \<le> length entries \<Longrightarrow>
   print_memmap_loop entries (of_nat k) c = Some (c @ concat (map print_entry (drop k entries)))"
proof (induction "length entries - k" arbitrary: k c)
  case 0
  then show ?case by (simp add: print_memmap_loop_end unat_of_nat)
next
  case (Suc d)
  then have k: "k < length entries" by simp
  with Suc.prems have u: "unat (of_nat k :: u8) = k" by (simp add: unat_of_nat)
  have "print_memmap_loop entries (of_nat k) c =
      print_memmap_loop entries (of_nat (Suc k)) (c @ print_entry (entries ! k))"
    using k Suc.prems u by (subst print_memmap_loop_next) (simp_all add: add.commute)
  also have "\<dots> = Some ((c @ print_entry (entries ! k)) @ concat (map print_entry (drop (Suc k) entries)))"
    using Suc k by (intro Suc.hyps) simp_all
  finally show ?case using k by (simp add: Cons_nth_drop_Suc [symmetric])
qed

lemma print_memmap_loop_Some:
  "print_memmap_loop entries i c = Some r \<Longrightarrow> length entries < 18446744073709551616 \<longrightarrow> length entries \<le> 255"
proof (rule print_memmap_loop.raw_induct
    [where P = "\<lambda>entries i c r. length entries < 18446744073709551616 \<longrightarrow> length entries \<le> 255"])
  fix f :: "limine_memmap_entry list \<Rightarrow> u8 \<Rightarrow> console_call list \<Rightarrow> console_call list option" and entries i c r
  assume IH: "\<And>entries i c r. f entries i c = Some r \<Longrightarrow> length entries < 18446744073709551616 \<longrightarrow> length entries \<le> 255"
    and eq: "(if (ucast i :: u64) < of_nat (length entries) then f entries (i + 1) (c @ print_entry (entries ! unat i))
      else Some c) = Some r"
  show "length entries < 18446744073709551616 \<longrightarrow> length entries \<le> 255"
  proof (cases "(ucast i :: u64) < of_nat (length entries)")
    case True
    with eq show ?thesis by (auto intro: IH [rule_format])
  next
    case False
    have "length entries < 18446744073709551616 \<Longrightarrow> length entries \<le> unat i"
      using False by (simp add: word_less_nat_alt)
    moreover have "unat i < 256" by (rule unat_u8_lt)
    ultimately show ?thesis by linarith
  qed
qed

lemma print_memmap_eq:
  assumes "length entries < 18446744073709551616"
  shows "print_memmap entries c =
    (if length entries \<le> 255
     then Some (c @ [ULOG_INFO ''Memory: Found %d memory entries from Limine.'' [Word (of_nat (length entries))]]
                  @ concat (map print_entry entries))
     else None)"
proof (cases "length entries \<le> 255")
  case True
  then show ?thesis using print_memmap_loop_upto [of entries 0] by (simp add: print_memmap_def)
next
  case False
  then have "print_memmap entries c \<noteq> Some r" for r
    using assms print_memmap_loop_Some [of entries 0 _ r] by (auto simp: print_memmap_def)
  with False show ?thesis by auto
qed

end
