(* ===== verification/Pmm_Boot.thy ===== *)
theory Pmm_Boot
  imports Pmm_Init
begin

text \<open>
  What pmm_initialize leaves behind, for a memory map whose usable entries are page aligned
  and lie in the first 2 ^ 50 bytes.  \<open>entry_run\<close> gives the pages of an entry as bit
  numbers relative to the lowest usable address; the pages that are free after the start are
  those of the usable entries, in the form the entries have after the bitmap was placed,
  except page 0.
\<close>

section \<open>Entries as runs of pages\<close>

definition entry_run :: "nat \<Rightarrow> limine_memmap_entry \<Rightarrow> nat set" where
  "entry_run lo e = {(unat (me_base e) - lo) div 4096..<(unat (me_base e) - lo) div 4096 + unat (me_length e) div 4096}"

definition entry_ok :: "nat \<Rightarrow> nat \<Rightarrow> limine_memmap_entry \<Rightarrow> bool" where
  "entry_ok lo nb e \<longleftrightarrow> usable e \<longrightarrow> lo \<le> unat (me_base e) \<and> 4096 dvd unat (me_base e) - lo
     \<and> 4096 dvd unat (me_length e) \<and> unat (me_base e) - lo + unat (me_length e) \<le> 4096 * nb"

definition freed :: "nat \<Rightarrow> limine_memmap_entry list \<Rightarrow> nat set" where
  "freed lo es = (\<Union>e\<in>{e \<in> set es. usable e}. entry_run lo e)"

definition usable_pages :: "limine_memmap_entry list \<Rightarrow> u64" where
  "usable_pages es = sum_list (map (\<lambda>e. if usable e then me_length e div PAGE_SIZE else 0) es)"

lemma freed_simps [simp]:
  "freed lo [] = {}"
  "freed lo (e # es) = (if usable e then entry_run lo e else {}) \<union> freed lo es"
  by (auto simp: freed_def)

lemma usable_pages_simps [simp]:
  "usable_pages [] = 0"
  "usable_pages (e # es) = (if usable e then me_length e div PAGE_SIZE else 0) + usable_pages es"
  by (simp_all add: usable_pages_def)

lemma same_layout_refl: "same_layout s s"
  by (auto simp: same_layout_def intro: exI [of _ "used_pages (pmm_bitmap s)"])

lemma same_layout_trans: "same_layout s t \<Longrightarrow> same_layout t u \<Longrightarrow> same_layout s u"
  by (auto simp: same_layout_def)

lemma same_layout_fields:
  assumes "same_layout s t"
  shows "bm_map (pmm_bitmap t) = bm_map (pmm_bitmap s)" "bm_size (pmm_bitmap t) = bm_size (pmm_bitmap s)"
    "total_pages (pmm_bitmap t) = total_pages (pmm_bitmap s)"
    "lowest_address (pmm_bitmap t) = lowest_address (pmm_bitmap s)" "g_hhdm_offset t = g_hhdm_offset s"
  using assms by (auto simp: same_layout_def)

section \<open>Releasing the usable entries\<close>

lemma free_entry_usable:
  assumes ok: "entry_ok (unat (lowest_address (pmm_bitmap s))) (bits (pmm_bitmap s)) e"
    and us: "usable e" and cap: "bits (pmm_bitmap s) \<le> bit_cap"
  shows "same_layout s (free_entry e s)
    \<and> used_set (pmm_bitmap s) (mem (free_entry e s)) =
        used_set (pmm_bitmap s) (mem s) - entry_run (unat (lowest_address (pmm_bitmap s))) e
    \<and> used_pages (pmm_bitmap (free_entry e s)) = used_pages (pmm_bitmap s) - me_length e div PAGE_SIZE"
proof -
  let ?b = "pmm_bitmap s" and ?lo = "unat (lowest_address (pmm_bitmap s))"
  let ?i = "(unat (me_base e) - ?lo) div 4096" and ?n = "me_length e div PAGE_SIZE"
  from ok us have lo: "?lo \<le> unat (me_base e)" and d1: "4096 dvd unat (me_base e) - ?lo"
    and d2: "4096 dvd unat (me_length e)" and fit: "unat (me_base e) - ?lo + unat (me_length e) \<le> 4096 * bits ?b"
    by (auto simp: entry_ok_def)
  have n: "unat ?n = unat (me_length e) div 4096" by (simp add: unat_div_distrib)
  from d1 d2 fit n have ib: "?i + unat ?n \<le> bits ?b" by (auto elim!: dvdE)
  show ?thesis
  proof (cases "unat ?n = 0")
    case True
    then have "free_loop ?b idx 0 (unat ?n) (mem s) = mem s" for idx by (subst free_loop.simps) simp
    moreover have "entry_run ?lo e = {}" using True n by (simp add: entry_run_def)
    moreover have "?n = 0" using True by (simp add: unat_eq_zero)
    ultimately show ?thesis using us
      by (auto simp: free_entry_def kfree_def Let_def same_layout_def intro: exI [of _ "used_pages ?b"])
  next
    case False
    with ib cap have i: "?i + unat ?n \<le> bit_cap" "?i < bit_cap" by auto
    have "BIT_TO_PAGE (of_nat ?i) = of_nat (?i * 4096)" by (simp add: BIT_TO_PAGE_def)
    also have "\<dots> = of_nat (unat (me_base e) - ?lo)" using d1 by (simp only: dvd_div_mult_self)
    also have "\<dots> = me_base e - lowest_address ?b" using lo by (simp add: of_nat_diff)
    finally have ptr: "me_base e + g_hhdm_offset s = page_ptr s ?i" by (simp add: page_ptr_def)
    have run: "entry_run ?lo e = {?i..<?i + unat ?n}" unfolding entry_run_def n ..
    show ?thesis
      using us used_set_free_bits [OF cap ib, of "mem s"] unfolding free_entry_def ptr kfree_ptr [OF i] run
      by (auto simp: same_layout_def)
  qed
qed

lemma free_entries:
  assumes "\<forall>e\<in>set es. entry_ok (unat (lowest_address (pmm_bitmap s))) (bits (pmm_bitmap s)) e"
    and "bits (pmm_bitmap s) \<le> bit_cap"
  shows "same_layout s (fold free_entry es s)
    \<and> used_set (pmm_bitmap s) (mem (fold free_entry es s)) =
        used_set (pmm_bitmap s) (mem s) - freed (unat (lowest_address (pmm_bitmap s))) es
    \<and> used_pages (pmm_bitmap (fold free_entry es s)) = used_pages (pmm_bitmap s) - usable_pages es"
  using assms
proof (induction es arbitrary: s)
  case Nil
  then show ?case by (simp add: same_layout_refl)
next
  case (Cons e es)
  show ?case
  proof (cases "usable e")
    case True
    let ?t = "free_entry e s"
    from free_entry_usable [OF _ True Cons.prems(2)] Cons.prems(1)
    have t: "same_layout s ?t"
      "used_set (pmm_bitmap s) (mem ?t) = used_set (pmm_bitmap s) (mem s) - entry_run (unat (lowest_address (pmm_bitmap s))) e"
      "used_pages (pmm_bitmap ?t) = used_pages (pmm_bitmap s) - me_length e div PAGE_SIZE" by auto
    note sl = same_layout_simps [OF t(1)] and sf = same_layout_fields [OF t(1)]
    have "same_layout ?t (fold free_entry es ?t)
      \<and> used_set (pmm_bitmap ?t) (mem (fold free_entry es ?t)) =
          used_set (pmm_bitmap ?t) (mem ?t) - freed (unat (lowest_address (pmm_bitmap ?t))) es
      \<and> used_pages (pmm_bitmap (fold free_entry es ?t)) = used_pages (pmm_bitmap ?t) - usable_pages es"
      using Cons.prems by (intro Cons.IH) (simp_all add: sl(4) sf(4))
    then show ?thesis using True t same_layout_trans [OF t(1)]
      by (auto simp: sl(7) sf(4))
  next
    case False
    with Cons show ?thesis by (simp add: free_entry_def)
  qed
qed

section \<open>Scanning and sizing\<close>

text \<open>A well-formed memory map: what the boot protocol guarantees of usable entries.\<close>

definition memmap_ok :: "limine_memmap_entry list \<Rightarrow> bool" where
  "memmap_ok es \<longleftrightarrow> (\<forall>e\<in>set es. usable e \<longrightarrow> 4096 dvd unat (me_base e) \<and> 4096 dvd unat (me_length e)
     \<and> unat (me_base e) + unat (me_length e) \<le> 2 ^ 50)"

lemma unat_top: "memmap_ok es \<Longrightarrow> e \<in> set es \<Longrightarrow> usable e \<Longrightarrow>
    unat (me_base e + me_length e) = unat (me_base e) + unat (me_length e)"
  by (subst unat_add_lem [symmetric]) (auto simp: memmap_ok_def)

lemma scan_bounds:
  "memmap_ok es \<Longrightarrow>
   (\<forall>e\<in>set es. usable e \<longrightarrow>
      unat (lowest_address (fold scan_entry es b)) \<le> unat (me_base e)
      \<and> unat (me_base e) + unat (me_length e) \<le> unat (highest_address (fold scan_entry es b)))
   \<and> lowest_address (fold scan_entry es b) \<le> lowest_address b
   \<and> highest_address b \<le> highest_address (fold scan_entry es b)"
proof (induction es arbitrary: b)
  case (Cons e es)
  let ?b = "scan_entry e b"
  have ok: "memmap_ok es" using Cons.prems by (simp add: memmap_ok_def)
  note IH = Cons.IH [OF ok, of ?b]
  have lo: "lowest_address ?b \<le> lowest_address b" and hi: "highest_address b \<le> highest_address ?b"
    by (auto simp: scan_entry_def Let_def)
  have us: "lowest_address ?b \<le> me_base e \<and> me_base e + me_length e \<le> highest_address ?b" if "usable e"
    using that by (auto simp: scan_entry_def Let_def)
  have top: "usable e \<Longrightarrow> unat (me_base e + me_length e) = unat (me_base e) + unat (me_length e)"
    using unat_top [OF Cons.prems] by simp
  show ?case
    using IH lo hi us top by (auto simp: word_le_nat_alt)
qed simp

lemma scan_lowest:
  "lowest_address (fold scan_entry es b) = lowest_address b
   \<or> (\<exists>e\<in>set es. usable e \<and> lowest_address (fold scan_entry es b) = me_base e)"
proof (induction es arbitrary: b)
  case (Cons e es)
  have "lowest_address (scan_entry e b) = lowest_address b \<or> (usable e \<and> lowest_address (scan_entry e b) = me_base e)"
    by (auto simp: scan_entry_def Let_def)
  with Cons [of "scan_entry e b"] show ?case by auto
qed simp

lemma scan_highest:
  "highest_address (fold scan_entry es b) = highest_address b
   \<or> (\<exists>e\<in>set es. usable e \<and> highest_address (fold scan_entry es b) = me_base e + me_length e)"
proof (induction es arbitrary: b)
  case (Cons e es)
  have "highest_address (scan_entry e b) = highest_address b
      \<or> (usable e \<and> highest_address (scan_entry e b) = me_base e + me_length e)"
    by (auto simp: scan_entry_def Let_def)
  with Cons [of "scan_entry e b"] show ?case by auto
qed simp

lemma unat_ALIGN_UP:
  "unat x + 4095 < 18446744073709551616 \<Longrightarrow> unat (ALIGN_UP x PAGE_SIZE) = 4096 * ((unat x + 4095) div 4096)"
proof -
  assume x: "unat x + 4095 < 18446744073709551616"
  have eq: "x + PAGE_SIZE - 1 = x + 4095" by simp
  have "unat (x + 4095) = unat x + 4095"
    using x by (subst unat_add_lem [THEN iffD1]) simp_all
  then show ?thesis unfolding ALIGN_UP_def eq by (simp add: and_not_4095)
qed

text \<open>
  The numbers the start computes, from a well-formed map that has usable memory below 4 GiB:
  \<open>lo\<close> and \<open>hi\<close> bound the usable memory, N is its extent in pages and the bitmap has
  \<open>size\<close> rows of 64 bits.
\<close>

lemma count_numbers:
  assumes ok: "memmap_ok es" and init: "pmm_bitmap s = pmm_bitmap_init"
    and low: "\<exists>e\<in>set es. usable e \<and> me_base e < 0xffffffff"
  defines "b \<equiv> pmm_bitmap (pmm_count es s)"
  shows "\<forall>e\<in>set es. usable e \<longrightarrow> unat (lowest_address b) \<le> unat (me_base e)
      \<and> unat (me_base e) + unat (me_length e) \<le> unat (highest_address b)"
    and "4096 dvd unat (lowest_address b)"
    and "unat (highest_address b) \<le> 2 ^ 50"
    and "unat (total_pages b) = (unat (highest_address b) - unat (lowest_address b)) div 4096"
    and "unat (bm_size b) = 4096 * ((unat (total_pages b) div 64 + 4095) div 4096)"
    and "bits b \<le> bit_cap"
proof -
  let ?f = "fold scan_entry es pmm_bitmap_init"
  have f: "lowest_address b = lowest_address ?f" "highest_address b = highest_address ?f"
    "total_pages b = (highest_address ?f - lowest_address ?f) div PAGE_SIZE"
    "bm_size b = ALIGN_UP (total_pages b div BITS_PER_ROW) PAGE_SIZE"
    by (simp_all add: b_def pmm_count_def Let_def init)
  note sb = scan_bounds [OF ok, of pmm_bitmap_init]
  then show bnd: "\<forall>e\<in>set es. usable e \<longrightarrow> unat (lowest_address b) \<le> unat (me_base e)
      \<and> unat (me_base e) + unat (me_length e) \<le> unat (highest_address b)" by (simp add: f)
  from low obtain e where e: "e \<in> set es" "usable e" "me_base e < 0xffffffff" by auto
  with bnd have "lowest_address b < 0xffffffff" by (auto simp: word_less_nat_alt intro: le_less_trans)
  then have ne: "lowest_address ?f \<noteq> lowest_address pmm_bitmap_init" by (auto simp: f pmm_bitmap_init_def)
  then show "4096 dvd unat (lowest_address b)"
    using scan_lowest [of es pmm_bitmap_init] ok by (auto simp: f memmap_ok_def)
  show hi: "unat (highest_address b) \<le> 2 ^ 50"
    using scan_highest [of es pmm_bitmap_init] ok unat_top [OF ok]
    by (auto simp: f memmap_ok_def pmm_bitmap_init_def)
  have le: "lowest_address b \<le> highest_address b"
    using bnd e by (auto simp: word_le_nat_alt)
  then show N: "unat (total_pages b) = (unat (highest_address b) - unat (lowest_address b)) div 4096"
    by (simp add: f(3) [folded f(1,2)] unat_div_distrib unat_sub)
  then have N38: "unat (total_pages b) \<le> 2 ^ 38" using hi by simp
  have "unat (total_pages b div BITS_PER_ROW) = unat (total_pages b) div 64" by (simp add: unat_div_distrib)
  then show sz: "unat (bm_size b) = 4096 * ((unat (total_pages b) div 64 + 4095) div 4096)"
    using N38 by (subst f(4), subst unat_ALIGN_UP) simp_all
  have "unat (total_pages b) div 64 \<le> 2 ^ 32" using N38 by simp
  then have "(unat (total_pages b) div 64 + 4095) div 4096 \<le> 2 ^ 20" by simp
  then show "bits b \<le> bit_cap" by (simp add: bits_def sz bit_cap_def)
qed

lemma scan_map: "bm_map (fold scan_entry es b) = bm_map b"
  by (induction es arbitrary: b) (simp_all add: scan_entry_def Let_def)

section \<open>Placing\<close>

lemma place_bitmap_first:
  assumes "\<exists>e\<in>set es. usable e \<and> bm_size (pmm_bitmap s) \<le> me_length e"
  shows "\<exists>pre e post. es = pre @ e # post \<and> usable e \<and> bm_size (pmm_bitmap s) \<le> me_length e
    \<and> (\<forall>x\<in>set pre. \<not> (usable x \<and> bm_size (pmm_bitmap s) \<le> me_length x))
    \<and> place_bitmap es s = (pre @ shrink (bm_size (pmm_bitmap s)) e # post, place_at e s)"
  using assms
proof (induction es)
  case (Cons x es)
  show ?case
  proof (cases "usable x \<and> bm_size (pmm_bitmap s) \<le> me_length x")
    case True
    then show ?thesis by (intro exI [of _ "[]"] exI [of _ x] exI [of _ es]) simp
  next
    case False
    with Cons obtain pre e post where "es = pre @ e # post" "usable e" "bm_size (pmm_bitmap s) \<le> me_length e"
      "\<forall>x\<in>set pre. \<not> (usable x \<and> bm_size (pmm_bitmap s) \<le> me_length x)"
      "place_bitmap es s = (pre @ shrink (bm_size (pmm_bitmap s)) e # post, place_at e s)" by auto
    with False show ?thesis by (intro exI [of _ "x # pre"] exI [of _ e] exI [of _ post]) auto
  qed
qed simp

lemma place_bitmap_none:
  "\<forall>e\<in>set es. \<not> (usable e \<and> bm_size (pmm_bitmap s) \<le> me_length e) \<Longrightarrow> place_bitmap es s = (es, s)"
  by (induction es) auto

text \<open>Filling the storage with 0xff marks every bit of the bitmap used.\<close>

lemma place_at_used:
  assumes "bits (pmm_bitmap s) \<le> bit_cap"
  shows "used_set (pmm_bitmap (place_at e s)) (mem (place_at e s)) = {..<bits (pmm_bitmap s)}"
proof -
  let ?sz = "bm_size (pmm_bitmap s)" and ?a = "me_base e + g_hhdm_offset s"
  have sz: "unat (?sz * 8) = 8 * unat ?sz"
    using assms by (subst mult.commute, subst unat_mult_lem [THEN iffD1]) (simp_all add: bits_def bit_cap_def)
  have "page_bit (mem (place_at e s)) ?a k" if k: "k < bits (pmm_bitmap s)" for k
  proof -
    have "k div 8 < 8 * unat ?sz" using k by (simp add: bits_def less_mult_imp_div_less)
    moreover have "k div 8 < 18446744073709551616"
      using k assms by (simp add: bit_cap_def less_mult_imp_div_less)
    ultimately have "in_region (?a + of_nat (k div 8)) ?a (unat (?sz * 8))" by (simp add: in_region_def sz)
    then have "mem (place_at e s) (?a + of_nat (k div 8)) = - 1"
      by (simp add: place_at_def Let_def)
    then show ?thesis by (simp add: page_bit_def)
  qed
  moreover have "bits (pmm_bitmap (place_at e s)) = bits (pmm_bitmap s)" by (simp add: place_at_def Let_def bits_def)
  moreover have "bm_map (pmm_bitmap (place_at e s)) = ?a" by (simp add: place_at_def Let_def)
  ultimately show ?thesis by (auto simp: used_set_def)
qed

section \<open>The whole start\<close>

text \<open>
  \<open>boot_ok\<close>: the map is well formed and short enough to be printed, there is usable memory
  below 4 GiB, the direct map of the usable memory does not run over the top of memory, the
  bitmap's rows cover all pages, and some entry is as long as the bitmap has rows.
\<close>

definition boot_ok :: "limine_memmap_entry list \<Rightarrow> pmm \<Rightarrow> bool" where
  "boot_ok es s \<longleftrightarrow> memmap_ok es \<and> length es \<le> 255 \<and> pmm_bitmap s = pmm_bitmap_init
     \<and> (\<exists>e\<in>set es. usable e \<and> me_base e < 0xffffffff)
     \<and> g_hhdm_offset s \<noteq> 0
     \<and> (\<forall>e\<in>set es. usable e \<longrightarrow> unat (me_base e) + unat (g_hhdm_offset s) < 18446744073709551616)
     \<and> (let b = pmm_bitmap (pmm_count es s) in
          0 < bits b \<and> unat (total_pages b) \<le> bits b
          \<and> (\<exists>e\<in>set es. usable e \<and> bm_size b \<le> me_length e))"

lemma boot_entries_ok:
  assumes ok: "memmap_ok es" and init: "pmm_bitmap s = pmm_bitmap_init"
    and low: "\<exists>e\<in>set es. usable e \<and> me_base e < 0xffffffff"
    and fits: "unat (total_pages (pmm_bitmap (pmm_count es s))) \<le> bits (pmm_bitmap (pmm_count es s))"
    and e: "e \<in> set es" "usable e"
  shows "entry_ok (unat (lowest_address (pmm_bitmap (pmm_count es s)))) (bits (pmm_bitmap (pmm_count es s))) e"
    and "bm_size (pmm_bitmap (pmm_count es s)) \<le> me_length e \<Longrightarrow>
      entry_ok (unat (lowest_address (pmm_bitmap (pmm_count es s)))) (bits (pmm_bitmap (pmm_count es s)))
        (shrink (bm_size (pmm_bitmap (pmm_count es s))) e)"
proof -
  let ?b = "pmm_bitmap (pmm_count es s)"
  let ?lo = "unat (lowest_address ?b)" and ?sz = "bm_size ?b"
  note cn = count_numbers [OF ok init low]
  from cn(1) e have lo: "?lo \<le> unat (me_base e)"
    and hi: "unat (me_base e) + unat (me_length e) \<le> unat (highest_address ?b)" by auto
  from ok e have d: "4096 dvd unat (me_base e)" "4096 dvd unat (me_length e)"
    and top: "unat (me_base e) + unat (me_length e) \<le> 2 ^ 50" by (auto simp: memmap_ok_def)
  have dlo: "4096 dvd unat (me_base e) - ?lo" using d(1) cn(2) by (rule dvd_diff_nat)
  have "(unat (me_base e) - ?lo + unat (me_length e)) div 4096 \<le> unat (total_pages ?b)"
    unfolding cn(4) using lo hi by (intro div_le_mono) simp
  moreover have "4096 dvd unat (me_base e) - ?lo + unat (me_length e)" using dlo d(2) by (rule dvd_add)
  ultimately have fit: "unat (me_base e) - ?lo + unat (me_length e) \<le> 4096 * bits ?b"
    using fits by (auto elim!: dvdE)
  show "entry_ok ?lo (bits ?b) e" using lo dlo d(2) fit by (simp add: entry_ok_def)
  assume sz: "?sz \<le> me_length e"
  have ub: "unat (me_base e + ?sz) = unat (me_base e) + unat ?sz"
    using top sz by (subst unat_add_lem [THEN iffD1]) (simp_all add: word_le_nat_alt)
  have ul: "unat (me_length e - ?sz) = unat (me_length e) - unat ?sz" using sz by (simp add: unat_sub)
  have dsz: "4096 dvd unat ?sz" unfolding cn(5) by simp
  have le: "unat ?sz \<le> unat (me_length e)" using sz by (simp add: word_le_nat_alt)
  have "4096 dvd unat (me_base e) + unat ?sz - ?lo" using d(1) dsz cn(2) by (intro dvd_diff_nat dvd_add)
  moreover have "4096 dvd unat (me_length e) - unat ?sz" using d(2) dsz by (rule dvd_diff_nat)
  ultimately show "entry_ok ?lo (bits ?b) (shrink ?sz e)"
    using lo le fit by (simp add: entry_ok_def shrink_def ub ul)
qed

text \<open>
  The state after the start, in terms of the entry e the bitmap was placed in.
\<close>

definition booted :: "limine_memmap_entry list \<Rightarrow> pmm \<Rightarrow> limine_memmap_entry \<Rightarrow> limine_memmap_entry list \<Rightarrow> pmm \<Rightarrow> bool" where
  "booted es s e es' s' \<longleftrightarrow>
     (let b0 = pmm_bitmap (pmm_count es s); b = pmm_bitmap s' in
      (\<exists>pre post. es = pre @ e # post \<and> es' = pre @ shrink (bm_size b0) e # post
         \<and> usable e \<and> bm_size b0 \<le> me_length e
         \<and> (\<forall>x\<in>set pre. \<not> (usable x \<and> bm_size b0 \<le> me_length x)))
      \<and> bm_map b = me_base e + g_hhdm_offset s \<and> bm_size b = bm_size b0
      \<and> lowest_address b = lowest_address b0 \<and> g_hhdm_offset s' = g_hhdm_offset s
      \<and> total_pages b = total_pages b0 - bm_size b0 div PAGE_SIZE
      \<and> used_pages b = total_pages b - usable_pages es'
      \<and> used_set b (mem s') = insert 0 ({..<bits b} - freed (unat (lowest_address b)) es'))"

lemma pmm_count_fields:
  "g_hhdm_offset (pmm_count es s) = g_hhdm_offset s" "mem (pmm_count es s) = mem s"
  by (simp_all add: pmm_count_def Let_def)

lemma place_at_fields:
  "g_hhdm_offset (place_at e s) = g_hhdm_offset s"
  "bm_map (pmm_bitmap (place_at e s)) = me_base e + g_hhdm_offset s"
  "bm_size (pmm_bitmap (place_at e s)) = bm_size (pmm_bitmap s)"
  "lowest_address (pmm_bitmap (place_at e s)) = lowest_address (pmm_bitmap s)"
  "total_pages (pmm_bitmap (place_at e s)) = total_pages (pmm_bitmap s) - bm_size (pmm_bitmap s) div PAGE_SIZE"
  "used_pages (pmm_bitmap (place_at e s)) = total_pages (pmm_bitmap s) - bm_size (pmm_bitmap s) div PAGE_SIZE"
  "bits (pmm_bitmap (place_at e s)) = bits (pmm_bitmap s)"
  by (simp_all add: place_at_def Let_def bits_def)

lemma map_nonzero:
  assumes "unat a + unat h < 18446744073709551616" "h \<noteq> (0 :: u64)"
  shows "a + h \<noteq> 0"
proof -
  have "unat (a + h) = unat a + unat h"
    using assms(1) by (subst unat_add_lem [THEN iffD1]) simp_all
  moreover have "unat h \<noteq> 0" using assms(2) by (simp add: unat_eq_zero)
  ultimately show ?thesis by (metis add_is_0 unat_0)
qed

lemma placed_entries_ok:
  assumes bo: "boot_ok (pre @ e # post) s"
  defines "b \<equiv> pmm_bitmap (pmm_count (pre @ e # post) s)"
  assumes e: "usable e" "bm_size b \<le> me_length e" and x: "x \<in> set (pre @ shrink (bm_size b) e # post)"
  shows "entry_ok (unat (lowest_address b)) (bits b) x"
proof -
  from bo have ok: "memmap_ok (pre @ e # post)" and init: "pmm_bitmap s = pmm_bitmap_init"
    and low: "\<exists>e\<in>set (pre @ e # post). usable e \<and> me_base e < 0xffffffff" and fits: "unat (total_pages b) \<le> bits b"
    unfolding boot_ok_def Let_def b_def by blast+
  note be = boot_entries_ok [OF ok init low fits [unfolded b_def], folded b_def]
  from x consider "x = shrink (bm_size b) e" | "x \<in> set (pre @ e # post)" "usable x" | "\<not> usable x" by auto
  then show ?thesis
  proof cases
    case 1 then show ?thesis using be(2) [OF _ e] by simp
  next
    case 2 then show ?thesis using be(1) by blast
  next
    case 3 then show ?thesis by (simp add: entry_ok_def)
  qed
qed

text \<open>Releasing the entries of a full bitmap and taking page 0 back.\<close>

lemma release_entries:
  assumes ok: "\<forall>x\<in>set es. entry_ok (unat (lowest_address (pmm_bitmap s))) (bits (pmm_bitmap s)) x"
    and cap: "bits (pmm_bitmap s) \<le> bit_cap" and pos: "0 < bits (pmm_bitmap s)"
    and full: "used_set (pmm_bitmap s) (mem s) = {..<bits (pmm_bitmap s)}"
  defines "t \<equiv> fold free_entry es s"
  shows "same_layout s t" "used_pages (pmm_bitmap t) = used_pages (pmm_bitmap s) - usable_pages es"
    and "used_set (pmm_bitmap t) (bitmap_use (pmm_bitmap t) 0 (mem t)) =
      insert 0 ({..<bits (pmm_bitmap s)} - freed (unat (lowest_address (pmm_bitmap s))) es)"
proof -
  from free_entries [OF ok cap] show lay: "same_layout s t"
    and "used_pages (pmm_bitmap t) = used_pages (pmm_bitmap s) - usable_pages es" by (simp_all add: t_def)
  note sl = same_layout_simps [OF lay]
  have us: "used_set (pmm_bitmap s) (mem t) = {..<bits (pmm_bitmap s)} - freed (unat (lowest_address (pmm_bitmap s))) es"
    using free_entries [OF ok cap] full by (simp add: t_def)
  have "use_run (pmm_bitmap t) 0 1 (mem t) = bitmap_use (pmm_bitmap t) 0 (mem t)" by (simp add: use_run_def)
  moreover have "used_set (pmm_bitmap t) (use_run (pmm_bitmap t) 0 1 (mem t)) =
      used_set (pmm_bitmap t) (mem t) \<union> {0..<0 + 1}"
    using cap pos by (intro used_set_use_run) (simp_all add: sl(4))
  ultimately show "used_set (pmm_bitmap t) (bitmap_use (pmm_bitmap t) 0 (mem t)) =
      insert 0 ({..<bits (pmm_bitmap s)} - freed (unat (lowest_address (pmm_bitmap s))) es)"
    using us by (auto simp: sl(7))
qed

lemma pmm_initialize_booted:
  assumes bo: "boot_ok es s"
  shows "\<exists>e es' s'. pmm_initialize es s = Inr (es', s') \<and> booted es s e es' s'"
proof -
  let ?s1 = "pmm_count es s" let ?b0 = "pmm_bitmap ?s1" let ?sz = "bm_size ?b0"
  from bo have ok: "memmap_ok es" and len: "length es \<le> 255" and init: "pmm_bitmap s = pmm_bitmap_init"
    and low: "\<exists>e\<in>set es. usable e \<and> me_base e < 0xffffffff" and h0: "g_hhdm_offset s \<noteq> 0"
    and map64: "\<forall>e\<in>set es. usable e \<longrightarrow> unat (me_base e) + unat (g_hhdm_offset s) < 18446744073709551616"
    and pos: "0 < bits ?b0" and room: "\<exists>e\<in>set es. usable e \<and> ?sz \<le> me_length e"
    by (auto simp: boot_ok_def Let_def)
  note cn = count_numbers [OF ok init low]
  from place_bitmap_first [OF room] obtain pre e post where es: "es = pre @ e # post"
    and e: "usable e" "?sz \<le> me_length e"
    and pre: "\<forall>x\<in>set pre. \<not> (usable x \<and> ?sz \<le> me_length x)"
    and place: "place_bitmap es ?s1 = (pre @ shrink ?sz e # post, place_at e ?s1)" by blast
  let ?es' = "pre @ shrink ?sz e # post" and ?s2 = "place_at e ?s1"
  note pf = place_at_fields [of e ?s1]
  have "unat (me_base e) + unat (g_hhdm_offset s) < 18446744073709551616" using map64 es e by auto
  from map_nonzero [OF this h0] have nz: "bm_map (pmm_bitmap ?s2) \<noteq> 0"
    by (simp add: pf pmm_count_fields)
  obtain c where c: "print_memmap ?es' (console ?s2) = Some c"
    using len es by (simp add: print_memmap_eq)
  let ?s3 = "?s2\<lparr>console := c\<rparr>"
  define s4 where "s4 = fold free_entry ?es' ?s3"
  have eok: "\<forall>x\<in>set ?es'. entry_ok (unat (lowest_address (pmm_bitmap ?s3))) (bits (pmm_bitmap ?s3)) x"
    using placed_entries_ok [OF bo [unfolded es] e(1) e(2) [unfolded es]] by (simp add: place_at_fields es)
  have rd: "bits (pmm_bitmap ?s3) \<le> bit_cap" "0 < bits (pmm_bitmap ?s3)"
    "used_set (pmm_bitmap ?s3) (mem ?s3) = {..<bits (pmm_bitmap ?s3)}"
    using cn(6) pos place_at_used [of ?s1 e] by (simp_all add: pf)
  note re = release_entries [OF eok rd, folded s4_def]
  note sl = same_layout_simps [OF re(1)] and sf = same_layout_fields [OF re(1)]
  let ?m = "bitmap_use (pmm_bitmap s4) 0 (mem s4)"
  have "\<exists>s'. pmm_initialize es s = Inr (?es', s') \<and> pmm_bitmap s' = pmm_bitmap s4 \<and> mem s' = ?m
      \<and> g_hhdm_offset s' = g_hhdm_offset s4"
    unfolding s4_def by (simp add: pmm_initialize_def Let_def place nz c)
  then obtain s' where s': "pmm_initialize es s = Inr (?es', s')" "pmm_bitmap s' = pmm_bitmap s4" "mem s' = ?m"
    "g_hhdm_offset s' = g_hhdm_offset s4" by blast
  have "booted es s e ?es' s'"
    unfolding booted_def Let_def using re(2,3)
    by (intro conjI exI [of _ pre] exI [of _ post] es e pre refl)
      (simp_all add: s' sf pf pmm_count_fields sl(4))
  with s' show ?thesis by blast
qed

lemma pmm_initialize_result:
  assumes "boot_ok es s" "pmm_initialize es s = Inr (es', s')"
  shows "\<exists>e. booted es s e es' s'"
  using pmm_initialize_booted [OF assms(1)] assms(2) by auto

section \<open>Properties\<close>

text \<open>An entry covers the page that starts at a physical address.\<close>

definition covers :: "limine_memmap_entry \<Rightarrow> nat \<Rightarrow> bool" where
  "covers e a \<longleftrightarrow> unat (me_base e) \<le> a \<and> a + 4096 \<le> unat (me_base e) + unat (me_length e)"

lemma entry_run_covers:
  assumes "entry_ok lo nb e" "usable e"
  shows "k \<in> entry_run lo e \<longleftrightarrow> covers e (lo + 4096 * k)"
proof -
  from assms have lo: "lo \<le> unat (me_base e)" and d: "4096 dvd unat (me_base e) - lo" "4096 dvd unat (me_length e)"
    by (auto simp: entry_ok_def)
  from d obtain i n where "unat (me_base e) - lo = 4096 * i" "unat (me_length e) = 4096 * n" by (auto elim!: dvdE)
  with lo show ?thesis by (auto simp: entry_run_def covers_def)
qed

lemma booted_entries_ok:
  assumes bo: "boot_ok es s" and bt: "booted es s e es' s'" and x: "x \<in> set es'" "usable x"
  shows "entry_ok (unat (lowest_address (pmm_bitmap s'))) (bits (pmm_bitmap s')) x"
proof -
  from bo have ok: "memmap_ok es" and init: "pmm_bitmap s = pmm_bitmap_init"
    and low: "\<exists>e\<in>set es. usable e \<and> me_base e < 0xffffffff"
    and fits: "unat (total_pages (pmm_bitmap (pmm_count es s))) \<le> bits (pmm_bitmap (pmm_count es s))"
    by (auto simp: boot_ok_def Let_def)
  note be = boot_entries_ok [OF ok init low fits]
  from bt obtain pre post where p: "es = pre @ e # post"
      "es' = pre @ shrink (bm_size (pmm_bitmap (pmm_count es s))) e # post"
      "usable e" "bm_size (pmm_bitmap (pmm_count es s)) \<le> me_length e"
    and f: "lowest_address (pmm_bitmap s') = lowest_address (pmm_bitmap (pmm_count es s))"
      "bits (pmm_bitmap s') = bits (pmm_bitmap (pmm_count es s))"
    unfolding booted_def Let_def bits_def by auto
  have e: "e \<in> set es" and others: "set pre \<union> set post \<subseteq> set es" using p(1) by auto
  from x(1) p(2) consider "x = shrink (bm_size (pmm_bitmap (pmm_count es s))) e" | "x \<in> set es"
    using others by auto
  then show ?thesis unfolding f using be(1) be(2) [OF e p(3,4)] x(2) by cases auto
qed

lemma booted_free_iff:
  assumes bo: "boot_ok es s" and bt: "booted es s e es' s'" and k: "k < bits (pmm_bitmap s')"
  shows "k \<notin> used_set (pmm_bitmap s') (mem s') \<longleftrightarrow>
    k \<noteq> 0 \<and> (\<exists>x\<in>set es'. usable x \<and> covers x (unat (lowest_address (pmm_bitmap s')) + 4096 * k))"
proof -
  let ?lo = "unat (lowest_address (pmm_bitmap s'))"
  have "k \<notin> used_set (pmm_bitmap s') (mem s') \<longleftrightarrow> k \<noteq> 0 \<and> k \<in> freed ?lo es'"
    using bt k by (auto simp: booted_def Let_def)
  also have "k \<in> freed ?lo es' \<longleftrightarrow> (\<exists>x\<in>set es'. usable x \<and> covers x (?lo + 4096 * k))"
    using entry_run_covers [OF booted_entries_ok [OF bo bt]] by (auto simp: freed_def)
  finally show ?thesis .
qed

text \<open>A machine for the witnesses: 512 MiB of usable memory from 1 MiB on, after a reserved entry.\<close>

definition demo_map :: "limine_memmap_entry list" where
  "demo_map = [\<lparr>me_base = 0, me_length = 0x100000, me_type = 1\<rparr>,
               \<lparr>me_base = 0x100000, me_length = 0x20000000, me_type = 0\<rparr>]"

definition demo_boot :: pmm where
  "demo_boot = \<lparr>mem = (\<lambda>_. 0), pmm_bitmap = pmm_bitmap_init, g_hhdm_offset = 0xffff800000000000, console = []\<rparr>"

lemma demo_count:
  "pmm_bitmap (pmm_count demo_map demo_boot) =
     \<lparr>bm_map = 0, bm_size = 4096, total_pages = 131072, used_pages = 0,
      highest_address = 0x20100000, lowest_address = 0x100000\<rparr>"
  by (simp add: pmm_count_def demo_map_def demo_boot_def pmm_bitmap_init_def scan_entry_def Let_def ALIGN_UP_def)

lemma demo_boot_ok: "boot_ok demo_map demo_boot"
  unfolding boot_ok_def Let_def demo_count
  by (simp add: memmap_ok_def demo_map_def demo_boot_def bits_def)

lemma demo_booted:
  assumes "booted demo_map demo_boot e es' s'"
  shows "bits (pmm_bitmap s') = 262144" "total_pages (pmm_bitmap s') = 131071" "used_pages (pmm_bitmap s') = 0"
    "bm_size (pmm_bitmap s') = 4096" "lowest_address (pmm_bitmap s') = 0x100000"
    "e = \<lparr>me_base = 0x100000, me_length = 0x20000000, me_type = 0\<rparr>"
    "g_hhdm_offset s' = 0xffff800000000000"
    "es' = [\<lparr>me_base = 0, me_length = 0x100000, me_type = 1\<rparr>,
      \<lparr>me_base = 0x101000, me_length = 0x1ffff000, me_type = 0\<rparr>]"
proof -
  from assms obtain pre post where p: "demo_map = pre @ e # post" "es' = pre @ shrink 4096 e # post" "usable e"
    and t: "total_pages (pmm_bitmap s') = 131071" "bm_size (pmm_bitmap s') = 4096" "lowest_address (pmm_bitmap s') = 0x100000"
    and up: "used_pages (pmm_bitmap s') = total_pages (pmm_bitmap s') - usable_pages es'"
    and g: "g_hhdm_offset s' = g_hhdm_offset demo_boot"
    by (auto simp: booted_def Let_def demo_count)
  from p(1,3) have "pre = [\<lparr>me_base = 0, me_length = 0x100000, me_type = 1\<rparr>]" "post = []"
      and e: "e = \<lparr>me_base = 0x100000, me_length = 0x20000000, me_type = 0\<rparr>"
    by (auto simp: demo_map_def Cons_eq_append_conv)
  with p(2) show es: "es' = [\<lparr>me_base = 0, me_length = 0x100000, me_type = 1\<rparr>,
      \<lparr>me_base = 0x101000, me_length = 0x1ffff000, me_type = 0\<rparr>]" by (simp add: shrink_def)
  show "g_hhdm_offset s' = 0xffff800000000000" using g by (simp add: demo_boot_def)
  from es have "usable_pages es' = 131071" by simp
  with up t e show "bits (pmm_bitmap s') = 262144" "total_pages (pmm_bitmap s') = 131071" "used_pages (pmm_bitmap s') = 0"
      "bm_size (pmm_bitmap s') = 4096" "lowest_address (pmm_bitmap s') = 0x100000"
      "e = \<lparr>me_base = 0x100000, me_length = 0x20000000, me_type = 0\<rparr>"
    by (simp_all add: bits_def)
qed

text \<open>
  C7. The start releases exactly the usable memory: for a well-formed memory map pmm_initialize
  returns, and a page is then free precisely when it is not page 0 and lies wholly inside a
  usable entry of the map as it stands after the bitmap has been placed in the first entry long
  enough; the counter of used pages is total_pages less the pages of the usable entries.
\<close>

theorem pmm_initialize_free_pages:
  assumes "boot_ok es s"
  shows "\<exists>e es' s'. pmm_initialize es s = Inr (es', s') \<and> booted es s e es' s'
    \<and> used_pages (pmm_bitmap s') = total_pages (pmm_bitmap s') - usable_pages es'
    \<and> (\<forall>k<bits (pmm_bitmap s'). k \<notin> used_set (pmm_bitmap s') (mem s') \<longleftrightarrow>
        k \<noteq> 0 \<and> (\<exists>x\<in>set es'. usable x \<and> covers x (unat (lowest_address (pmm_bitmap s')) + 4096 * k)))"
proof -
  from pmm_initialize_booted [OF assms] obtain e es' s'
    where r: "pmm_initialize es s = Inr (es', s')" and bt: "booted es s e es' s'" by blast
  from bt have "used_pages (pmm_bitmap s') = total_pages (pmm_bitmap s') - usable_pages es'"
    by (simp add: booted_def Let_def)
  with r bt booted_free_iff [OF assms bt] show ?thesis by blast
qed

theorem pmm_initialize_free_pages_witness:
  "\<exists>es' s'. pmm_initialize demo_map demo_boot = Inr (es', s') \<and> bits (pmm_bitmap s') = 262144
    \<and> total_pages (pmm_bitmap s') = 131071 \<and> used_pages (pmm_bitmap s') = 0"
proof -
  from pmm_initialize_free_pages [OF demo_boot_ok] obtain e es' s'
    where "pmm_initialize demo_map demo_boot = Inr (es', s')" "booted demo_map demo_boot e es' s'" by blast
  with demo_booted show ?thesis by blast
qed

text \<open>
  C25. The ways the start can end, for any map of the boot loader and a direct map that sends no
  usable entry to address 0: it halts when no usable entry is as long as the bitmap has rows,
  never returns when the map has more than 255 entries (the loop of print_memmap counts them in
  a byte), and returns otherwise.
\<close>

theorem pmm_initialize_outcomes:
  assumes "pmm_bitmap s = pmm_bitmap_init"
    and "\<forall>e\<in>set es. usable e \<longrightarrow> me_base e + g_hhdm_offset s \<noteq> 0"
    and "length es < 18446744073709551616"
  shows "(case pmm_initialize es s of
      Inl err \<Rightarrow>
        err = Halts \<and> (\<forall>e\<in>set es. \<not> (usable e \<and> bm_size (pmm_bitmap (pmm_count es s)) \<le> me_length e))
        \<or> err = Diverges \<and> 255 < length es
          \<and> (\<exists>e\<in>set es. usable e \<and> bm_size (pmm_bitmap (pmm_count es s)) \<le> me_length e)
    | Inr r \<Rightarrow> length es \<le> 255
        \<and> (\<exists>e\<in>set es. usable e \<and> bm_size (pmm_bitmap (pmm_count es s)) \<le> me_length e))"
proof (cases "\<exists>e\<in>set es. usable e \<and> bm_size (pmm_bitmap (pmm_count es s)) \<le> me_length e")
  case True
  from place_bitmap_first [OF True] obtain pre e post where es: "es = pre @ e # post" "usable e"
    and pl: "place_bitmap es (pmm_count es s) =
      (pre @ shrink (bm_size (pmm_bitmap (pmm_count es s))) e # post, place_at e (pmm_count es s))" by blast
  have "me_base e + g_hhdm_offset s \<noteq> 0" using assms(2) es by auto
  then have nz: "bm_map (pmm_bitmap (place_at e (pmm_count es s))) \<noteq> 0"
    by (simp add: place_at_fields pmm_count_fields)
  have len: "length (pre @ shrink (bm_size (pmm_bitmap (pmm_count es s))) e # post) = length es"
    using es(1) by simp
  show ?thesis
    using True assms(3)
    unfolding pmm_initialize_def pl split Let_def
    by (simp only: nz print_memmap_eq len if_False split: if_splits) (simp add: split: prod.splits)
next
  case False
  have "bm_map (pmm_bitmap (pmm_count es s)) = 0"
    using assms(1) scan_map [of es pmm_bitmap_init]
    by (simp add: pmm_count_def Let_def pmm_bitmap_init_def)
  with False place_bitmap_none [of es "pmm_count es s"] show ?thesis
    by (simp add: pmm_initialize_def)
qed

theorem pmm_initialize_outcomes_witness:
  "case pmm_initialize demo_map demo_boot of Inl err \<Rightarrow> False | Inr r \<Rightarrow> True"
  using pmm_initialize_outcomes [of demo_boot demo_map]
  by (auto simp: demo_map_def demo_boot_def pmm_count_def pmm_bitmap_init_def scan_entry_def Let_def ALIGN_UP_def
      split: sum.splits)

section \<open>The storage of the bitmap is not reserved\<close>

text \<open>
  The entry loses \<open>size\<close> bytes, but the bitmap has \<open>size\<close> rows of 8 bytes.  When the bitmap
  lies at the bottom of memory, the first free page is at most page \<open>size / 4096\<close>, which is
  still inside the bitmap.
\<close>

definition reserved_pages :: "pmm_bitmap_t \<Rightarrow> nat" where
  "reserved_pages b = unat (bm_size b) div 4096"

lemma reserved_pages_small:
  assumes "unat (bm_size b) = 4096 * ((unat N div 64 + 4095) div 4096)" "0 < bits b"
  shows "2 * reserved_pages b < unat N" "0 < reserved_pages b" "unat (bm_size b) = 4096 * reserved_pages b"
proof -
  let ?q = "unat N div 64"
  have r: "reserved_pages b = (?q + 4095) div 4096" using assms(1) by (simp add: reserved_pages_def)
  show "unat (bm_size b) = 4096 * reserved_pages b" using assms(1) by (simp add: r)
  with assms(2) show pos: "0 < reserved_pages b" by (simp add: bits_def)
  have "reserved_pages b * 4096 \<le> ?q + 4095" unfolding r by simp
  moreover have "0 < ?q" using pos by (rule_tac ccontr) (simp add: r)
  moreover have "64 * ?q \<le> unat N" by simp
  ultimately show "2 * reserved_pages b < unat N" by linarith
qed

text \<open>The bitmap lies at the bottom of the usable memory: at the direct-map address of its lowest page.\<close>

definition bitmap_at_bottom :: "pmm \<Rightarrow> bool" where
  "bitmap_at_bottom s \<longleftrightarrow> bm_map (pmm_bitmap s) = lowest_address (pmm_bitmap s) + g_hhdm_offset s"

lemma storage_page:
  assumes "bitmap_at_bottom s"
    and "unat (bm_size (pmm_bitmap s)) = 4096 * R" "0 < R" "i \<le> R" "R < bit_cap"
  shows "page_ptr s i \<in> storage (pmm_bitmap s)"
proof -
  have "page_ptr s i - bm_map (pmm_bitmap s) = BIT_TO_PAGE (of_nat i)"
    using assms(1) by (simp add: page_ptr_def bitmap_at_bottom_def)
  moreover have "unat (BIT_TO_PAGE (of_nat i)) = 4096 * i" using assms(4,5) by (intro BIT_TO_PAGE_bit) simp
  ultimately show ?thesis using assms(2-4) by (simp add: storage_def in_region_def)
qed

lemma free_run_one: "free_run b m i 1 \<longleftrightarrow> \<not> page_bit m (bm_map b) i"
  by (simp add: free_run_def)

lemma kalloc_one:
  assumes "bits (pmm_bitmap s) \<le> bit_cap" "sentinel (pmm_bitmap s) (mem s) g"
    and "used_pages (pmm_bitmap s) < total_pages (pmm_bitmap s)"
    and "0 \<in> used_set (pmm_bitmap s) (mem s)" "k \<notin> used_set (pmm_bitmap s) (mem s)" "k < unat (total_pages (pmm_bitmap s))"
  shows "\<exists>i s'. kalloc 1 s = (page_ptr s i, s') \<and> 0 < i \<and> i \<le> k \<and> i \<notin> used_set (pmm_bitmap s) (mem s)
    \<and> (\<forall>j<i. j \<in> used_set (pmm_bitmap s) (mem s))
    \<and> used_set (pmm_bitmap s') (mem s') = insert i (used_set (pmm_bitmap s) (mem s))
    \<and> same_layout s s' \<and> used_pages (pmm_bitmap s') = used_pages (pmm_bitmap s) + 1"
proof -
  let ?b = "pmm_bitmap s"
  have lt: "unat (total_pages ?b) < bits ?b" using assms(2) by (simp add: sentinel_def)
  have free: "free_run ?b (mem s) j 1 \<longleftrightarrow> j \<notin> used_set ?b (mem s)" if "j < unat (total_pages ?b)" for j
    using lt that unfolding free_run_one used_set_def by simp
  have "first_fit ?b (mem s) 1 \<noteq> None"
    using assms(5,6) free [of k] by (auto simp: first_fit_def find_None_iff)
  then obtain i where i: "first_fit ?b (mem s) 1 = Some i" by blast
  have it: "i < unat (total_pages ?b)" using first_fit_run [OF i] by simp
  have iu: "i \<notin> used_set ?b (mem s)" using first_fit_run [OF i] free [OF it] by simp
  have "free_run ?b (mem s) k 1" using free [OF assms(6)] assms(5) by simp
  with first_fit_run [OF i] have ik: "i \<le> k" by (meson not_le)
  have below: "\<forall>j<i. j \<in> used_set ?b (mem s)"
    using first_fit_run [OF i] free it by (metis less_trans unat_1)
  have i0: "0 < i" using iu assms(4) by (cases i) auto
  have "bitmap_sound ?b (mem s)" using assms(1,2) by (auto simp: bitmap_sound_def)
  from kalloc_first_fit [OF this, of 1] have "kalloc 1 s = (page_ptr s i,
      s\<lparr>mem := use_run ?b i 1 (mem s), pmm_bitmap := ?b\<lparr>used_pages := used_pages ?b + 1\<rparr>\<rparr>)"
    using i i0 assms(3) [unfolded not_le [symmetric]] by (simp add: Let_def)
  moreover have "used_set ?b (use_run ?b i 1 (mem s)) = insert i (used_set ?b (mem s))"
    using used_set_use_run [of ?b i 1] assms(1) it lt by simp
  ultimately show ?thesis using i0 ik iu below by (auto simp: same_layout_def)
qed

text \<open>
  The numbers behind a start: the entry e became its upper part, and R pages were reserved, where
  the bitmap has 4096 * R rows.
\<close>

lemma booted_numbers:
  assumes bo: "boot_ok es s" and bt: "booted es s e es' s'"
  defines "R \<equiv> reserved_pages (pmm_bitmap s')" and "e' \<equiv> shrink (bm_size (pmm_bitmap s')) e"
  shows "bits (pmm_bitmap s') \<le> bit_cap" "0 < R" "R < bit_cap" "unat (bm_size (pmm_bitmap s')) = 4096 * R"
    and "bm_map (pmm_bitmap s') = me_base e + g_hhdm_offset s'"
    and "2 * R < unat (total_pages (pmm_bitmap (pmm_count es s)))"
    and "unat (total_pages (pmm_bitmap s')) = unat (total_pages (pmm_bitmap (pmm_count es s))) - R"
    and "e' \<in> set es'" "usable e'" "unat (bm_size (pmm_bitmap s')) \<le> unat (me_length e)"
    and "unat (me_base e') = unat (me_base e) + unat (bm_size (pmm_bitmap s'))"
    and "unat (me_length e') = unat (me_length e) - unat (bm_size (pmm_bitmap s'))"
    and "\<And>x. x \<in> set es' \<Longrightarrow> usable x \<Longrightarrow>
      unat (me_base x) + unat (me_length x) \<le> unat (highest_address (pmm_bitmap (pmm_count es s)))"
proof -
  let ?b1 = "pmm_bitmap (pmm_count es s)" and ?bt = "pmm_bitmap s'"
  let ?sz = "bm_size ?bt"
  from bo have ok: "memmap_ok es" and init: "pmm_bitmap s = pmm_bitmap_init"
    and low: "\<exists>e\<in>set es. usable e \<and> me_base e < 0xffffffff" and pos: "0 < bits ?b1"
    by (auto simp: boot_ok_def Let_def)
  note cn = count_numbers [OF ok init low]
  from bt have f: "bm_map ?bt = me_base e + g_hhdm_offset s'" "bm_size ?bt = bm_size ?b1"
      "total_pages ?bt = total_pages ?b1 - bm_size ?b1 div PAGE_SIZE"
    unfolding booted_def Let_def by metis+
  have bits: "bits ?bt = bits ?b1" by (simp add: bits_def f(2))
  have R0: "R = reserved_pages ?b1" by (simp add: R_def reserved_pages_def f(2))
  note rp = reserved_pages_small [OF cn(5) pos, folded R0]
  show sz: "unat ?sz = 4096 * R" using rp(3) f(2) by simp
  have "R \<le> bits ?bt" unfolding bits using rp(3) by (simp add: bits_def)
  then show Rcap: "R < bit_cap" using cn(6) rp(2,3) by (simp add: bits bits_def)
  show "bits ?bt \<le> bit_cap" using bits cn(6) by simp
  show "0 < R" "2 * R < unat (total_pages ?b1)" "bm_map ?bt = me_base e + g_hhdm_offset s'"
    by - (rule rp(2) rp(1) f(1))+
  have "unat (bm_size ?b1 div PAGE_SIZE) = R" using rp(3) by (simp add: unat_div_distrib)
  moreover from this rp(1) have "bm_size ?b1 div PAGE_SIZE \<le> total_pages ?b1" by (simp add: word_le_nat_alt)
  ultimately show "unat (total_pages ?bt) = unat (total_pages ?b1) - R" unfolding f(3) by (simp add: unat_sub)
  from bt obtain pre post where p: "es = pre @ e # post" "es' = pre @ e' # post" "usable e" "?sz \<le> me_length e"
    unfolding booted_def Let_def e'_def f(2) by blast
  show "e' \<in> set es'" "usable e'" using p by (simp_all add: e'_def shrink_def)
  show le: "unat ?sz \<le> unat (me_length e)" using p(4) by (simp add: word_le_nat_alt)
  have ein: "e \<in> set es" using p(1) by simp
  have "unat (me_base e) + unat (me_length e) \<le> 2 ^ 50" using ok p(3) ein by (auto simp: memmap_ok_def)
  then show ub: "unat (me_base e') = unat (me_base e) + unat ?sz"
    using le unfolding e'_def shrink_def by (simp, subst unat_add_lem [THEN iffD1]) simp_all
  show ul: "unat (me_length e') = unat (me_length e) - unat ?sz"
    using p(4) by (simp add: e'_def shrink_def unat_sub)
  show "unat (me_base x) + unat (me_length x) \<le> unat (highest_address ?b1)" if x: "x \<in> set es'" "usable x" for x
  proof (cases "x = e'")
    case True
    have "unat (me_base e) + unat (me_length e) \<le> unat (highest_address ?b1)" using cn(1) ein p(3) by blast
    then show ?thesis unfolding True ub ul using le by linarith
  next
    case False
    then have "x \<in> set es" using x(1) p(1,2) by auto
    then show ?thesis using cn(1) x(2) by blast
  qed
qed

text \<open>The page behind the last one is used and guards the end of the bitmap.\<close>

lemma booted_guard:
  assumes bo: "boot_ok es s" and bt: "booted es s e es' s'"
    and guard: "unat (total_pages (pmm_bitmap (pmm_count es s))) < bits (pmm_bitmap s')"
  shows "sentinel (pmm_bitmap s') (mem s') (unat (total_pages (pmm_bitmap (pmm_count es s))))"
proof -
  let ?N = "unat (total_pages (pmm_bitmap (pmm_count es s)))" and ?lo = "unat (lowest_address (pmm_bitmap s'))"
  note bn = booted_numbers [OF bo bt]
  from bo have cn: "?N = (unat (highest_address (pmm_bitmap (pmm_count es s))) -
      unat (lowest_address (pmm_bitmap (pmm_count es s)))) div 4096"
    by (intro count_numbers(4)) (auto simp: boot_ok_def Let_def)
  have lo: "?lo = unat (lowest_address (pmm_bitmap (pmm_count es s)))" using bt by (simp add: booted_def Let_def)
  have "\<not> covers x (?lo + 4096 * ?N)" if "x \<in> set es'" "usable x" for x
    using bn(13) [OF that] cn unfolding covers_def lo by linarith
  then have "?N \<in> used_set (pmm_bitmap s') (mem s')" using booted_free_iff [OF bo bt guard] by blast
  then show ?thesis using bn(7) by (simp add: sentinel_used_set)
qed

text \<open>
  What holds after a start whose pages leave one bit of the bitmap spare.
\<close>

lemma start_guarded:
  assumes bo: "boot_ok es s" and r: "pmm_initialize es s = Inr (es', s')"
  defines "R \<equiv> reserved_pages (pmm_bitmap s')"
  assumes spare: "unat (total_pages (pmm_bitmap s')) + R < bits (pmm_bitmap s')"
  shows "bits (pmm_bitmap s') \<le> bit_cap" "0 \<in> used_set (pmm_bitmap s') (mem s')" "0 < R" "R < bit_cap"
    and "R < unat (total_pages (pmm_bitmap s'))" "unat (bm_size (pmm_bitmap s')) = 4096 * R"
    and "sentinel (pmm_bitmap s') (mem s') (unat (total_pages (pmm_bitmap s')) + R)"
proof -
  from pmm_initialize_result [OF bo r] obtain e where bt: "booted es s e es' s'" by blast
  note bn = booted_numbers [OF bo bt, folded R_def]
  have N: "unat (total_pages (pmm_bitmap (pmm_count es s))) = unat (total_pages (pmm_bitmap s')) + R"
    using bn(6,7) by simp
  show "bits (pmm_bitmap s') \<le> bit_cap" "0 < R" "R < bit_cap" "unat (bm_size (pmm_bitmap s')) = 4096 * R"
    by - (rule bn)+
  show "R < unat (total_pages (pmm_bitmap s'))" using bn(6,7) by simp
  show "0 \<in> used_set (pmm_bitmap s') (mem s')" using booted_free_iff [OF bo bt, of 0] spare by simp
  show "sentinel (pmm_bitmap s') (mem s') (unat (total_pages (pmm_bitmap s')) + R)"
    using booted_guard [OF bo bt] spare unfolding N by simp
qed

text \<open>
  The start can leave the bitmap's own storage allocatable.  When the bitmap is at the bottom of the
  usable memory and the page right behind the reserved ones is free, then the first single page
  kalloc hands out after the start lies inside the storage of the bitmap (the entry is shrunk by
  the number of rows, not by the 8 bytes each row takes).
\<close>

theorem kalloc_inside_bitmap:
  assumes "boot_ok es s" "pmm_initialize es s = Inr (es', s')" "bitmap_at_bottom s'"
    and "unat (total_pages (pmm_bitmap s')) + reserved_pages (pmm_bitmap s') < bits (pmm_bitmap s')"
    and "reserved_pages (pmm_bitmap s') \<notin> used_set (pmm_bitmap s') (mem s')"
    and "used_pages (pmm_bitmap s') < total_pages (pmm_bitmap s')"
  shows "\<exists>i s''. kalloc 1 s' = (page_ptr s' i, s'') \<and> 0 < i
    \<and> i \<notin> used_set (pmm_bitmap s') (mem s') \<and> i \<in> used_set (pmm_bitmap s'') (mem s'')
    \<and> page_ptr s' i \<in> storage (pmm_bitmap s')"
proof -
  note sg = start_guarded [OF assms(1,2,4)]
  from kalloc_one [OF sg(1,7) assms(6) sg(2) assms(5) sg(5)] storage_page [OF assms(3) sg(6,3) _ sg(4)]
  show ?thesis by blast
qed

theorem kalloc_inside_bitmap_witness:
  "\<exists>es' s' i s''. pmm_initialize demo_map demo_boot = Inr (es', s') \<and> kalloc 1 s' = (page_ptr s' i, s'')
    \<and> i \<in> used_set (pmm_bitmap s'') (mem s'') \<and> page_ptr s' i \<in> storage (pmm_bitmap s')"
proof -
  from pmm_initialize_booted [OF demo_boot_ok] obtain e es' s'
    where r: "pmm_initialize demo_map demo_boot = Inr (es', s')" and bt: "booted demo_map demo_boot e es' s'" by blast
  note d = demo_booted [OF bt]
  have R: "reserved_pages (pmm_bitmap s') = 1" by (simp add: reserved_pages_def d)
  have "1 \<notin> used_set (pmm_bitmap s') (mem s')"
    using booted_free_iff [OF demo_boot_ok bt, of 1] unfolding d by (simp add: covers_def)
  with kalloc_inside_bitmap [OF demo_boot_ok r] booted_numbers(5) [OF demo_boot_ok bt]
  show ?thesis using r by (auto simp: R d bitmap_at_bottom_def)
qed

end
