(* ===== verification/Printf_Core.thy ===== *)
theory Printf_Core
  imports Console
begin

text \<open>
  The formatting core of libc/stdio/printf.c: the output functions, the integer conversions
  and the padding.  An output function takes the character, the buffer pointer, the index and
  the limit, and acts on a state 's; the pair of the running index \<open>idx\<close> and that state is
  threaded through every routine the way the code threads \<open>idx\<close>.

  A local array with a fill level (\<open>buf\<close>, \<open>len\<close>) is the list of the bytes below the fill
  level: \<open>buf[len++] = c\<close> appends and \<open>len--\<close> drops the last byte.

  \<open>emit\<close> is what every routine does in the end: put the characters of one text, in order.
  The texts themselves (\<open>rev_text\<close>, \<open>ntoa_text\<close>) do not mention the output function.
\<close>

section \<open>Output functions\<close>

type_synonym 's out_fct = "u8 \<Rightarrow> u64 \<Rightarrow> u64 \<Rightarrow> u64 \<Rightarrow> 's \<Rightarrow> 's"

definition out_buffer :: "mem out_fct" where
  "out_buffer character buffer idx maxlen m =
     (if idx < maxlen then m(buffer + idx := character) else m)"

definition out_null :: "'s out_fct" where
  "out_null character buffer idx maxlen s = s"

text \<open>putchar and the function of fctprintf are parameters.\<close>

definition out_char :: "(u8 \<Rightarrow> 's \<Rightarrow> 's) \<Rightarrow> 's out_fct" where
  "out_char putchar character buffer idx maxlen s = (if character \<noteq> 0 then putchar character s else s)"

definition out_fct_wrap :: "(u8 \<Rightarrow> 's \<Rightarrow> 's) \<Rightarrow> 's out_fct" where
  "out_fct_wrap fct character buffer idx maxlen s = (if character \<noteq> 0 then fct character s else s)"

text \<open>The call \<open>out(c, buffer, idx++, maxlen)\<close>.\<close>

definition putc :: "'s out_fct \<Rightarrow> u64 \<Rightarrow> u64 \<Rightarrow> u8 \<Rightarrow> u64 \<times> 's \<Rightarrow> u64 \<times> 's" where
  "putc out buffer maxlen c w = (fst w + 1, out c buffer (fst w) maxlen (snd w))"

definition emit :: "'s out_fct \<Rightarrow> u64 \<Rightarrow> u64 \<Rightarrow> u8 list \<Rightarrow> u64 \<times> 's \<Rightarrow> u64 \<times> 's" where
  "emit out buffer maxlen cs w = fold (putc out buffer maxlen) cs w"

lemma emit_simps [simp]:
  "emit out buffer maxlen [] w = w"
  "emit out buffer maxlen (c # cs) w = emit out buffer maxlen cs (putc out buffer maxlen c w)"
  by (simp_all add: emit_def)

lemma emit_append [simp]:
  "emit out buffer maxlen (cs @ ds) w = emit out buffer maxlen ds (emit out buffer maxlen cs w)"
  by (simp add: emit_def)

lemma fst_putc [simp]: "fst (putc out buffer maxlen c w) = fst w + 1"
  by (simp add: putc_def)

lemma fst_emit [simp]: "fst (emit out buffer maxlen cs w) = fst w + of_nat (length cs)"
  by (induction cs arbitrary: w) (simp_all add: ac_simps)

section \<open>Flags\<close>

definition FLAGS_ZEROPAD :: u32 where "FLAGS_ZEROPAD = 0x001"
definition FLAGS_LEFT :: u32 where "FLAGS_LEFT = 0x002"
definition FLAGS_PLUS :: u32 where "FLAGS_PLUS = 0x004"
definition FLAGS_SPACE :: u32 where "FLAGS_SPACE = 0x008"
definition FLAGS_HASH :: u32 where "FLAGS_HASH = 0x010"
definition FLAGS_UPPERCASE :: u32 where "FLAGS_UPPERCASE = 0x020"
definition FLAGS_CHAR :: u32 where "FLAGS_CHAR = 0x040"
definition FLAGS_SHORT :: u32 where "FLAGS_SHORT = 0x080"
definition FLAGS_LONG :: u32 where "FLAGS_LONG = 0x100"
definition FLAGS_LONG_LONG :: u32 where "FLAGS_LONG_LONG = 0x200"
definition FLAGS_PRECISION :: u32 where "FLAGS_PRECISION = 0x400"
definition FLAGS_ADAPT_EXP :: u32 where "FLAGS_ADAPT_EXP = 0x800"

lemmas flag_defs = FLAGS_ZEROPAD_def FLAGS_LEFT_def FLAGS_PLUS_def FLAGS_SPACE_def FLAGS_HASH_def
  FLAGS_UPPERCASE_def FLAGS_CHAR_def FLAGS_SHORT_def FLAGS_LONG_def FLAGS_LONG_LONG_def
  FLAGS_PRECISION_def FLAGS_ADAPT_EXP_def

definition has :: "u32 \<Rightarrow> u32 \<Rightarrow> bool" where
  "has flags f \<longleftrightarrow> flags AND f \<noteq> 0"

lemma has_zero [simp]: "\<not> has 0 f"
  by (simp add: has_def)

lemma has_or [simp]: "has (flags OR g) f \<longleftrightarrow> has flags f \<or> has g f"
proof -
  have "(flags OR g) AND f = (flags AND f) OR (g AND f)"
    by (rule bit_word_eqI) (auto simp: bit_and_iff bit_or_iff)
  then show ?thesis by (simp add: has_def or_eq_0_iff)
qed

lemma has_or_left: "has flags (f OR g) \<longleftrightarrow> has flags f \<or> has flags g"
  using has_or [of f g flags] by (simp add: has_def and.commute)

lemma has_and_not: "f AND NOT g = f \<Longrightarrow> has (flags AND NOT g) f \<longleftrightarrow> has flags f"
  unfolding has_def by (metis and.assoc and.commute)

lemma has_and_not_same: "f AND NOT g = 0 \<Longrightarrow> \<not> has (flags AND NOT g) f"
  unfolding has_def by (metis and.assoc and.commute and_zero_eq)

section \<open>Padding and reversal\<close>

text \<open>\<open>for (i = len; i < width; i++) out(' ')\<close>, and the loops \<open>while (l++ < width) out(' ')\<close>.\<close>

function spaces :: "'s out_fct \<Rightarrow> u64 \<Rightarrow> u64 \<Rightarrow> nat \<Rightarrow> nat \<Rightarrow> u64 \<times> 's \<Rightarrow> u64 \<times> 's" where
  "spaces out buffer maxlen i n w =
     (if i < n then spaces out buffer maxlen (Suc i) n (putc out buffer maxlen 0x20 w) else w)"
  by pat_completeness auto
termination by (relation "measure (\<lambda>(out, buffer, maxlen, i, n, w). n - i)") auto

text \<open>\<open>while (len) out(buf[--len])\<close>.\<close>

fun put_reverse :: "'s out_fct \<Rightarrow> u64 \<Rightarrow> u64 \<Rightarrow> u8 list \<Rightarrow> nat \<Rightarrow> u64 \<times> 's \<Rightarrow> u64 \<times> 's" where
  "put_reverse out buffer maxlen buf 0 w = w"
| "put_reverse out buffer maxlen buf (Suc len) w =
     put_reverse out buffer maxlen buf len (putc out buffer maxlen (buf ! len) w)"

text \<open>\<open>while (idx - start_idx < width) out(' ')\<close>.\<close>

function pad_right :: "'s out_fct \<Rightarrow> u64 \<Rightarrow> u64 \<Rightarrow> u64 \<Rightarrow> u32 \<Rightarrow> u64 \<times> 's \<Rightarrow> u64 \<times> 's" where
  "pad_right out buffer maxlen start_idx width w =
     (if fst w - start_idx < ucast width
      then pad_right out buffer maxlen start_idx width (putc out buffer maxlen 0x20 w) else w)"
  by pat_completeness auto
termination
proof (relation "measure (\<lambda>(out, buffer, maxlen, start_idx, width, w). unat (width :: u32) - unat (fst w - start_idx))")
  fix out :: "'s out_fct" and buffer maxlen start_idx :: u64 and width :: u32 and w :: "u64 \<times> 's"
  assume lt: "fst w - start_idx < ucast width"
  have e: "fst (putc out buffer maxlen 0x20 w) - start_idx = (fst w - start_idx) + 1" by simp
  have l: "unat (fst w - start_idx) < unat width" using lt by (simp add: word_less_nat_alt)
  then have "Suc (unat (fst w - start_idx)) < 2 ^ 64" using unat_u32_lt [of width] by (simp del: unat_u32_lt)
  then have "unat ((fst w - start_idx) + 1) = Suc (unat (fst w - start_idx))"
    by (simp add: unat_word_ariths)
  then have "unat (fst (putc out buffer maxlen 0x20 w) - start_idx) = Suc (unat (fst w - start_idx))"
    unfolding e .
  with l show "((out, buffer, maxlen, start_idx, width, putc out buffer maxlen 0x20 w),
      out, buffer, maxlen, start_idx, width, w)
    \<in> measure (\<lambda>(out, buffer, maxlen, start_idx, width, w). unat (width :: u32) - unat (fst w - start_idx))"
    by (simp only: in_measure case_prod_conv)
qed simp

declare spaces.simps [simp del] pad_right.simps [simp del]

definition out_rev :: "'s out_fct \<Rightarrow> u64 \<Rightarrow> u64 \<Rightarrow> u8 list \<Rightarrow> u32 \<Rightarrow> u32 \<Rightarrow> u64 \<times> 's \<Rightarrow> u64 \<times> 's" where
  "out_rev out buffer maxlen buf width flags w =
     (let start_idx = fst w; len = length buf;
          w1 = (if \<not> has flags FLAGS_LEFT \<and> \<not> has flags FLAGS_ZEROPAD
                then spaces out buffer maxlen len (unat width) w else w);
          w2 = put_reverse out buffer maxlen buf len w1
      in if has flags FLAGS_LEFT then pad_right out buffer maxlen start_idx width w2 else w2)"

lemma spaces_emit: "spaces out buffer maxlen i n w = emit out buffer maxlen (replicate (n - i) 0x20) w"
proof (induction out buffer maxlen i n w rule: spaces.induct)
  case (1 out buffer maxlen i n w)
  show ?case
  proof (cases "i < n")
    case True
    then have "n - i = Suc (n - Suc i)" by simp
    with True 1 show ?thesis by (subst spaces.simps) simp
  next
    case False
    then show ?thesis by (subst spaces.simps) simp
  qed
qed

lemma put_reverse_emit:
  "len \<le> length buf \<Longrightarrow> put_reverse out buffer maxlen buf len w = emit out buffer maxlen (rev (take len buf)) w"
  by (induction len arbitrary: w) (simp_all add: take_Suc_conv_app_nth)

lemma pad_right_emit:
  "pad_right out buffer maxlen start_idx width w =
     emit out buffer maxlen (replicate (unat width - unat (fst w - start_idx)) 0x20) w"
proof (induction out buffer maxlen start_idx width w rule: pad_right.induct)
  case (1 out buffer maxlen start_idx width w)
  show ?case
  proof (cases "fst w - start_idx < ucast width")
    case True
    then have l: "unat (fst w - start_idx) < unat width" by (simp add: word_less_nat_alt)
    then have "Suc (unat (fst w - start_idx)) < 2 ^ 64" using unat_u32_lt [of width] by (simp del: unat_u32_lt)
    then have s: "unat (1 + (fst w - start_idx)) = Suc (unat (fst w - start_idx))"
      by (simp add: unat_word_ariths)
    have e: "fst (putc out buffer maxlen 0x20 w) - start_idx = 1 + (fst w - start_idx)" by simp
    have "unat width - unat (fst w - start_idx) = Suc (unat width - Suc (unat (fst w - start_idx)))"
      using l by simp
    with True 1 [OF True] show ?thesis by (subst pad_right.simps) (simp only: e s if_True replicate_Suc emit_simps)
  next
    case False
    then have "unat width \<le> unat (fst w - start_idx)" by (simp add: word_less_nat_alt)
    with False show ?thesis by (subst pad_right.simps) simp
  qed
qed

definition rev_text :: "u8 list \<Rightarrow> u32 \<Rightarrow> u32 \<Rightarrow> u8 list" where
  "rev_text buf width flags =
     (let pad = replicate (unat width - length buf) 0x20 in
      if has flags FLAGS_LEFT then rev buf @ pad
      else if has flags FLAGS_ZEROPAD then rev buf else pad @ rev buf)"

lemma out_rev_emit:
  assumes "length buf < 18446744073709551616"
  shows "out_rev out buffer maxlen buf width flags w = emit out buffer maxlen (rev_text buf width flags) w"
  using assms
  by (simp add: out_rev_def rev_text_def Let_def spaces_emit put_reverse_emit pad_right_emit)

section \<open>Integers\<close>

definition PRINTF_NTOA_BUFFER_SIZE :: nat where [simp]: "PRINTF_NTOA_BUFFER_SIZE = 32"

text \<open>\<open>while (len < n && len < PRINTF_NTOA_BUFFER_SIZE) buf[len++] = '0'\<close>.\<close>

function zeros :: "nat \<Rightarrow> u8 list \<Rightarrow> u8 list" where
  "zeros n buf =
     (if length buf < n \<and> length buf < PRINTF_NTOA_BUFFER_SIZE then zeros n (buf @ [0x30]) else buf)"
  by pat_completeness auto
termination by (relation "measure (\<lambda>(n, buf). n - length buf)") auto

declare zeros.simps [simp del]

definition push_below :: "u8 \<Rightarrow> u8 list \<Rightarrow> u8 list" where
  "push_below c buf = (if length buf < PRINTF_NTOA_BUFFER_SIZE then buf @ [c] else buf)"

definition ntoa_hash :: "u8 list \<Rightarrow> u32 \<Rightarrow> u32 \<Rightarrow> u32 \<Rightarrow> u32 \<Rightarrow> u8 list" where
  "ntoa_hash buf base prec width flags =
     (let len = length buf;
          b1 = (if \<not> has flags FLAGS_PRECISION \<and> len \<noteq> 0 \<and> (len = unat prec \<or> len = unat width)
                then (let b = butlast buf in if length b \<noteq> 0 \<and> base = 16 then butlast b else b)
                else buf);
          b2 = (if base = 16 \<and> \<not> has flags FLAGS_UPPERCASE \<and> length b1 < PRINTF_NTOA_BUFFER_SIZE then b1 @ [0x78]
                else if base = 16 \<and> has flags FLAGS_UPPERCASE \<and> length b1 < PRINTF_NTOA_BUFFER_SIZE then b1 @ [0x58]
                else if base = 2 \<and> length b1 < PRINTF_NTOA_BUFFER_SIZE then b1 @ [0x62]
                else b1)
      in push_below 0x30 b2)"

definition ntoa_sign :: "u8 list \<Rightarrow> bool \<Rightarrow> u32 \<Rightarrow> u8 list" where
  "ntoa_sign buf negative flags =
     (if length buf < PRINTF_NTOA_BUFFER_SIZE then
        if negative then buf @ [0x2D]
        else if has flags FLAGS_PLUS then buf @ [0x2B]
        else if has flags FLAGS_SPACE then buf @ [0x20]
        else buf
      else buf)"

definition ntoa_fill :: "u8 list \<Rightarrow> bool \<Rightarrow> u32 \<Rightarrow> u32 \<Rightarrow> u32 \<Rightarrow> u32 \<Rightarrow> u8 list \<times> u32" where
  "ntoa_fill buf negative base prec width flags =
     (let (b1, width1) =
        (if \<not> has flags FLAGS_LEFT then
           let width' = (if width \<noteq> 0 \<and> has flags FLAGS_ZEROPAD
                            \<and> (negative \<or> has flags (FLAGS_PLUS OR FLAGS_SPACE)) then width - 1 else width);
               b = zeros (unat prec) buf
           in (if has flags FLAGS_ZEROPAD then zeros (unat width') b else b, width')
         else (buf, width));
          b2 = (if has flags FLAGS_HASH then ntoa_hash b1 base prec width1 flags else b1)
      in (ntoa_sign b2 negative flags, width1))"

definition ntoa_format ::
  "'s out_fct \<Rightarrow> u64 \<Rightarrow> u64 \<Rightarrow> u8 list \<Rightarrow> bool \<Rightarrow> u32 \<Rightarrow> u32 \<Rightarrow> u32 \<Rightarrow> u32 \<Rightarrow> u64 \<times> 's \<Rightarrow> u64 \<times> 's" where
  "ntoa_format out buffer maxlen buf negative base prec width flags w =
     (let (b, width') = ntoa_fill buf negative base prec width flags
      in out_rev out buffer maxlen b width' flags w)"

definition digit_char :: "u8 \<Rightarrow> u32 \<Rightarrow> u8" where
  "digit_char digit flags =
     (if digit < 10 then 0x30 + digit else (if has flags FLAGS_UPPERCASE then 0x41 else 0x61) + digit - 10)"

text \<open>The \<open>do ... while (value && len < PRINTF_NTOA_BUFFER_SIZE)\<close> loop.\<close>

function ntoa_digits :: "u64 \<Rightarrow> u64 \<Rightarrow> u32 \<Rightarrow> u8 list \<Rightarrow> u8 list" where
  "ntoa_digits value base flags buf =
     (let buf' = buf @ [digit_char (ucast (value mod base)) flags];
          value' = value div base
      in if value' \<noteq> 0 \<and> length buf' < PRINTF_NTOA_BUFFER_SIZE then ntoa_digits value' base flags buf' else buf')"
  by pat_completeness auto
termination by (relation "measure (\<lambda>(value, base, flags, buf). 32 - length buf)") auto

declare ntoa_digits.simps [simp del]

definition ntoa_long ::
  "'s out_fct \<Rightarrow> u64 \<Rightarrow> u64 \<Rightarrow> u64 \<Rightarrow> bool \<Rightarrow> u64 \<Rightarrow> u32 \<Rightarrow> u32 \<Rightarrow> u32 \<Rightarrow> u64 \<times> 's \<Rightarrow> u64 \<times> 's" where
  "ntoa_long out buffer maxlen value negative base prec width flags w =
     (let flags' = (if value = 0 then flags AND NOT FLAGS_HASH else flags);
          buf = (if \<not> has flags' FLAGS_PRECISION \<or> value \<noteq> 0 then ntoa_digits value base flags' [] else [])
      in ntoa_format out buffer maxlen buf negative (ucast base) prec width flags' w)"

text \<open>On x86_64 \<open>long long\<close> has the 64 bits of \<open>long\<close>.\<close>

definition ntoa_long_long ::
  "'s out_fct \<Rightarrow> u64 \<Rightarrow> u64 \<Rightarrow> u64 \<Rightarrow> bool \<Rightarrow> u64 \<Rightarrow> u32 \<Rightarrow> u32 \<Rightarrow> u32 \<Rightarrow> u64 \<times> 's \<Rightarrow> u64 \<times> 's" where
  "ntoa_long_long out buffer maxlen value negative base prec width flags w =
     (let flags' = (if value = 0 then flags AND NOT FLAGS_HASH else flags);
          buf = (if \<not> has flags' FLAGS_PRECISION \<or> value \<noteq> 0 then ntoa_digits value base flags' [] else [])
      in ntoa_format out buffer maxlen buf negative (ucast base) prec width flags' w)"

section \<open>The text of an integer\<close>

definition ntoa_text :: "u64 \<Rightarrow> bool \<Rightarrow> u64 \<Rightarrow> u32 \<Rightarrow> u32 \<Rightarrow> u32 \<Rightarrow> u8 list" where
  "ntoa_text value negative base prec width flags =
     (let flags' = (if value = 0 then flags AND NOT FLAGS_HASH else flags);
          buf = (if \<not> has flags' FLAGS_PRECISION \<or> value \<noteq> 0 then ntoa_digits value base flags' [] else []);
          (b, width') = ntoa_fill buf negative (ucast base) prec width flags'
      in rev_text b width' flags')"

lemma zeros_replicate:
  "zeros n buf = buf @ replicate (min n 32 - length buf) 0x30"
proof (induction n buf rule: zeros.induct)
  case (1 n buf)
  show ?case
  proof (cases "length buf < n \<and> length buf < 32")
    case True
    then have "min n 32 - length buf = Suc (min n 32 - Suc (length buf))" by auto
    with True 1 show ?thesis by (subst zeros.simps) simp
  next
    case False
    then have "min n 32 - length buf = 0" by auto
    moreover have "zeros n buf = buf" using False by (subst zeros.simps) auto
    ultimately show ?thesis by simp
  qed
qed

lemma length_zeros: "length buf \<le> 32 \<Longrightarrow> length (zeros n buf) \<le> 32"
  by (simp add: zeros_replicate)

lemma length_ntoa_digits:
  "length buf < 32 \<Longrightarrow> length (ntoa_digits v base flags buf) \<le> 32"
proof (induction v base flags buf rule: ntoa_digits.induct)
  case (1 v base flags buf)
  then show ?case by (subst ntoa_digits.simps) (auto simp: Let_def)
qed

lemma length_ntoa_hash:
  assumes "length buf \<le> 32"
  shows "length (ntoa_hash buf base prec width flags) \<le> 32"
proof -
  have "length (push_below c b) \<le> 32" if "length b \<le> 32" for c b using that by (simp add: push_below_def)
  moreover have "length (butlast b) \<le> 32" if "length b \<le> 32" for b :: "u8 list" using that by simp
  ultimately show ?thesis using assms unfolding ntoa_hash_def Let_def by (auto simp del: length_butlast)
qed

lemma length_ntoa_sign: "length buf \<le> 32 \<Longrightarrow> length (ntoa_sign buf negative flags) \<le> 32"
  by (simp add: ntoa_sign_def)

text \<open>No conversion of an integer ever fills more than the 32 bytes of its buffer.\<close>

lemma length_ntoa_fill:
  assumes "length buf \<le> 32"
  shows "length (fst (ntoa_fill buf negative base prec width flags)) \<le> 32"
  unfolding ntoa_fill_def Let_def
  by (simp add: assms length_zeros length_ntoa_hash length_ntoa_sign)

lemma ntoa_format_emit:
  assumes "length buf \<le> 32" "ntoa_fill buf negative base prec width flags = (b, width')"
  shows "ntoa_format out buffer maxlen buf negative base prec width flags w =
    emit out buffer maxlen (rev_text b width' flags) w"
  using length_ntoa_fill [OF assms(1), of negative base prec width flags] assms(2)
  by (simp add: ntoa_format_def out_rev_emit)

lemma ntoa_long_emit:
  "ntoa_long out buffer maxlen value negative base prec width flags w =
     emit out buffer maxlen (ntoa_text value negative base prec width flags) w"
proof -
  have "length (ntoa_digits value base f []) \<le> 32" for f by (rule length_ntoa_digits) simp
  then show ?thesis
    unfolding ntoa_long_def ntoa_text_def Let_def
    by (auto split: prod.splits simp: ntoa_format_emit)
qed

lemma ntoa_long_long_emit:
  "ntoa_long_long out buffer maxlen value negative base prec width flags w =
     emit out buffer maxlen (ntoa_text value negative base prec width flags) w"
  using ntoa_long_emit unfolding ntoa_long_long_def ntoa_long_def .

section \<open>Digits\<close>

text \<open>The digits of a number, least significant first, as arithmetic defines them.\<close>

function digits_of :: "nat \<Rightarrow> nat \<Rightarrow> nat list" where
  "digits_of b n = (if b < 2 \<or> n < b then [n] else n mod b # digits_of b (n div b))"
  by pat_completeness auto
termination by (relation "measure snd") auto

declare digits_of.simps [simp del]

lemma digits_of_value: "foldr (\<lambda>d acc. d + b * acc) (digits_of b n) 0 = n"
proof (induction b n rule: digits_of.induct)
  case (1 b n)
  show ?case
  proof (cases "b < 2 \<or> n < b")
    case True
    then show ?thesis by (subst digits_of.simps) simp
  next
    case False
    with 1 show ?thesis by (subst digits_of.simps) (simp add: mult.commute)
  qed
qed

lemma digits_of_bound: "2 \<le> b \<Longrightarrow> d \<in> set (digits_of b n) \<Longrightarrow> d < b"
proof (induction b n rule: digits_of.induct)
  case (1 b n)
  show ?case
  proof (cases "n < b")
    case True
    with 1 show ?thesis by (subst (asm) digits_of.simps) simp
  next
    case False
    with 1 show ?thesis by (subst (asm) (2) digits_of.simps) auto
  qed
qed

lemma digits_of_length: "2 \<le> b \<Longrightarrow> n < b ^ Suc k \<Longrightarrow> length (digits_of b n) \<le> Suc k"
proof (induction k arbitrary: n)
  case 0
  then show ?case by (subst digits_of.simps) simp
next
  case (Suc k)
  have "n div b < b ^ Suc k" using Suc.prems by (intro less_mult_imp_div_less) (simp add: mult.commute)
  with Suc show ?case by (subst digits_of.simps) simp
qed

definition digit_byte :: "u32 \<Rightarrow> nat \<Rightarrow> u8" where
  "digit_byte flags d = (if d < 10 then 0x30 + of_nat d
     else (if has flags FLAGS_UPPERCASE then 0x41 else 0x61) + of_nat d - 10)"

lemma digit_char_byte:
  assumes "d < 256"
  shows "digit_char (of_nat d) flags = digit_byte flags d"
  using assms by (simp add: digit_char_def digit_byte_def word_less_nat_alt unat_of_nat)

text \<open>The loop writes the first 32 digits, least significant first.\<close>

lemma ntoa_digits_take:
  "2 \<le> unat base \<Longrightarrow> unat base < 256 \<Longrightarrow> length buf < 32 \<Longrightarrow>
   ntoa_digits v base flags buf =
    buf @ map (digit_byte flags) (take (32 - length buf) (digits_of (unat base) (unat v)))"
proof (induction v base flags buf rule: ntoa_digits.induct)
  case (1 v base flags buf)
  let ?d = "digit_char (ucast (v mod base)) flags"
  have dm: "ucast (v mod base) = (of_nat (unat v mod unat base) :: u8)"
    by (simp add: unat_mod_distrib [symmetric])
  have "unat v mod unat base < 256" using "1.prems" by (intro less_trans [OF mod_less_divisor]) simp_all
  then have d: "?d = digit_byte flags (unat v mod unat base)" unfolding dm by (rule digit_char_byte)
  have s: "32 - length buf = Suc (31 - length buf)" using "1.prems" by simp
  have z: "v div base = 0 \<longleftrightarrow> unat v < unat base"
  proof -
    have "v div base = 0 \<longleftrightarrow> unat v div unat base = 0" by (simp add: unat_div_distrib [symmetric] unat_eq_zero)
    then show ?thesis using "1.prems" by (simp add: div_eq_0_iff)
  qed
  show ?case
  proof (cases "v div base \<noteq> 0 \<and> Suc (length buf) < 32")
    case True
    then have n: "\<not> (unat base < 2 \<or> unat v < unat base)" using z "1.prems" by simp
    have "ntoa_digits v base flags buf = ntoa_digits (v div base) base flags (buf @ [?d])"
      using True by (subst ntoa_digits.simps) (simp add: Let_def)
    also have "\<dots> = (buf @ [?d]) @ map (digit_byte flags)
        (take (32 - length (buf @ [?d])) (digits_of (unat base) (unat (v div base))))"
      using True "1.prems" by (intro "1.IH") (simp_all add: Let_def)
    also have "\<dots> = buf @ map (digit_byte flags) (take (32 - length buf) (digits_of (unat base) (unat v)))"
      unfolding s using n by (subst (2) digits_of.simps) (simp add: d unat_div_distrib)
    finally show ?thesis .
  next
    case False
    have r: "ntoa_digits v base flags buf = buf @ [?d]"
      using False by (subst ntoa_digits.simps) (auto simp: Let_def)
    from False consider "unat v < unat base" | "length buf = 31" using z "1.prems" by fastforce
    then show ?thesis
    proof cases
      case 1
      then show ?thesis unfolding r s by (subst digits_of.simps) (simp add: d)
    next
      case 2
      then show ?thesis unfolding r s using "1.prems" by (subst digits_of.simps) (simp add: d)
    qed
  qed
qed

lemma digits_of_nonempty [simp]: "digits_of b n \<noteq> []"
  by (subst digits_of.simps) simp

lemma nth_digits_of:
  "2 \<le> b \<Longrightarrow> i < length (digits_of b n) \<Longrightarrow> digits_of b n ! i = n div b ^ i mod b"
proof (induction i arbitrary: n)
  case 0
  then show ?case by (subst digits_of.simps) simp
next
  case (Suc i)
  show ?case
  proof (cases "n < b")
    case True
    with Suc.prems show ?thesis by (subst (asm) digits_of.simps) simp
  next
    case False
    with Suc.prems have l: "i < length (digits_of b (n div b))" by (subst (asm) digits_of.simps) simp
    have "digits_of b n ! Suc i = digits_of b (n div b) ! i"
      using False Suc.prems(1) by (subst digits_of.simps) simp
    also have "\<dots> = n div b ^ Suc i mod b" using Suc.IH [OF Suc.prems(1) l] by (simp add: div_mult2_eq)
    finally show ?thesis .
  qed
qed

lemma length_digits_of_ge: "2 \<le> b \<Longrightarrow> b ^ k \<le> n \<Longrightarrow> k < length (digits_of b n)"
proof (induction k arbitrary: n)
  case (Suc k)
  have b0: "0 < b" using Suc.prems(1) by simp
  have "b ^ k \<le> n div b" using Suc.prems b0 by (simp add: less_eq_div_iff_mult_less_eq mult.commute)
  moreover have "b \<le> n"
  proof -
    have "b * 1 \<le> b * b ^ k" using b0 by (intro mult_le_mono2) (simp add: Suc_le_eq)
    also have "\<dots> \<le> n" using Suc.prems(2) by simp
    finally show ?thesis by simp
  qed
  ultimately show ?case using Suc by (subst digits_of.simps) simp
qed simp

section \<open>The layout of an integer\<close>

definition sign_text :: "bool \<Rightarrow> u32 \<Rightarrow> u8 list" where
  "sign_text negative flags =
     (if negative then [0x2D] else if has flags FLAGS_PLUS then [0x2B]
      else if has flags FLAGS_SPACE then [0x20] else [])"

definition numeral_text :: "u32 \<Rightarrow> nat \<Rightarrow> nat \<Rightarrow> u8 list" where
  "numeral_text flags b n = rev (map (digit_byte flags) (digits_of b n))"

text \<open>
  The layout of a conversion: sign, zeros up to the precision (or up to the width, with the
  flag 0), digits, and blanks up to the width on the side the flag - tells.
\<close>

definition int_text :: "bool \<Rightarrow> u8 list \<Rightarrow> u32 \<Rightarrow> u32 \<Rightarrow> u32 \<Rightarrow> u8 list" where
  "int_text negative ds prec width flags =
     (let sg = sign_text negative flags;
          z = (if has flags FLAGS_LEFT then 0
               else max (unat prec - length ds)
                        (if has flags FLAGS_ZEROPAD then unat width - (length sg + length ds) else 0));
          body = sg @ replicate z 0x30 @ ds;
          pad = replicate (unat width - length body) 0x20
      in if has flags FLAGS_LEFT then body @ pad
         else if has flags FLAGS_ZEROPAD then body else pad @ body)"

lemma sign_text_length: "length (sign_text negative flags) =
    (if negative \<or> has flags (FLAGS_PLUS OR FLAGS_SPACE) then 1 else 0)"
  by (simp add: sign_text_def has_or_left)

lemma ntoa_sign_text: "length buf < 32 \<or> sign_text negative flags = [] \<Longrightarrow>
    ntoa_sign buf negative flags = buf @ rev (sign_text negative flags)"
  by (auto simp: ntoa_sign_def sign_text_def split: if_splits)

lemma unat_pred32: "w \<noteq> 0 \<Longrightarrow> unat (w - 1 :: u32) = unat w - 1"
  by (rule unat_minus_one)

text \<open>
  \<open>ntoa_fill\<close> without the hash flag, for a precision and a width that the buffer can hold.
\<close>

lemma ntoa_fill_layout:
  assumes "length buf \<le> 31" "unat prec \<le> 31" "unat width \<le> 32" "\<not> has flags FLAGS_HASH"
    and fill: "ntoa_fill buf negative base prec width flags = (b, width')"
  shows "rev_text b width' flags = int_text negative (rev buf) prec width flags"
proof -
  let ?sg = "sign_text negative flags"
  let ?n = "length buf" and ?m = "max (length buf) (unat prec)"
  have sgl: "length ?sg \<le> 1" by (simp add: sign_text_length)
  show ?thesis
  proof (cases "has flags FLAGS_LEFT")
    case True
    with fill assms(4) have "b = ntoa_sign buf negative flags" "width' = width"
      by (simp_all add: ntoa_fill_def)
    with True assms(1) show ?thesis by (simp add: ntoa_sign_text rev_text_def int_text_def Let_def)
  next
    case notleft: False
    have z1: "zeros (unat prec) buf = buf @ replicate (unat prec - ?n) 0x30"
      using assms(2) by (simp add: zeros_replicate)
    show ?thesis
    proof (cases "has flags FLAGS_ZEROPAD")
      case False
      with fill assms(4) notleft z1 have "b = ntoa_sign (buf @ replicate (unat prec - ?n) 0x30) negative flags"
          and w: "width' = width"
        by (simp_all add: ntoa_fill_def Let_def)
      moreover have "length (buf @ replicate (unat prec - ?n) (0x30 :: u8)) < 32" using assms(1,2) by simp
      ultimately have "b = (buf @ replicate (unat prec - ?n) 0x30) @ rev ?sg" using ntoa_sign_text by blast
      with w False notleft show ?thesis
        by (simp add: rev_text_def int_text_def Let_def ac_simps)
    next
      case True
      let ?w = "if width \<noteq> 0 \<and> (negative \<or> has flags (FLAGS_PLUS OR FLAGS_SPACE)) then width - 1 else width"
      have uw: "unat ?w = unat width - length ?sg" by (simp add: sign_text_length unat_pred32)
      let ?z = "max (unat prec - ?n) (unat width - length ?sg - ?n)"
      from fill assms(4) notleft True have b: "b = ntoa_sign (zeros (unat ?w) (zeros (unat prec) buf)) negative flags"
        by (auto simp: ntoa_fill_def Let_def split: if_splits)
      have "zeros (unat ?w) (zeros (unat prec) buf) = buf @ replicate ?z 0x30"
      proof -
        have "min (unat ?w) 32 = unat width - length ?sg" unfolding uw using assms(3) by simp
        moreover have "(unat prec - ?n) + (unat width - length ?sg - (?n + (unat prec - ?n))) = ?z" by linarith
        ultimately show ?thesis unfolding z1 zeros_replicate [of "unat ?w"] by (simp add: replicate_add [symmetric])
      qed
      moreover have "length (buf @ replicate ?z (0x30 :: u8)) < 32 \<or> ?sg = []"
        using assms(1-3) by (cases "?sg") (auto simp: max_def)
      ultimately have "b = (buf @ replicate ?z 0x30) @ rev ?sg" unfolding b using ntoa_sign_text by metis
      with True notleft show ?thesis
        by (simp add: rev_text_def int_text_def Let_def ac_simps)
    qed
  qed
qed

lemma digits_of_u64_le:
  assumes "2 \<le> b" shows "length (digits_of b (unat (v :: u64))) \<le> 64"
proof -
  have "(2 :: nat) ^ 64 \<le> b ^ 64" using assms by (intro power_mono) simp_all
  then have le: "(18446744073709551616 :: nat) \<le> b ^ Suc 63" by simp
  have "unat v < b ^ Suc 63" by (rule less_le_trans [OF unat_u64_lt le])
  from digits_of_length [OF assms this] show ?thesis by simp
qed

lemma has_clear_hash [simp]:
  "\<not> has (flags AND NOT FLAGS_HASH) FLAGS_HASH"
  "has (flags AND NOT FLAGS_HASH) FLAGS_ZEROPAD = has flags FLAGS_ZEROPAD"
  "has (flags AND NOT FLAGS_HASH) FLAGS_LEFT = has flags FLAGS_LEFT"
  "has (flags AND NOT FLAGS_HASH) FLAGS_PLUS = has flags FLAGS_PLUS"
  "has (flags AND NOT FLAGS_HASH) FLAGS_SPACE = has flags FLAGS_SPACE"
  "has (flags AND NOT FLAGS_HASH) FLAGS_UPPERCASE = has flags FLAGS_UPPERCASE"
  "has (flags AND NOT FLAGS_HASH) FLAGS_PRECISION = has flags FLAGS_PRECISION"
  unfolding flag_defs by (rule has_and_not_same has_and_not, simp)+

lemma int_text_clear_hash [simp]:
  "int_text negative ds prec width (flags AND NOT FLAGS_HASH) = int_text negative ds prec width flags"
  by (simp add: int_text_def sign_text_def)

lemma numeral_text_clear_hash [simp]:
  "numeral_text (flags AND NOT FLAGS_HASH) b n = numeral_text flags b n"
  by (simp add: numeral_text_def digit_byte_def cong: map_cong)

lemma ntoa_text_layout:
  assumes "2 \<le> unat base" "unat base \<le> 16" "length (digits_of (unat base) (unat v)) \<le> 31"
    and "unat prec \<le> 31" "unat width \<le> 32" "\<not> has flags FLAGS_HASH \<or> v = 0"
  shows "ntoa_text v negative base prec width flags =
    int_text negative (if has flags FLAGS_PRECISION \<and> v = 0 then [] else numeral_text flags (unat base) (unat v))
      prec width flags"
proof -
  let ?f = "if v = 0 then flags AND NOT FLAGS_HASH else flags"
  let ?buf = "if \<not> has ?f FLAGS_PRECISION \<or> v \<noteq> 0 then ntoa_digits v base ?f [] else []"
  let ?ds = "if has flags FLAGS_PRECISION \<and> v = 0 then [] else numeral_text flags (unat base) (unat v)"
  have dg: "ntoa_digits v base ?f [] = map (digit_byte ?f) (digits_of (unat base) (unat v))"
    using assms(1-3) by (subst ntoa_digits_take) simp_all
  then have rb: "rev ?buf = ?ds"
    using numeral_text_clear_hash [of flags "unat base" "unat v"] by (auto simp: numeral_text_def)
  have "length ?buf \<le> 31" using dg assms(3) by simp
  moreover obtain b width' where f: "ntoa_fill ?buf negative (ucast base) prec width ?f = (b, width')" by fastforce
  moreover have "\<not> has ?f FLAGS_HASH" using assms(6) by auto
  ultimately have "rev_text b width' ?f = int_text negative (rev ?buf) prec width ?f"
    using assms(4,5) by (intro ntoa_fill_layout)
  then show ?thesis unfolding rb using f by (simp add: ntoa_text_def Let_def)
qed

lemma digit_byte_nonzero: "d < 16 \<Longrightarrow> digit_byte flags d \<noteq> 0"
proof -
  assume "d < 16"
  then have "d \<in> {0, 1, 2, 3, 4, 5, 6, 7} \<or> d - 8 \<in> {0, 1, 2, 3, 4, 5, 6, 7} \<and> d = 8 + (d - 8)" by auto
  then show ?thesis by (elim disjE conjE; auto simp: digit_byte_def)
qed

text \<open>
  C34. Layout of an integer: for a base up to 16 and a value of at most 31 digits, a precision up
  to 31, a width up to 32 and no # flag, _ntoa_long puts the sign, the zeros and the digits of
  the positional notation of the value, padded with blanks to the width, in this order
  (with the flag - the zeros of the precision are left out, which the standard would print).
\<close>

theorem ntoa_long_layout:
  assumes "2 \<le> unat base" "unat base \<le> 16" "length (digits_of (unat base) (unat v)) \<le> 31"
    and "unat prec \<le> 31" "unat width \<le> 32" "\<not> has flags FLAGS_HASH \<or> v = 0"
  shows "ntoa_long out buffer maxlen v negative base prec width flags w =
    emit out buffer maxlen
      (int_text negative (if has flags FLAGS_PRECISION \<and> v = 0 then [] else numeral_text flags (unat base) (unat v))
         prec width flags) w"
  unfolding ntoa_long_emit by (simp only: ntoa_text_layout [OF assms])

theorem ntoa_long_layout_witness:
  "ntoa_long out_buffer 0 100 42 True 10 0 6 FLAGS_ZEROPAD (0, (\<lambda>_. 0)) = emit out_buffer 0 100 (bytes_of ''-00042'') (0, (\<lambda>_. 0))
    \<and> ntoa_long out_buffer 0 100 0xBEEF False 16 6 8 0 (0, (\<lambda>_. 0)) = emit out_buffer 0 100 (bytes_of ''  00beef'') (0, (\<lambda>_. 0))"
proof -
  have d: "digits_of 10 42 = [2, 4]" "digits_of 16 0xBEEF = [15, 14, 14, 11]" by (simp_all add: digits_of.simps)
  have h: "\<not> has FLAGS_ZEROPAD FLAGS_HASH" "\<not> has FLAGS_ZEROPAD FLAGS_PRECISION" by (simp_all add: has_def flag_defs)
  have t: "int_text True (numeral_text FLAGS_ZEROPAD 10 42) 0 6 FLAGS_ZEROPAD = bytes_of ''-00042''"
    "int_text False (numeral_text 0 16 0xBEEF) 6 8 0 = bytes_of ''  00beef''"
    by (simp_all add: int_text_def sign_text_def numeral_text_def d digit_byte_def has_def flag_defs bytes_of_def
        of_char_def) (simp_all add: eval_nat_numeral)
  show ?thesis
    using ntoa_long_layout [of 10 42 0 6 FLAGS_ZEROPAD out_buffer 0 100 True "(0, (\<lambda>_. 0))"]
      ntoa_long_layout [of 16 "0xBEEF" 6 8 0 out_buffer 0 100 False "(0, (\<lambda>_. 0))"] h t d by simp
qed

end
