(* ===== verification/Binary64.thy ===== *)
theory Binary64
  imports Prelude Complex_Main
begin

text \<open>
  The C type \<open>double\<close> as the x86_64 target has it: IEEE 754 binary64 with rounding to nearest,
  ties to even, every operation rounded on its own (SSE2 arithmetic, no contraction).  A value
  is NaN, an infinity or a rational; the sign of zero is not represented, because no operation
  the formatting code uses tells -0 from 0.  \<open>of_bits\<close> and \<open>to_bits\<close> are the
  reinterpretation of the 64 bits (the latter for values that are not negative).
\<close>

datatype double = NaN | Infinite bool | Fin rat

definition pow2 :: "int \<Rightarrow> rat" where
  "pow2 e = (if e \<ge> 0 then 2 ^ nat e else 1 / 2 ^ nat (- e))"

function ilog2 :: "int \<Rightarrow> int" where
  "ilog2 n = (if n < 2 then 0 else 1 + ilog2 (n div 2))"
  by pat_completeness auto
termination by (relation "measure nat") auto

declare ilog2.simps [simp del]

text \<open>The exponent e of a positive x with \<open>2^e \<le> x < 2^(e+1)\<close>.\<close>

definition exponent :: "rat \<Rightarrow> int" where
  "exponent x = (let (p, q) = quotient_of x; e = ilog2 p - ilog2 q
                 in if pow2 e \<le> x then e else e - 1)"

definition round_half_even :: "rat \<Rightarrow> int" where
  "round_half_even x = (let n = \<lfloor>x\<rfloor>; r = x - of_int n in
     if r < 1/2 then n else if r > 1/2 then n + 1 else if even n then n else n + 1)"

definition round_pos :: "rat \<Rightarrow> rat" where
  "round_pos x = (let u = max (exponent x - 52) (- 1074) in of_int (round_half_even (x / pow2 u)) * pow2 u)"

definition round64 :: "rat \<Rightarrow> double" where
  "round64 x =
     (if x = 0 then Fin 0
      else let r = round_pos \<bar>x\<bar> in
        if r \<ge> pow2 1024 then Infinite (x < 0) else Fin (if x < 0 then - r else r))"

subsection \<open>The exponent\<close>

lemma pow2_pos [simp]: "0 < pow2 e"
  by (simp add: pow2_def)

lemma pow2_add: "pow2 (a + b) = pow2 a * pow2 b"
proof -
  have pi: "pow2 e = 2 powi e" for e by (simp add: pow2_def power_int_def inverse_eq_divide power_divide)
  show ?thesis unfolding pi by (simp add: power_int_add)
qed

lemma pow2_simps [simp]: "pow2 0 = 1" "pow2 1 = 2" "pow2 2 = 4"
  by (simp_all add: pow2_def)

lemma pow2_diff: "pow2 (a - b) = pow2 a / pow2 b"
  using pow2_add [of "a - b" b] by (simp add: field_simps less_imp_neq [OF pow2_pos, symmetric])

lemma pow2_mono: "a \<le> b \<Longrightarrow> pow2 a \<le> pow2 b"
proof -
  assume "a \<le> b"
  then have "1 \<le> pow2 (b - a)" by (simp add: pow2_def)
  then have "pow2 a * 1 \<le> pow2 a * pow2 (b - a)" by (intro mult_left_mono) (simp_all add: less_imp_le)
  then show ?thesis by (simp add: pow2_add [symmetric])
qed

lemma ilog2_bounds: "1 \<le> n \<Longrightarrow> 0 \<le> ilog2 n \<and> pow2 (ilog2 n) \<le> of_int n \<and> of_int n < pow2 (ilog2 n + 1)"
proof (induction n rule: ilog2.induct)
  case (1 n)
  show ?case
  proof (cases "n < 2")
    case True
    with 1 have "n = 1" by simp
    then show ?thesis by (simp add: ilog2.simps)
  next
    case False
    then have IH: "0 \<le> ilog2 (n div 2)" "pow2 (ilog2 (n div 2)) \<le> of_int (n div 2)"
        "of_int (n div 2) < pow2 (ilog2 (n div 2) + 1)" using 1 by auto
    have e: "ilog2 n = 1 + ilog2 (n div 2)" using False by (subst ilog2.simps) simp
    have "2 * (of_int (n div 2) :: rat) \<le> of_int n" by (metis minus_mod_eq_mult_div of_int_le_iff of_int_mult of_int_numeral
        mult.commute diff_le_eq le_add_same_cancel1 pos_mod_sign zero_less_numeral)
    moreover have "of_int n < 2 * (of_int (n div 2 + 1) :: rat)"
    proof -
      have "n < 2 * (n div 2 + 1)" by simp
      then have "(of_int n :: rat) < of_int (2 * (n div 2 + 1))" by (simp only: of_int_less_iff)
      then show ?thesis by simp
    qed
    moreover have "(of_int (n div 2 + 1) :: rat) \<le> pow2 (ilog2 (n div 2) + 1)"
    proof -
      have "pow2 (ilog2 (n div 2) + 1) = of_int (2 ^ nat (ilog2 (n div 2) + 1))" using IH(1) by (simp add: pow2_def)
      with IH(3) have "n div 2 < 2 ^ nat (ilog2 (n div 2) + 1)" by (simp only: of_int_less_iff)
      then have "n div 2 + 1 \<le> 2 ^ nat (ilog2 (n div 2) + 1)" by simp
      then show ?thesis using \<open>pow2 _ = _\<close> by (simp only: of_int_le_iff)
    qed
    ultimately have "pow2 1 * pow2 (ilog2 (n div 2)) \<le> of_int n" "of_int n < pow2 1 * pow2 (ilog2 (n div 2) + 1)"
      using IH(2) by simp_all
    then show ?thesis unfolding e using IH(1) by (simp add: pow2_add ac_simps)
  qed
qed

lemma pow2_strict_mono: "a < b \<Longrightarrow> pow2 a < pow2 b"
proof -
  assume "a < b"
  then have "1 < pow2 (b - a)" by (simp add: pow2_def)
  then have "pow2 a * 1 < pow2 a * pow2 (b - a)" by (intro mult_strict_left_mono) simp_all
  then show ?thesis by (simp add: pow2_add [symmetric])
qed

lemma pow2_less_iff: "pow2 a < pow2 b \<longleftrightarrow> a < b"
  using pow2_strict_mono [of a b] pow2_mono [of b a] by (meson not_le)

lemma exponent_bounds:
  assumes "0 < x" shows "pow2 (exponent x) \<le> x" "x < pow2 (exponent x + 1)"
proof -
  obtain p q where pq: "quotient_of x = (p, q)" by fastforce
  have q0: "0 < q" by (rule quotient_of_denom_pos [OF pq])
  have x: "x = of_int p / of_int q" by (rule quotient_of_div [OF pq])
  have p0: "0 < p" using assms q0 unfolding x by (simp add: zero_less_divide_iff)
  note P = ilog2_bounds [of p] and Q = ilog2_bounds [of q]
  have qq: "(0 :: rat) < of_int q" using q0 by simp
  have "x < pow2 (ilog2 p + 1) / pow2 (ilog2 q)"
    unfolding x using P Q p0 q0 by (intro frac_less) auto
  then have up: "x < pow2 (ilog2 p - ilog2 q + 1)" by (simp add: pow2_diff [symmetric] algebra_simps)
  have "pow2 (ilog2 p) / pow2 (ilog2 q + 1) \<le> x"
    unfolding x using P Q p0 q0 by (intro frac_le) auto
  then have lo: "pow2 (ilog2 p - ilog2 q - 1) \<le> x" by (simp add: pow2_diff [symmetric] algebra_simps)
  show "pow2 (exponent x) \<le> x" "x < pow2 (exponent x + 1)"
    using up lo by (simp_all add: exponent_def pq Let_def)
qed

lemma exponent_eqI:
  assumes "pow2 e \<le> x" "x < pow2 (e + 1)" shows "exponent x = e"
proof -
  have x0: "0 < x" using assms(1) pow2_pos [of e] by linarith
  from exponent_bounds [OF x0] assms have "pow2 (exponent x) < pow2 (e + 1)" "pow2 e < pow2 (exponent x + 1)"
    by linarith+
  then show ?thesis by (simp add: pow2_less_iff)
qed

lemma round64_eqI:
  assumes "0 < x" "pow2 e \<le> x" "x < pow2 (e + 1)" "- 1022 \<le> e"
    and "round_half_even (x / pow2 (e - 52)) = n" "of_int n * pow2 (e - 52) < pow2 1024"
  shows "round64 x = Fin (of_int n * pow2 (e - 52))"
  using assms by (simp add: round64_def round_pos_def exponent_eqI Let_def)

section \<open>Arithmetic\<close>

fun neg_d :: "double \<Rightarrow> double" where
  "neg_d NaN = NaN"
| "neg_d (Infinite s) = Infinite (\<not> s)"
| "neg_d (Fin x) = Fin (- x)"

fun add_d :: "double \<Rightarrow> double \<Rightarrow> double" where
  "add_d (Fin x) (Fin y) = round64 (x + y)"
| "add_d NaN b = NaN"
| "add_d a NaN = NaN"
| "add_d (Infinite s) (Infinite t) = (if s = t then Infinite s else NaN)"
| "add_d (Infinite s) (Fin y) = Infinite s"
| "add_d (Fin x) (Infinite t) = Infinite t"

definition sub_d :: "double \<Rightarrow> double \<Rightarrow> double" where
  "sub_d a b = add_d a (neg_d b)"

fun mul_d :: "double \<Rightarrow> double \<Rightarrow> double" where
  "mul_d (Fin x) (Fin y) = round64 (x * y)"
| "mul_d NaN b = NaN"
| "mul_d a NaN = NaN"
| "mul_d (Infinite s) (Infinite t) = Infinite (s \<noteq> t)"
| "mul_d (Infinite s) (Fin y) = (if y = 0 then NaN else Infinite (s \<noteq> (y < 0)))"
| "mul_d (Fin x) (Infinite t) = (if x = 0 then NaN else Infinite ((x < 0) \<noteq> t))"

fun div_d :: "double \<Rightarrow> double \<Rightarrow> double" where
  "div_d (Fin x) (Fin y) = (if y = 0 then if x = 0 then NaN else Infinite (x < 0) else round64 (x / y))"
| "div_d NaN b = NaN"
| "div_d a NaN = NaN"
| "div_d (Infinite s) (Infinite t) = NaN"
| "div_d (Infinite s) (Fin y) = Infinite (s \<noteq> (y < 0))"
| "div_d (Fin x) (Infinite t) = Fin 0"

text \<open>Comparisons are false as soon as an operand is NaN.\<close>

fun less_d :: "double \<Rightarrow> double \<Rightarrow> bool" where
  "less_d (Fin x) (Fin y) = (x < y)"
| "less_d (Infinite s) (Fin y) = s"
| "less_d (Fin x) (Infinite t) = (\<not> t)"
| "less_d (Infinite s) (Infinite t) = (s \<and> \<not> t)"
| "less_d _ _ = False"

fun le_d :: "double \<Rightarrow> double \<Rightarrow> bool" where
  "le_d (Fin x) (Fin y) = (x \<le> y)"
| "le_d (Infinite s) (Fin y) = s"
| "le_d (Fin x) (Infinite t) = (\<not> t)"
| "le_d (Infinite s) (Infinite t) = (s \<or> \<not> t)"
| "le_d _ _ = False"

definition eq_d :: "double \<Rightarrow> double \<Rightarrow> bool" where
  "eq_d a b \<longleftrightarrow> a \<noteq> NaN \<and> a = b"

section \<open>Conversions\<close>

text \<open>
  Conversion from an integer, and to an integer by dropping the fraction; the latter is only
  specified by C for values in the range of the integer type, 0 stands for the rest.
\<close>

definition of_int_d :: "int \<Rightarrow> double" where
  "of_int_d i = round64 (of_int i)"

fun trunc_d :: "double \<Rightarrow> int" where
  "trunc_d (Fin x) = (if x < 0 then - \<lfloor>- x\<rfloor> else \<lfloor>x\<rfloor>)"
| "trunc_d _ = 0"

definition of_bits :: "u64 \<Rightarrow> double" where
  "of_bits w =
     (let neg = bit w 63; e = uint (drop_bit 52 w AND 0x7FF); m = uint (w AND 0xFFFFFFFFFFFFF);
          signed = (\<lambda>x. Fin (if neg then - x else x))
      in if e = 0x7FF then if m = 0 then Infinite neg else NaN
         else if e = 0 then signed (of_int m * pow2 (- 1074))
         else signed (of_int (m + 2 ^ 52) * pow2 (e - 1075)))"

fun to_bits :: "double \<Rightarrow> u64" where
  "to_bits NaN = 0x7FF8000000000000"
| "to_bits (Infinite s) = (if s then 0xFFF0000000000000 else 0x7FF0000000000000)"
| "to_bits (Fin x) =
     (if x = 0 then 0
      else if x < pow2 (- 1022) then word_of_int \<lfloor>x / pow2 (- 1074)\<rfloor>
      else let e = exponent x in
        push_bit 52 (word_of_int (e + 1023)) OR word_of_int (\<lfloor>x / pow2 (e - 52)\<rfloor> - 2 ^ 52))"

definition DBL_MAX :: double where
  "DBL_MAX = Fin ((2 - pow2 (- 52)) * pow2 1023)"

section \<open>Integers are exact\<close>

lemma round_half_even_of_int [simp]: "round_half_even (of_int n) = n"
  by (simp add: round_half_even_def)

lemma pow2_nat: "0 \<le> e \<Longrightarrow> pow2 e = of_int (2 ^ nat e)"
  by (simp add: pow2_def)

lemma round64_of_int:
  assumes "\<bar>n\<bar> < 2 ^ 53" shows "round64 (of_int n) = Fin (of_int n)"
proof (cases "n = 0")
  case True
  then show ?thesis by (simp add: round64_def)
next
  case False
  let ?a = "\<bar>n\<bar>" and ?x = "of_int \<bar>n\<bar> :: rat"
  have x: "1 \<le> ?x" using False by simp
  have x0: "0 < ?x" using False by simp
  note eb = exponent_bounds [OF x0]
  have e0: "0 \<le> exponent ?x"
  proof (rule ccontr)
    assume "\<not> 0 \<le> exponent ?x"
    then have "pow2 (exponent ?x + 1) \<le> pow2 0" by (intro pow2_mono) simp
    with eb(2) x show False by simp
  qed
  have "?x < of_int (2 ^ 53)" using assms by (simp only: of_int_less_iff)
  also have "of_int (2 ^ 53) = pow2 53" by (simp add: pow2_def)
  finally have "pow2 (exponent ?x) < pow2 53" using eb(1) by linarith
  then have e52: "exponent ?x \<le> 52" by (simp add: pow2_less_iff)
  let ?u = "exponent ?x - 52"
  have "?x / pow2 ?u = ?x * pow2 (52 - exponent ?x)"
    using pow2_diff [of 0 ?u] by simp
  also have "\<dots> = of_int (?a * 2 ^ nat (52 - exponent ?x))"
    using e52 by (subst pow2_nat) simp_all
  finally have q: "?x / pow2 ?u = of_int (?a * 2 ^ nat (52 - exponent ?x))" .
  have "round_pos ?x = ?x / pow2 ?u * pow2 ?u"
    using e0 unfolding round_pos_def Let_def by (simp only: max_absorb1 q round_half_even_of_int)
  then have r: "round_pos ?x = ?x" using less_imp_neq [OF pow2_pos [of ?u], symmetric] by simp
  have "pow2 53 \<le> pow2 1024" by (rule pow2_mono) simp
  then have "?x < pow2 1024" using \<open>?x < of_int (2 ^ 53)\<close> \<open>of_int (2 ^ 53) = pow2 53\<close> by linarith
  with r False show ?thesis by (auto simp: round64_def Let_def abs_if)
qed

lemma of_int_d_exact: "\<bar>n\<bar> < 2 ^ 53 \<Longrightarrow> of_int_d n = Fin (of_int n)"
  unfolding of_int_d_def by (rule round64_of_int)

lemma sub_d_of_int: "\<bar>a - b\<bar> < 2 ^ 53 \<Longrightarrow> sub_d (Fin (of_int a)) (Fin (of_int b)) = Fin (of_int (a - b))"
  using round64_of_int [of "a - b"] by (simp add: sub_d_def)

lemma mul_d_of_int: "\<bar>a * b\<bar> < 2 ^ 53 \<Longrightarrow> mul_d (Fin (of_int a)) (Fin (of_int b)) = Fin (of_int (a * b))"
  using round64_of_int [of "a * b"] by simp

lemma trunc_d_of_int [simp]: "trunc_d (Fin (of_int n)) = n"
proof -
  have "- (of_int n :: rat) = of_int (- n)" by simp
  then have "- \<lfloor>- (of_int n :: rat)\<rfloor> = n" by (simp only: floor_of_int)
  then show ?thesis by simp
qed

lemma less_d_of_int [simp]: "less_d (Fin (of_int a)) (Fin (of_int b)) \<longleftrightarrow> a < b"
  by simp

end
