(* ===== verification/Printf_Float.thy ===== *)
theory Printf_Float
  imports Printf_Core Binary64
begin

text \<open>
  The floating point conversions of libc/stdio/printf.c: _ftoa (%f) and _etoa (%e, %g).
  They call each other: _ftoa hands values beyond \<open>PRINTF_MAX_FLOAT\<close> to _etoa, which hands
  NaN, infinities and the rescaled value back.  The recursion is cut by fuel, a call with no
  fuel left counting as \<open>Diverges\<close>; \<open>FTOA_FUEL\<close> allows for more calls than the chain
  _ftoa, _etoa, _ftoa needs.  The table \<open>pow10\<close> has ten entries, and reading past it is the
  outcome \<open>Read_Past_End\<close>.
\<close>

definition PRINTF_DEFAULT_FLOAT_PRECISION :: u32 where "PRINTF_DEFAULT_FLOAT_PRECISION = 6"
definition PRINTF_MAX_FLOAT :: double where "PRINTF_MAX_FLOAT = Fin 1000000000"

definition PRINTF_FTOA_BUFFER_SIZE :: nat where [simp]: "PRINTF_FTOA_BUFFER_SIZE = 32"

definition pow10 :: "double list" where
  "pow10 = [Fin 1, Fin 10, Fin 100, Fin 1000, Fin 10000, Fin 100000, Fin 1000000, Fin 10000000,
            Fin 100000000, Fin 1000000000]"

definition pow10_at :: "u32 \<Rightarrow> double outcome" where
  "pow10_at prec = (if unat prec < length pow10 then Inr (pow10 ! unat prec) else Inl Read_Past_End)"

section \<open>_ftoa\<close>

text \<open>\<open>while (len < 32 && prec > 9) { buf[len++] = '0'; prec--; }\<close>.\<close>

function limit_prec :: "u8 list \<Rightarrow> u32 \<Rightarrow> u8 list \<times> u32" where
  "limit_prec buf prec =
     (if length buf < PRINTF_FTOA_BUFFER_SIZE \<and> prec > 9 then limit_prec (buf @ [0x30]) (prec - 1) else (buf, prec))"
  by pat_completeness auto
termination by (relation "measure (\<lambda>(buf, prec). 32 - length buf)") auto

text \<open>The digits of the fraction; the second component is the counter.\<close>

function frac_digits :: "u8 list \<Rightarrow> u64 \<Rightarrow> u32 \<Rightarrow> u8 list \<times> u32" where
  "frac_digits buf fr count =
     (if length buf < PRINTF_FTOA_BUFFER_SIZE then
        let count' = count - 1; buf' = buf @ [ucast (48 + fr mod 10)]; fr' = fr div 10
        in if fr' = 0 then (buf', count') else frac_digits buf' fr' count'
      else (buf, count))"
  by pat_completeness auto
termination by (relation "measure (\<lambda>(buf, fr, count). 32 - length buf)") auto

text \<open>\<open>while (len < 32 && count-- > 0) buf[len++] = '0'\<close>.\<close>

function frac_zeros :: "u8 list \<Rightarrow> u32 \<Rightarrow> u8 list" where
  "frac_zeros buf count =
     (if length buf < PRINTF_FTOA_BUFFER_SIZE \<and> count > 0 then frac_zeros (buf @ [0x30]) (count - 1) else buf)"
  by pat_completeness auto
termination by (relation "measure (\<lambda>(buf, count). 32 - length buf)") auto

text \<open>The digits of the whole part, an \<open>int\<close> that is not negative here.\<close>

function whole_digits :: "u8 list \<Rightarrow> int \<Rightarrow> u8 list" where
  "whole_digits buf whole =
     (if length buf < PRINTF_FTOA_BUFFER_SIZE then
        let buf' = buf @ [word_of_int (48 + whole mod 10)]; whole' = whole div 10
        in if whole' = 0 then buf' else whole_digits buf' whole'
      else buf)"
  by pat_completeness auto
termination by (relation "measure (\<lambda>(buf, whole). 32 - length buf)") auto

declare limit_prec.simps [simp del] frac_digits.simps [simp del] frac_zeros.simps [simp del] whole_digits.simps [simp del]

text \<open>
  The split of a value that is not negative into whole part and fraction at the given
  precision, with the rounding of the code.
\<close>

definition ftoa_split :: "double \<Rightarrow> u32 \<Rightarrow> (int \<times> u64) outcome" where
  "ftoa_split v prec =
     rbind (pow10_at prec) (\<lambda>p10.
       let whole = trunc_d v;
           tmp = mul_d (sub_d v (of_int_d whole)) p10;
           fr = (word_of_int (trunc_d tmp) :: u64);
           diff = sub_d tmp (of_int_d (uint fr))
       in if less_d (Fin (1/2)) diff then
            (if le_d p10 (of_int_d (uint (fr + 1))) then Inr (whole + 1, 0) else Inr (whole, fr + 1))
          else if less_d diff (Fin (1/2)) then Inr (whole, fr)
          else if fr = 0 \<or> fr AND 1 \<noteq> 0 then Inr (whole, fr + 1)
          else Inr (whole, fr))"

text \<open>The buffer after the fraction, the point and the whole part.\<close>

definition ftoa_body :: "u8 list \<Rightarrow> double \<Rightarrow> int \<Rightarrow> u64 \<Rightarrow> u32 \<Rightarrow> u8 list" where
  "ftoa_body buf v whole fr prec =
     (if prec = 0 then
        let diff = sub_d v (of_int_d whole);
            whole' = (if (\<not> less_d diff (Fin (1/2)) \<or> less_d (Fin (1/2)) diff) \<and> odd whole then whole + 1 else whole)
        in whole_digits buf whole'
      else
        let (b1, count) = frac_digits buf fr prec;
            b2 = frac_zeros b1 count;
            b3 = push_below 0x2E b2
        in whole_digits b3 whole)"

definition ftoa_buf :: "double \<Rightarrow> u32 \<Rightarrow> u32 \<Rightarrow> u32 \<Rightarrow> (u8 list \<times> u32) outcome" where
  "ftoa_buf v0 prec0 width flags =
     (let negative = less_d v0 (Fin 0);
          v = (if negative then sub_d (Fin 0) v0 else v0);
          prec1 = (if \<not> has flags FLAGS_PRECISION then PRINTF_DEFAULT_FLOAT_PRECISION else prec0);
          (b0, prec) = limit_prec [] prec1
      in rbind (ftoa_split v prec) (\<lambda>(whole, fr).
           let b1 = ftoa_body b0 v whole fr prec;
               width' = (if \<not> has flags FLAGS_LEFT \<and> has flags FLAGS_ZEROPAD \<and> width \<noteq> 0
                            \<and> (negative \<or> has flags (FLAGS_PLUS OR FLAGS_SPACE)) then width - 1 else width);
               b2 = (if \<not> has flags FLAGS_LEFT \<and> has flags FLAGS_ZEROPAD then zeros (unat width') b1 else b1)
           in Inr (ntoa_sign b2 negative flags, width')))"

text \<open>NaN and the infinities, whose text is stored reversed.\<close>

definition is_special :: "double \<Rightarrow> bool" where
  "is_special v \<longleftrightarrow> \<not> eq_d v v \<or> less_d v (neg_d DBL_MAX) \<or> less_d DBL_MAX v"

definition special_text :: "double \<Rightarrow> u32 \<Rightarrow> u8 list" where
  "special_text v flags =
     (if \<not> eq_d v v then bytes_of ''nan''
      else if less_d v (neg_d DBL_MAX) then bytes_of ''fni-''
      else if has flags FLAGS_PLUS then bytes_of ''fni+'' else bytes_of ''fni'')"

section \<open>_etoa\<close>

definition dec :: "rat \<Rightarrow> double" where
  "dec x = round64 x"

text \<open>The decimal exponent and the power of ten of a value that is not negative.\<close>

definition etoa_scale :: "double \<Rightarrow> int \<times> double" where
  "etoa_scale v =
     (let U = to_bits v;
          exp2 = uint (drop_bit 52 U AND 0x7FF) - 1023;
          F = of_bits ((U AND 0xFFFFFFFFFFFFF) OR push_bit 52 1023);
          expval = trunc_d (add_d (add_d (dec (1760912590558 / 10 ^ 13))
                                         (mul_d (of_int_d exp2) (dec (301029995663981 / 10 ^ 15))))
                                  (mul_d (sub_d F (Fin (3/2))) (dec (289529654602168 / 10 ^ 15))));
          exp2' = trunc_d (add_d (mul_d (of_int_d expval) (dec (3321928094887362 / 10 ^ 15))) (Fin (1/2)));
          z = sub_d (mul_d (of_int_d expval) (dec (2302585092994046 / 10 ^ 15)))
                    (mul_d (of_int_d exp2') (dec (6931471805599453 / 10 ^ 16)));
          z2 = mul_d z z;
          F1 = of_bits (push_bit 52 (word_of_int (exp2' + 1023)));
          F2 = mul_d F1 (add_d (Fin 1) (div_d (mul_d (Fin 2) z)
                 (add_d (sub_d (Fin 2) z) (div_d z2 (add_d (Fin 6) (div_d z2 (add_d (Fin 10) (div_d z2 (Fin 14)))))))))
      in if less_d v F2 then (expval - 1, div_d F2 (Fin 10)) else (expval, F2))"

text \<open>
  What _etoa decides before it prints: the exponent to print (with the width of its field, 0
  for none), the value handed to _ftoa, its precision, its width and its flags.
\<close>

definition etoa_plan :: "double \<Rightarrow> u32 \<Rightarrow> u32 \<Rightarrow> u32 \<Rightarrow> int \<times> u32 \<times> double \<times> u32 \<times> u32 \<times> u32" where
  "etoa_plan v prec0 width flags0 =
     (let prec1 = (if \<not> has flags0 FLAGS_PRECISION then PRINTF_DEFAULT_FLOAT_PRECISION else prec0);
          (expval1, F) = etoa_scale v;
          minwidth1 = (if expval1 < 100 \<and> expval1 > - 100 then 4 else 5 :: u32);
          fall_back = has flags0 FLAGS_ADAPT_EXP \<and> le_d (dec (1 / 10 ^ 4)) v \<and> less_d v (Fin 1000000);
          prec = (if fall_back then
                    (if sint prec1 > expval1 then word_of_int (sint prec1 - expval1 - 1) else 0)
                  else if has flags0 FLAGS_ADAPT_EXP \<and> prec1 > 0 \<and> has flags0 FLAGS_PRECISION then prec1 - 1
                  else prec1);
          flags = (if fall_back then flags0 OR FLAGS_PRECISION else flags0);
          minwidth = (if fall_back then 0 else minwidth1);
          expval = (if fall_back then 0 else expval1);
          fwidth1 = (if width > minwidth then width - minwidth else 0);
          fwidth = (if has flags FLAGS_LEFT \<and> minwidth \<noteq> 0 then 0 else fwidth1);
          v' = (if expval \<noteq> 0 then div_d v F else v)
      in (expval, minwidth, v', prec, fwidth, flags))"

definition etoa_exponent ::
  "'s out_fct \<Rightarrow> u64 \<Rightarrow> u64 \<Rightarrow> u64 \<Rightarrow> int \<Rightarrow> u32 \<Rightarrow> u32 \<Rightarrow> u32 \<Rightarrow> u64 \<times> 's \<Rightarrow> u64 \<times> 's" where
  "etoa_exponent out buffer maxlen start_idx expval minwidth width flags w =
     (if minwidth \<noteq> 0 then
        let w1 = putc out buffer maxlen (if has flags FLAGS_UPPERCASE then 0x45 else 0x65) w;
            w2 = ntoa_long out buffer maxlen (word_of_int \<bar>expval\<bar>) (expval < 0) 10 0 (minwidth - 1)
                   (FLAGS_ZEROPAD OR FLAGS_PLUS) w1
        in if has flags FLAGS_LEFT then pad_right out buffer maxlen start_idx width w2 else w2
      else w)"

fun ftoa :: "nat \<Rightarrow> 's out_fct \<Rightarrow> u64 \<Rightarrow> u64 \<Rightarrow> double \<Rightarrow> u32 \<Rightarrow> u32 \<Rightarrow> u32 \<Rightarrow> u64 \<times> 's \<Rightarrow> (u64 \<times> 's) outcome"
  and etoa :: "nat \<Rightarrow> 's out_fct \<Rightarrow> u64 \<Rightarrow> u64 \<Rightarrow> double \<Rightarrow> u32 \<Rightarrow> u32 \<Rightarrow> u32 \<Rightarrow> u64 \<times> 's \<Rightarrow> (u64 \<times> 's) outcome" where
  "ftoa 0 out buffer maxlen v prec width flags w = Inl Diverges"
| "ftoa (Suc fuel) out buffer maxlen v prec width flags w =
     (if is_special v then Inr (out_rev out buffer maxlen (special_text v flags) width flags w)
      else if less_d PRINTF_MAX_FLOAT v \<or> less_d v (neg_d PRINTF_MAX_FLOAT)
      then etoa fuel out buffer maxlen v prec width flags w
      else rbind (ftoa_buf v prec width flags) (\<lambda>(buf, width'). Inr (out_rev out buffer maxlen buf width' flags w)))"
| "etoa 0 out buffer maxlen v prec width flags w = Inl Diverges"
| "etoa (Suc fuel) out buffer maxlen v prec width flags w =
     (if is_special v then ftoa fuel out buffer maxlen v prec width flags w
      else
        let negative = less_d v (Fin 0);
            (expval, minwidth, v', prec', fwidth, flags') = etoa_plan (if negative then neg_d v else v) prec width flags
        in rbind (ftoa fuel out buffer maxlen (if negative then neg_d v' else v') prec' fwidth
                    (flags' AND NOT FLAGS_ADAPT_EXP) w)
             (\<lambda>w1. Inr (etoa_exponent out buffer maxlen (fst w) expval minwidth width flags' w1)))"

definition FTOA_FUEL :: nat where "FTOA_FUEL = 4"

section \<open>The text of a floating point conversion\<close>

definition exponent_text :: "int \<Rightarrow> u32 \<Rightarrow> u32 \<Rightarrow> u8 list" where
  "exponent_text expval minwidth flags =
     (if has flags FLAGS_UPPERCASE then 0x45 else 0x65) #
     ntoa_text (word_of_int \<bar>expval\<bar>) (expval < 0) 10 0 (minwidth - 1) (FLAGS_ZEROPAD OR FLAGS_PLUS)"

definition etoa_layout :: "u8 list \<Rightarrow> int \<Rightarrow> u32 \<Rightarrow> u32 \<Rightarrow> u32 \<Rightarrow> u8 list" where
  "etoa_layout t expval minwidth width flags =
     (if minwidth = 0 then t
      else let t' = t @ exponent_text expval minwidth flags in
        if has flags FLAGS_LEFT then t' @ replicate (unat width - length t') 0x20 else t')"

fun ftoa_text :: "nat \<Rightarrow> double \<Rightarrow> u32 \<Rightarrow> u32 \<Rightarrow> u32 \<Rightarrow> u8 list outcome"
  and etoa_text :: "nat \<Rightarrow> double \<Rightarrow> u32 \<Rightarrow> u32 \<Rightarrow> u32 \<Rightarrow> u8 list outcome" where
  "ftoa_text 0 v prec width flags = Inl Diverges"
| "ftoa_text (Suc fuel) v prec width flags =
     (if is_special v then Inr (rev_text (special_text v flags) width flags)
      else if less_d PRINTF_MAX_FLOAT v \<or> less_d v (neg_d PRINTF_MAX_FLOAT)
      then etoa_text fuel v prec width flags
      else rbind (ftoa_buf v prec width flags) (\<lambda>(buf, width'). Inr (rev_text buf width' flags)))"
| "etoa_text 0 v prec width flags = Inl Diverges"
| "etoa_text (Suc fuel) v prec width flags =
     (if is_special v then ftoa_text fuel v prec width flags
      else
        let negative = less_d v (Fin 0);
            (expval, minwidth, v', prec', fwidth, flags') = etoa_plan (if negative then neg_d v else v) prec width flags
        in rbind (ftoa_text fuel (if negative then neg_d v' else v') prec' fwidth (flags' AND NOT FLAGS_ADAPT_EXP))
             (\<lambda>t. Inr (etoa_layout t expval minwidth width flags')))"

definition puts_text :: "'s out_fct \<Rightarrow> u64 \<Rightarrow> u64 \<Rightarrow> u64 \<times> 's \<Rightarrow> u8 list outcome \<Rightarrow> (u64 \<times> 's) outcome" where
  "puts_text out buffer maxlen w r = rbind r (\<lambda>cs. Inr (emit out buffer maxlen cs w))"

lemma puts_text_simps [simp]:
  "puts_text out buffer maxlen w (Inl e) = Inl e"
  "puts_text out buffer maxlen w (Inr cs) = Inr (emit out buffer maxlen cs w)"
  by (simp_all add: puts_text_def)

subsection \<open>The buffer is never overrun\<close>

lemma length_limit_prec: "length buf \<le> 32 \<Longrightarrow> length (fst (limit_prec buf prec)) \<le> 32"
proof (induction buf prec rule: limit_prec.induct)
  case (1 buf prec)
  then show ?case by (subst limit_prec.simps) auto
qed

lemma length_frac_digits: "length buf \<le> 32 \<Longrightarrow> length (fst (frac_digits buf fr count)) \<le> 32"
proof (induction buf fr count rule: frac_digits.induct)
  case (1 buf fr count)
  then show ?case by (subst frac_digits.simps) (auto simp: Let_def)
qed

lemma length_frac_zeros: "length buf \<le> 32 \<Longrightarrow> length (frac_zeros buf count) \<le> 32"
proof (induction buf count rule: frac_zeros.induct)
  case (1 buf count)
  then show ?case by (subst frac_zeros.simps) auto
qed

lemma length_whole_digits: "length buf \<le> 32 \<Longrightarrow> length (whole_digits buf whole) \<le> 32"
proof (induction buf whole rule: whole_digits.induct)
  case (1 buf whole)
  then show ?case by (subst whole_digits.simps) (auto simp: Let_def)
qed

lemma length_push_below: "length buf \<le> 32 \<Longrightarrow> length (push_below c buf) \<le> 32"
  by (simp add: push_below_def)

lemma length_ftoa_body:
  assumes "length buf \<le> 32" shows "length (ftoa_body buf v whole fr prec) \<le> 32"
proof -
  obtain b1 count where f: "frac_digits buf fr prec = (b1, count)" by fastforce
  have "length b1 \<le> 32" using length_frac_digits [OF assms, of fr prec] f by simp
  then have "length (push_below 0x2E (frac_zeros b1 count)) \<le> 32" by (intro length_push_below length_frac_zeros)
  then show ?thesis using assms by (auto simp: ftoa_body_def Let_def f intro!: length_whole_digits)
qed

lemma length_ftoa_buf: "ftoa_buf v prec width flags = Inr (buf, width') \<Longrightarrow> length buf \<le> 32 \<and> unat width' \<le> unat width"
proof -
  assume r: "ftoa_buf v prec width flags = Inr (buf, width')"
  let ?n = "less_d v (Fin 0)" and ?p = "if \<not> has flags FLAGS_PRECISION then PRINTF_DEFAULT_FLOAT_PRECISION else prec"
  obtain b0 p where lp: "limit_prec [] ?p = (b0, p)" by fastforce
  have b0: "length b0 \<le> 32" using length_limit_prec [of "[]" ?p] lp by simp
  from r lp obtain whole fr where
    "buf = ntoa_sign (if \<not> has flags FLAGS_LEFT \<and> has flags FLAGS_ZEROPAD then zeros (unat width')
        (ftoa_body b0 (if ?n then sub_d (Fin 0) v else v) whole fr p)
        else ftoa_body b0 (if ?n then sub_d (Fin 0) v else v) whole fr p) ?n flags"
    and w: "width' = (if \<not> has flags FLAGS_LEFT \<and> has flags FLAGS_ZEROPAD \<and> width \<noteq> 0
        \<and> (?n \<or> has flags (FLAGS_PLUS OR FLAGS_SPACE)) then width - 1 else width)"
    by (auto simp: ftoa_buf_def Let_def rbind_Inr_iff split: prod.splits)
  then have "length buf \<le> 32" using b0 by (simp add: length_ntoa_sign length_zeros length_ftoa_body)
  moreover have "unat width' \<le> unat width" unfolding w by (simp add: unat_pred32)
  ultimately show ?thesis by simp
qed

lemma length_rev_text: "length (rev_text buf width flags) \<le> max (length buf) (unat width)"
  by (auto simp: rev_text_def Let_def max_def)

lemma length_ntoa_text: "length (ntoa_text v negative base prec width flags) \<le> max 32 (unat width)"
proof -
  let ?f = "if v = 0 then flags AND NOT FLAGS_HASH else flags"
  let ?buf = "if \<not> has ?f FLAGS_PRECISION \<or> v \<noteq> 0 then ntoa_digits v base ?f [] else []"
  obtain b width' where f: "ntoa_fill ?buf negative (ucast base) prec width ?f = (b, width')" by fastforce
  have "length ?buf \<le> 32" using length_ntoa_digits [of "[]" v base ?f] by simp
  then have "length b \<le> 32" using length_ntoa_fill [of ?buf negative "ucast base" prec width ?f] f by simp
  moreover have "unat width' \<le> unat width"
    using f by (auto simp: ntoa_fill_def Let_def unat_pred32 split: if_splits)
  ultimately show ?thesis
    using f length_rev_text [of b width' ?f] by (simp add: ntoa_text_def Let_def)
qed

subsection \<open>The conversions put their text\<close>

lemma length_etoa_layout:
  assumes "unat minwidth \<le> 32"
  shows "length (etoa_layout t expval minwidth width flags) \<le> max (length t + 33) (unat width)"
proof -
  let ?e = "ntoa_text (word_of_int \<bar>expval\<bar>) (expval < 0) 10 0 (minwidth - 1) (FLAGS_ZEROPAD OR FLAGS_PLUS)"
  have "length ?e \<le> 32" if "minwidth \<noteq> 0"
    using length_ntoa_text [of "word_of_int \<bar>expval\<bar>" "expval < 0" 10 0 "minwidth - 1"] assms that
    by (simp add: unat_pred32)
  then show ?thesis by (auto simp: etoa_layout_def exponent_text_def Let_def)
qed

lemma etoa_plan_minwidth:
  "etoa_plan v prec width flags = (expval, minwidth, v', prec', fwidth, flags') \<Longrightarrow>
    unat minwidth \<le> 32 \<and> unat fwidth \<le> unat width"
  by (auto simp: etoa_plan_def Let_def word_less_nat_alt unat_sub_if' split: prod.splits if_splits)

lemma length_float_text:
  "ftoa_text fuel v prec width flags = Inr t \<Longrightarrow> length t \<le> max 32 (unat width) + 33 * fuel"
  "etoa_text fuel v prec width flags = Inr t' \<Longrightarrow> length t' \<le> max 32 (unat width) + 33 * fuel"
proof (induction fuel v prec width flags and fuel v prec width flags arbitrary: t and t' rule: ftoa_text_etoa_text.induct)
  case (2 fuel v prec width flags)
  have s: "length (special_text v flags) \<le> 32" by (simp add: special_text_def bytes_of_def)
  have "length (rev_text buf width' flags) \<le> max 32 (unat width)"
    if "ftoa_buf v prec width flags = Inr (buf, width')" for buf width'
    using length_rev_text [of buf width' flags] length_ftoa_buf [OF that] by auto
  moreover have "length (rev_text (special_text v flags) width flags) \<le> max 32 (unat width)"
    using length_rev_text [of "special_text v flags" width flags] s by auto
  ultimately show ?case using 2 by (auto simp: rbind_Inr_iff split: if_splits prod.splits intro: le_trans trans_le_add1)
next
  case (4 fuel v prec width flags)
  show ?case
  proof (cases "is_special v")
    case True
    with 4 show ?thesis by (auto intro: le_trans)
  next
    case False
    let ?n = "less_d v (Fin 0)"
    obtain expval minwidth v' prec' fwidth flags' where pl:
      "etoa_plan (if ?n then neg_d v else v) prec width flags = (expval, minwidth, v', prec', fwidth, flags')"
      by (metis prod.collapse)
    from 4(3) False pl obtain t where
      t: "ftoa_text fuel (if ?n then neg_d v' else v') prec' fwidth (flags' AND NOT FLAGS_ADAPT_EXP) = Inr t"
      and t': "t' = etoa_layout t expval minwidth width flags'"
      by (auto simp: rbind_Inr_iff Let_def)
    have "length t \<le> max 32 (unat fwidth) + 33 * fuel"
      using 4(2) [OF False refl pl [symmetric] refl refl refl refl refl t] .
    with length_etoa_layout [of minwidth t expval width flags'] etoa_plan_minwidth [OF pl]
    show ?thesis unfolding t' by (auto simp: max_def split: if_splits)
  qed
qed simp_all

lemma etoa_exponent_emit:
  assumes "length t < 2 ^ 40" "unat minwidth \<le> 32" "start_idx = fst w"
  shows "etoa_exponent out buffer maxlen start_idx expval minwidth width flags (emit out buffer maxlen t w) =
    emit out buffer maxlen (etoa_layout t expval minwidth width flags) w"
proof (cases "minwidth = 0")
  case True
  then show ?thesis by (simp add: etoa_exponent_def etoa_layout_def)
next
  case False
  let ?e = "exponent_text expval minwidth flags"
  have "length ?e \<le> 33"
    using length_ntoa_text [of "word_of_int \<bar>expval\<bar>" "expval < 0" 10 0 "minwidth - 1"] assms(2) False
    by (simp add: exponent_text_def unat_pred32)
  then have "length (t @ ?e) < 18446744073709551616" using assms(1) by simp
  then have "unat (fst (emit out buffer maxlen (t @ ?e) w) - start_idx) = length (t @ ?e)"
    unfolding assms(3) fst_emit offset_add by (rule unat_of_nat_u64)
  moreover have "ntoa_long out buffer maxlen (word_of_int \<bar>expval\<bar>) (expval < 0) 10 0 (minwidth - 1)
      (FLAGS_ZEROPAD OR FLAGS_PLUS) (putc out buffer maxlen (if has flags FLAGS_UPPERCASE then 0x45 else 0x65)
        (emit out buffer maxlen t w)) = emit out buffer maxlen (t @ ?e) w"
    by (simp add: exponent_text_def ntoa_long_emit)
  ultimately show ?thesis
    using False by (simp add: etoa_exponent_def etoa_layout_def Let_def pad_right_emit del: emit_append)
      (simp add: pad_right_emit)
qed

lemma float_puts_text:
  "fuel \<le> 1000 \<Longrightarrow> ftoa fuel out buffer maxlen v prec width flags w =
    puts_text out buffer maxlen w (ftoa_text fuel v prec width flags)"
  "fuel \<le> 1000 \<Longrightarrow> etoa fuel out buffer maxlen v prec width flags w =
    puts_text out buffer maxlen w (etoa_text fuel v prec width flags)"
proof (induction fuel v prec width flags and fuel v prec width flags arbitrary: w and w rule: ftoa_text_etoa_text.induct)
  case (2 fuel v prec width flags)
  have s: "length (special_text v flags) < 18446744073709551616" by (simp add: special_text_def bytes_of_def)
  show ?case
  proof (cases "ftoa_buf v prec width flags")
    case (Inl e)
    with 2 s show ?thesis by (simp add: out_rev_emit)
  next
    case (Inr r)
    then obtain buf width' where r: "ftoa_buf v prec width flags = Inr (buf, width')" by (cases r) simp
    with length_ftoa_buf [OF r] 2 s show ?thesis by (simp add: out_rev_emit)
  qed
next
  case (4 fuel v prec width flags)
  show ?case
  proof (cases "is_special v")
    case True
    with 4 show ?thesis by simp
  next
    case False
    let ?n = "less_d v (Fin 0)"
    obtain expval minwidth v' prec' fwidth flags' where pl:
      "etoa_plan (if ?n then neg_d v else v) prec width flags = (expval, minwidth, v', prec', fwidth, flags')"
      by (metis prod.collapse)
    let ?t = "ftoa_text fuel (if ?n then neg_d v' else v') prec' fwidth (flags' AND NOT FLAGS_ADAPT_EXP)"
    have IH: "ftoa fuel out buffer maxlen (if ?n then neg_d v' else v') prec' fwidth (flags' AND NOT FLAGS_ADAPT_EXP) w =
        puts_text out buffer maxlen w ?t"
      using 4(2) [OF False refl pl [symmetric] refl refl refl refl refl] 4(3) by simp
    show ?thesis
    proof (cases ?t)
      case (Inl e)
      with IH False pl show ?thesis by (simp add: Let_def)
    next
      case (Inr t)
      have "length t \<le> max 32 (unat fwidth) + 33 * fuel" by (rule length_float_text(1) [OF Inr])
      moreover have "max 32 (unat fwidth) \<le> 4294967296" using less_imp_le [OF unat_u32_lt [of fwidth]] by simp
      ultimately have "length t < 1099511627776" using 4(3) by linarith
      then have "length t < 2 ^ 40" by simp
      with etoa_exponent_emit [OF this conjunct1 [OF etoa_plan_minwidth [OF pl]] refl] IH False pl Inr
      show ?thesis by (simp add: Let_def)
    qed
  qed
qed simp_all

section \<open>The precision\<close>

lemma limit_prec_eq:
  "length buf \<le> 32 \<Longrightarrow> limit_prec buf prec =
    (buf @ replicate (min (32 - length buf) (unat prec - 9)) 0x30, prec - of_nat (min (32 - length buf) (unat prec - 9)))"
proof (induction buf prec rule: limit_prec.induct)
  case (1 buf prec)
  show ?case
  proof (cases "length buf < 32 \<and> prec > 9")
    case True
    then have p: "9 < unat prec" by (simp add: word_less_nat_alt)
    then have p1: "unat (prec - 1) = unat prec - 1" by (intro unat_minus_one) auto
    have k: "min (32 - length buf) (unat prec - 9) = Suc (min (32 - length (buf @ [0x30])) (unat (prec - 1) - 9))"
      using True p by (simp add: p1 min_def) arith
    from True have "limit_prec buf prec = limit_prec (buf @ [0x30]) (prec - 1)" by (subst limit_prec.simps) simp
    with True 1 show ?thesis unfolding k by simp
  next
    case False
    then have "min (32 - length buf) (unat prec - 9) = 0" by (auto simp: word_less_nat_alt)
    moreover have "limit_prec buf prec = (buf, prec)" using False by (subst limit_prec.simps) auto
    ultimately show ?thesis by simp
  qed
qed

lemma limit_prec_small:
  "unat prec \<le> 9 \<Longrightarrow> limit_prec [] prec = ([], prec)"
  by (simp add: limit_prec_eq)

lemma limit_prec_index:
  assumes "limit_prec [] prec = (b0, p)"
  shows "unat p < 10 \<longleftrightarrow> unat prec < 42"
proof -
  let ?k = "min 32 (unat prec - 9)"
  have p: "p = prec - of_nat ?k" using assms by (simp add: limit_prec_eq)
  have "unat (of_nat ?k :: u32) = ?k" by (simp add: unat_of_nat)
  moreover have "?k \<le> unat prec" by simp
  ultimately have "unat p = unat prec - ?k" unfolding p by (simp add: unat_sub word_le_nat_alt)
  then show ?thesis by auto
qed

definition ftoa_small :: "double \<Rightarrow> bool" where
  "ftoa_small v \<longleftrightarrow> \<not> is_special v \<and> \<not> less_d PRINTF_MAX_FLOAT v \<and> \<not> less_d v (neg_d PRINTF_MAX_FLOAT)"

lemma ftoa_split_outcome:
  assumes "limit_prec [] prec = (b0, q)"
  shows "unat prec < 42 \<Longrightarrow> \<exists>whole fr. ftoa_split v q = Inr (whole, fr)"
    and "\<not> unat prec < 42 \<Longrightarrow> ftoa_split v q = Inl Read_Past_End"
proof -
  have "length pow10 = 10" by (simp add: pow10_def)
  then have pa: "pow10_at q = (if unat prec < 42 then Inr (pow10 ! unat q) else Inl Read_Past_End)"
    using limit_prec_index [OF assms] by (simp add: pow10_at_def)
  show "\<exists>whole fr. ftoa_split v q = Inr (whole, fr)" if "unat prec < 42"
    using pa that by (simp add: ftoa_split_def Let_def)
  show "ftoa_split v q = Inl Read_Past_End" if "\<not> unat prec < 42"
    using pa that by (simp add: ftoa_split_def)
qed

lemma ftoa_buf_outcome:
  assumes p: "p = (if \<not> has flags FLAGS_PRECISION then PRINTF_DEFAULT_FLOAT_PRECISION else prec)"
  shows "unat p < 42 \<Longrightarrow> \<exists>buf width'. ftoa_buf v prec width flags = Inr (buf, width')"
    and "\<not> unat p < 42 \<Longrightarrow> ftoa_buf v prec width flags = Inl Read_Past_End"
proof -
  obtain b0 q where lp: "limit_prec [] p = (b0, q)" by fastforce
  let ?v = "if less_d v (Fin 0) then sub_d (Fin 0) v else v"
  show "\<exists>buf width'. ftoa_buf v prec width flags = Inr (buf, width')" if lt: "unat p < 42"
  proof -
    from ftoa_split_outcome(1) [OF lp lt, of ?v] obtain whole fr where "ftoa_split ?v q = Inr (whole, fr)" by blast
    then show ?thesis unfolding ftoa_buf_def Let_def p [symmetric] lp split by simp
  qed
  show "ftoa_buf v prec width flags = Inl Read_Past_End" if ge: "\<not> unat p < 42"
    using ftoa_split_outcome(2) [OF lp ge, of ?v] unfolding ftoa_buf_def Let_def p [symmetric] lp split by simp
qed

text \<open>
  C34. _ftoa reads past its table of powers of ten exactly for an explicit precision of 42 or
  more: for a value that is finite and within 1e9, the conversion returns for every smaller
  precision and reads \<open>pow10[10]\<close> or beyond for the others (the loop that limits the
  precision to 9 stops when the 32-byte buffer is full).
\<close>

theorem ftoa_precision_limit:
  assumes "ftoa_small v"
  shows "if has flags FLAGS_PRECISION \<and> 42 \<le> unat prec
    then ftoa (Suc fuel) out buffer maxlen v prec width flags w = Inl Read_Past_End
    else (\<exists>w'. ftoa (Suc fuel) out buffer maxlen v prec width flags w = Inr w')"
proof -
  let ?p = "if \<not> has flags FLAGS_PRECISION then PRINTF_DEFAULT_FLOAT_PRECISION else prec"
  have e: "ftoa (Suc fuel) out buffer maxlen v prec width flags w =
      rbind (ftoa_buf v prec width flags) (\<lambda>(buf, width'). Inr (out_rev out buffer maxlen buf width' flags w))"
    using assms by (simp add: ftoa_small_def)
  have iff: "unat ?p < 42 \<longleftrightarrow> \<not> (has flags FLAGS_PRECISION \<and> 42 \<le> unat prec)"
    by (auto simp: PRINTF_DEFAULT_FLOAT_PRECISION_def)
  show ?thesis
  proof (cases "unat ?p < 42")
    case True
    with ftoa_buf_outcome(1) [OF refl True, of v width] iff show ?thesis unfolding e by auto
  next
    case False
    with ftoa_buf_outcome(2) [OF refl False, of v width] iff show ?thesis unfolding e by auto
  qed
qed

lemma ftoa_small_of_int: "\<bar>n\<bar> \<le> 1000000000 \<Longrightarrow> ftoa_small (Fin (of_int n))"
proof -
  assume n: "\<bar>n\<bar> \<le> 1000000000"
  have big: "(1000000000 :: rat) < (2 - pow2 (- 52)) * pow2 1023"
  proof -
    have "pow2 (- 52) \<le> 1" "2 ^ 30 \<le> pow2 1023" using pow2_mono [of "- 52" 0] pow2_mono [of 30 1023] by (simp_all add: pow2_def)
    then have "1 * 2 ^ 30 \<le> (2 - pow2 (- 52)) * pow2 1023" by (intro mult_mono) simp_all
    then show ?thesis by simp
  qed
  have "(of_int n :: rat) \<le> of_int 1000000000" "of_int (- 1000000000) \<le> (of_int n :: rat)"
    using n by (simp_all only: of_int_le_iff)
  with big show ?thesis
    by (simp add: ftoa_small_def is_special_def eq_d_def DBL_MAX_def PRINTF_MAX_FLOAT_def)
qed

theorem ftoa_precision_limit_witness:
  "ftoa 1 out_buffer 0 100 (Fin 1) 42 0 FLAGS_PRECISION (0, (\<lambda>_. 0)) = Inl Read_Past_End
    \<and> (\<exists>w'. ftoa 1 out_buffer 0 100 (Fin 1) 41 0 FLAGS_PRECISION (0, (\<lambda>_. 0)) = Inr w')"
proof -
  have s: "ftoa_small (Fin 1)" using ftoa_small_of_int [of 1] by simp
  have h: "has FLAGS_PRECISION FLAGS_PRECISION" by (simp add: has_def flag_defs)
  show ?thesis
    using ftoa_precision_limit [OF s, of FLAGS_PRECISION 42 0 out_buffer 0 100 0 "(0, (\<lambda>_. 0))"]
      ftoa_precision_limit [OF s, of FLAGS_PRECISION 41 0 out_buffer 0 100 0 "(0, (\<lambda>_. 0))"] h by simp
qed

section \<open>Whole numbers\<close>

lemma whole_digits_take:
  "0 \<le> whole \<Longrightarrow> length buf < 32 \<Longrightarrow> whole_digits buf whole =
    buf @ map (digit_byte 0) (take (32 - length buf) (digits_of 10 (nat whole)))"
proof (induction buf whole rule: whole_digits.induct)
  case (1 buf whole)
  have d: "word_of_int (48 + whole mod 10) = digit_byte 0 (nat whole mod 10)"
  proof -
    have "int (nat whole mod 10) = whole mod 10" using "1.prems" by (simp add: zmod_int)
    then have "word_of_int (whole mod 10) = (of_nat (nat whole mod 10) :: u8)" by (metis of_int_of_nat_eq)
    then show ?thesis by (simp add: digit_byte_def)
  qed
  then have d2: "48 + word_of_int (whole mod 10) = digit_byte 0 (nat whole mod 10)" by simp
  have s: "32 - length buf = Suc (31 - length buf)" using "1.prems" by simp
  have n: "nat (whole div 10) = nat whole div 10" by (simp add: nat_div_distrib')
  show ?case
  proof (cases "whole div 10 = 0")
    case True
    then have lt: "nat whole < 10" and "whole mod 10 = whole" using "1.prems" by simp_all
    with d have "48 + word_of_int whole = digit_byte 0 (nat whole)" by simp
    with True lt show ?thesis using "1.prems" unfolding s
      by (subst whole_digits.simps, subst digits_of.simps) (simp add: Let_def)
  next
    case False
    then have ge: "\<not> nat whole < 10" using "1.prems" by simp
    let ?b = "buf @ [word_of_int (48 + whole mod 10)]"
    have r: "whole_digits buf whole = whole_digits ?b (whole div 10)"
      using False "1.prems" by (subst whole_digits.simps) (simp add: Let_def)
    show ?thesis
    proof (cases "length ?b < 32")
      case True
      have "whole_digits ?b (whole div 10) =
          ?b @ map (digit_byte 0) (take (32 - length ?b) (digits_of 10 (nat (whole div 10))))"
        using False True "1.prems" by (intro "1.IH") simp_all
      then show ?thesis unfolding r s n using ge by (subst digits_of.simps) (simp add: d2)
    next
      case full: False
      then have "whole_digits ?b (whole div 10) = ?b" by (subst whole_digits.simps) simp
      moreover have "length buf = 31" using full "1.prems" by simp
      ultimately show ?thesis unfolding r using ge by (subst digits_of.simps) (simp add: d2)
    qed
  qed
qed

lemma frac_zeros_replicate:
  "frac_zeros buf count = buf @ replicate (min (32 - length buf) (unat count)) 0x30"
proof (induction buf count rule: frac_zeros.induct)
  case (1 buf count)
  show ?case
  proof (cases "length buf < 32 \<and> count > 0")
    case True
    then have c: "0 < unat count" by (simp add: word_less_nat_alt)
    then have c1: "unat (count - 1) = unat count - 1" by (intro unat_minus_one) auto
    have k: "min (32 - length buf) (unat count) = Suc (min (32 - length (buf @ [0x30])) (unat (count - 1)))"
      using True c unfolding c1 length_append by simp arith
    from True have "frac_zeros buf count = frac_zeros (buf @ [0x30]) (count - 1)" by (subst frac_zeros.simps) simp
    with True 1 show ?thesis unfolding k by simp
  next
    case False
    then have "min (32 - length buf) (unat count) = 0" by (auto simp: word_less_nat_alt)
    moreover have "frac_zeros buf count = buf" using False by (subst frac_zeros.simps) auto
    ultimately show ?thesis by simp
  qed
qed

text \<open>Zeros, sign and padding of _ftoa are those of an integer conversion of precision 0.\<close>

lemma ftoa_tail:
  assumes "length b \<le> 31" "unat width \<le> 32"
    and w': "width' = (if \<not> has flags FLAGS_LEFT \<and> has flags FLAGS_ZEROPAD \<and> width \<noteq> 0
      \<and> (negative \<or> has flags (FLAGS_PLUS OR FLAGS_SPACE)) then width - 1 else width)"
  shows "rev_text (ntoa_sign (if \<not> has flags FLAGS_LEFT \<and> has flags FLAGS_ZEROPAD then zeros (unat width') b else b)
      negative flags) width' flags = int_text negative (rev b) 0 width flags"
proof -
  let ?f = "flags AND NOT FLAGS_HASH"
  have z: "zeros 0 b = b" by (simp add: zeros_replicate)
  have "has ?f (FLAGS_PLUS OR FLAGS_SPACE) = has flags (FLAGS_PLUS OR FLAGS_SPACE)" by (simp add: has_or_left)
  then have "ntoa_fill b negative 10 0 width ?f =
      (ntoa_sign (if \<not> has flags FLAGS_LEFT \<and> has flags FLAGS_ZEROPAD then zeros (unat width') b else b)
        negative ?f, width')"
    unfolding w' by (auto simp: ntoa_fill_def Let_def z)
  from ntoa_fill_layout [OF assms(1) _ assms(2) _ this]
  have "rev_text (ntoa_sign (if \<not> has flags FLAGS_LEFT \<and> has flags FLAGS_ZEROPAD then zeros (unat width') b else b)
      negative ?f) width' ?f = int_text negative (rev b) 0 width ?f" by simp
  moreover have "ntoa_sign x negative ?f = ntoa_sign x negative flags" for x by (simp add: ntoa_sign_def)
  moreover have "rev_text x width' ?f = rev_text x width' flags" for x
    by (simp add: rev_text_def cong: if_cong)
  ultimately show ?thesis by simp
qed

lemma pow10_at_le9: "unat p \<le> 9 \<Longrightarrow> pow10_at p = Inr (Fin (of_int (10 ^ unat p)))"
proof -
  assume p: "unat p \<le> 9"
  then have "unat p \<in> {0, 1, 2, 3, 4, 5, 6, 7, 8, 9}" by auto
  then have "pow10 ! unat p = Fin (of_int (10 ^ unat p))" by (auto simp: pow10_def)
  with p show ?thesis by (simp add: pow10_at_def pow10_def)
qed

lemma ftoa_split_of_int:
  assumes "\<bar>n\<bar> \<le> 1000000000" "unat p \<le> 9"
  shows "ftoa_split (Fin (of_int n)) p = Inr (n, 0)"
proof -
  have "of_int_d n = Fin (of_int n)" using assms(1) by (intro of_int_d_exact) simp
  moreover have "sub_d (Fin (of_int n)) (Fin (of_int n)) = Fin 0" using sub_d_of_int [of n n] by simp
  moreover have "of_int_d 0 = Fin 0" using of_int_d_exact [of 0] by simp
  moreover have "round64 0 = Fin 0" by (simp add: round64_def)
  ultimately show ?thesis
    using assms(2) trunc_d_of_int [of 0] trunc_d_of_int [of n]
    by (simp add: ftoa_split_def pow10_at_le9 Let_def sub_d_def del: trunc_d.simps trunc_d_of_int)
qed

lemma length_digits_le10: "\<bar>n\<bar> \<le> 1000000000 \<Longrightarrow> length (digits_of 10 (nat \<bar>n\<bar>)) \<le> 10"
  using digits_of_length [of 10 "nat \<bar>n\<bar>" 9] by simp

lemma ftoa_body_of_int:
  assumes "0 \<le> n" "n \<le> 1000000000" "1 \<le> unat p" "unat p \<le> 9"
  shows "rev (ftoa_body [] v n 0 p) = numeral_text 0 10 (nat n) @ 0x2E # replicate (unat p) 0x30"
    "length (ftoa_body [] v n 0 p) \<le> 31"
proof -
  have p0: "p \<noteq> 0" using assms(3) by auto
  have p1: "unat (p - 1) = unat p - 1" by (rule unat_pred32 [OF p0])
  have "frac_digits [] 0 p = ([0x30], p - 1)" by (subst frac_digits.simps) simp
  moreover have "frac_zeros [0x30] (p - 1) = replicate (unat p) 0x30"
    unfolding frac_zeros_replicate p1 using assms(3,4) by (simp add: replicate_Suc [symmetric] del: replicate_Suc)
  moreover have l: "length (digits_of 10 (nat n)) \<le> 10" using length_digits_le10 [of n] assms(1,2) by simp
  moreover have "whole_digits (replicate (unat p) 0x30 @ [0x2E]) n =
      (replicate (unat p) 0x30 @ [0x2E]) @ map (digit_byte 0) (take (32 - (unat p + 1)) (digits_of 10 (nat n)))"
    using whole_digits_take [OF assms(1), of "replicate (unat p) 0x30 @ [0x2E]"] assms(4) by simp
  ultimately have "ftoa_body [] v n 0 p = replicate (unat p) 0x30 @ 0x2E # map (digit_byte 0) (digits_of 10 (nat n))"
    using p0 assms(4) by (simp add: ftoa_body_def push_below_def)
  with l assms(4) show "rev (ftoa_body [] v n 0 p) = numeral_text 0 10 (nat n) @ 0x2E # replicate (unat p) 0x30"
    "length (ftoa_body [] v n 0 p) \<le> 31" by (simp_all add: numeral_text_def)
qed

text \<open>
  A whole number is printed exactly by %f: for an integer of magnitude up to 1e9, a
  precision from 1 to 9 and a width up to 32, _ftoa puts the sign, the decimal digits of the
  number, the point and as many zeros as the precision, laid out like an integer conversion.
\<close>

theorem ftoa_whole_number:
  assumes "\<bar>n\<bar> \<le> 1000000000" "unat width \<le> 32"
    and p: "p = (if has flags FLAGS_PRECISION then prec else 6)" "1 \<le> unat p" "unat p \<le> 9"
  shows "ftoa (Suc fuel) out buffer maxlen (Fin (of_int n)) prec width flags w =
    Inr (emit out buffer maxlen
      (int_text (n < 0) (numeral_text 0 10 (nat \<bar>n\<bar>) @ 0x2E # replicate (unat p) 0x30) 0 width flags) w)"
proof -
  let ?v = "if less_d (Fin (of_int n)) (Fin 0) then sub_d (Fin 0) (Fin (of_int n)) else Fin (of_int n)"
  have neg: "less_d (Fin (of_int n)) (Fin 0) \<longleftrightarrow> n < 0" by simp
  have v: "?v = Fin (of_int \<bar>n\<bar>)"
  proof -
    have "sub_d (Fin 0) (Fin (of_int n)) = Fin (- of_int n)" using sub_d_of_int [of 0 n] assms(1) by simp
    then show ?thesis by (simp add: abs_if)
  qed
  have pr: "(if \<not> has flags FLAGS_PRECISION then PRINTF_DEFAULT_FLOAT_PRECISION else prec) = p"
    using p(1) by (simp add: PRINTF_DEFAULT_FLOAT_PRECISION_def)
  have sp: "ftoa_split (Fin (of_int \<bar>n\<bar>)) p = Inr (\<bar>n\<bar>, 0)" using assms(1) p(3) by (intro ftoa_split_of_int) simp_all
  let ?w = "if \<not> has flags FLAGS_LEFT \<and> has flags FLAGS_ZEROPAD \<and> width \<noteq> 0
      \<and> (n < 0 \<or> has flags (FLAGS_PLUS OR FLAGS_SPACE)) then width - 1 else width"
  let ?b = "ftoa_body [] (Fin (of_int \<bar>n\<bar>)) \<bar>n\<bar> 0 p"
  have b: "rev ?b = numeral_text 0 10 (nat \<bar>n\<bar>) @ 0x2E # replicate (unat p) 0x30" "length ?b \<le> 31"
    using ftoa_body_of_int [of "\<bar>n\<bar>" p] assms(1) p by simp_all
  have buf: "ftoa_buf (Fin (of_int n)) prec width flags = Inr (ntoa_sign (if \<not> has flags FLAGS_LEFT
      \<and> has flags FLAGS_ZEROPAD then zeros (unat ?w) ?b else ?b) (n < 0) flags, ?w)"
    unfolding ftoa_buf_def Let_def pr limit_prec_small [OF p(3)] split v
    unfolding sp neg by simp
  from ftoa_tail [OF b(2) assms(2) refl, of flags "n < 0"] length_ftoa_buf [OF buf] ftoa_small_of_int [OF assms(1)]
  show ?thesis
    unfolding b(1) by (simp add: ftoa_small_def buf out_rev_emit del: sub_d_of_int cong: if_cong)
qed

theorem ftoa_whole_number_witness:
  "ftoa 1 out_buffer 0 100 (Fin (- 42)) 2 8 FLAGS_PRECISION (0, (\<lambda>_. 0)) =
     Inr (emit out_buffer 0 100 (bytes_of ''  -42.00'') (0, (\<lambda>_. 0)))"
proof -
  have h: "has FLAGS_PRECISION FLAGS_PRECISION" "\<not> has FLAGS_PRECISION FLAGS_LEFT" "\<not> has FLAGS_PRECISION FLAGS_ZEROPAD"
    "\<not> has 0 FLAGS_UPPERCASE"
    by (simp_all add: has_def flag_defs)
  have t: "int_text True (numeral_text 0 10 42 @ 0x2E # replicate 2 0x30) 0 8 FLAGS_PRECISION = bytes_of ''  -42.00''"
    by code_simp
  show ?thesis
    using ftoa_whole_number [of "- 42" 8 2 FLAGS_PRECISION 2 0 out_buffer 0 100 "(0, (\<lambda>_. 0))"] h t by simp
qed

section \<open>A rounding that overruns the precision\<close>

text \<open>
  The branch for a fraction of exactly one half does not check for the carry: the fraction
  then has one digit more than the precision, the counter of digits wraps around, and the
  zeros fill the buffer, so that neither the point nor the whole part is written.
\<close>

lemma d095: "of_bits 0x3FEE666666666666 = Fin (8556839292003942 / 9007199254740992)"
  by (simp add: of_bits_def Let_def pow2_def)

lemma round_d095: "round64 (8556839292003942 / 9007199254740992) = Fin (8556839292003942 / 9007199254740992)"
  using round64_eqI [of "8556839292003942 / 9007199254740992" "-1" 8556839292003942]
  by (simp add: pow2_def round_half_even_def)

lemma round_d095_10: "round64 (10 * (8556839292003942 / 9007199254740992)) = Fin (19/2)"
proof -
  have f: "\<lfloor>21392098230009855 / 4 :: rat\<rfloor> = 5348024557502463" by (simp add: floor_eq_iff)
  have "round_half_even (21392098230009855 / 4) = 5348024557502464"
    unfolding round_half_even_def Let_def f by simp
  then show ?thesis
    using round64_eqI [of "10 * (8556839292003942 / 9007199254740992)" "3" 5348024557502464]
    by (simp add: pow2_def)
qed

lemma split_d095: "ftoa_split (of_bits 0x3FEE666666666666) 1 = Inr (0, 10)"
proof -
  have r: "round64 (1/2) = Fin (1/2)"
    using round64_eqI [of "1/2" "-1" "2^52"] round_half_even_of_int [of "2^52"] by (simp add: pow2_def)
  have i: "of_int_d 0 = Fin 0" "of_int_d 9 = Fin 9" using of_int_d_exact [of 0] of_int_d_exact [of 9] by simp_all
  have f: "\<lfloor>19/2 :: rat\<rfloor> = 9" "\<lfloor>4278419646001971 / 4503599627370496 :: rat\<rfloor> = 0" by (simp_all add: floor_eq_iff)
  have "sub_d (of_bits 0x3FEE666666666666) (Fin 0) = of_bits 0x3FEE666666666666"
    unfolding d095 sub_d_def using round_d095 by simp
  moreover have "mul_d (of_bits 0x3FEE666666666666) (Fin 10) = Fin (19/2)"
    unfolding d095 using round_d095_10 by (simp add: mult.commute)
  moreover have "sub_d (Fin (19/2)) (Fin 9) = Fin (1/2)" using r by (simp add: sub_d_def)
  moreover have "trunc_d (Fin (19/2)) = 9" "trunc_d (of_bits 0x3FEE666666666666) = 0" unfolding d095 by (simp_all add: f)
  ultimately show ?thesis
    by (simp add: ftoa_split_def pow10_at_def pow10_def i Let_def del: trunc_d.simps mul_d.simps)
qed

text \<open>
  printf("%.1f", 0.95) is wrong: _ftoa puts thirty zeros and the digits 10, with neither a
  point nor a whole part, instead of 0.9 or 1.0.
\<close>

theorem ftoa_095:
  "ftoa (Suc fuel) out buffer maxlen (of_bits 0x3FEE666666666666) 1 0 FLAGS_PRECISION w =
     Inr (emit out buffer maxlen (replicate 30 0x30 @ bytes_of ''10'') w)"
proof -
  have h: "has FLAGS_PRECISION FLAGS_PRECISION" "\<not> has FLAGS_PRECISION FLAGS_LEFT" "\<not> has FLAGS_PRECISION FLAGS_ZEROPAD"
    "\<not> has FLAGS_PRECISION FLAGS_PLUS" "\<not> has FLAGS_PRECISION FLAGS_SPACE"
    by (simp_all add: has_def flag_defs)
  have small: "ftoa_small (of_bits 0x3FEE666666666666)"
    using ftoa_small_of_int [of 1] by (auto simp: ftoa_small_def is_special_def eq_d_def d095 DBL_MAX_def PRINTF_MAX_FLOAT_def)
  have neg: "\<not> less_d (of_bits 0x3FEE666666666666) (Fin 0)" unfolding d095 by simp
  have "frac_digits [] 10 1 = ([0x30, 0x31], - 1)"
    by (subst frac_digits.simps, simp add: Let_def, subst frac_digits.simps) simp
  moreover have "frac_zeros [0x30, 0x31] (- 1) = [0x30, 0x31] @ replicate 30 0x30"
  proof -
    have "unat (- 1 :: u32) = 4294967295" by (simp add: unsigned_minus_1_eq_mask mask_eq_exp_minus_1)
    then show ?thesis by (simp add: frac_zeros_replicate)
  qed
  ultimately have body: "ftoa_body [] (of_bits 0x3FEE666666666666) 0 10 1 = [0x30, 0x31] @ replicate 30 0x30"
    by (simp add: ftoa_body_def push_below_def whole_digits.simps)
  have "ftoa_buf (of_bits 0x3FEE666666666666) 1 0 FLAGS_PRECISION = Inr ([0x30, 0x31] @ replicate 30 0x30, 0)"
    using h neg split_d095 body by (simp add: ftoa_buf_def limit_prec_small ntoa_sign_def)
  moreover have "rev_text ([0x30, 0x31] @ replicate 30 0x30) 0 FLAGS_PRECISION = replicate 30 0x30 @ bytes_of ''10''"
    using h by (simp add: rev_text_def bytes_of_def of_char_def)
  ultimately show ?thesis using small by (simp add: ftoa_small_def out_rev_emit)
qed

end
