(* ===== verification/Printf_Format.thy ===== *)
theory Printf_Format
  imports Printf_Float
begin

text \<open>
  The format interpreter of libc/stdio/printf.c, _vsnprintf, and the functions built on it.
  A format or string is the list of the bytes from the pointer to the end of its array;
  reading beyond that is \<open>Read_Past_End\<close>.  The variable arguments are a list; fetching one
  with va_arg at the wrong type, or when none is left, is \<open>Bad_Vararg\<close>.  Arithmetic on
  \<open>int\<close> that C leaves undefined wraps around, as the generated code does.

  \<open>render\<close> is the text of a call as a function of the format and the arguments alone.
\<close>

section \<open>Arguments\<close>

fun va_word :: "varg list \<Rightarrow> (u64 \<times> varg list) outcome" where
  "va_word (Word a # va) = Inr (a, va)"
| "va_word va = Inl Bad_Vararg"

fun va_str :: "varg list \<Rightarrow> (u8 list \<times> varg list) outcome" where
  "va_str (Str p # va) = Inr (p, va)"
| "va_str va = Inl Bad_Vararg"

fun va_dbl :: "varg list \<Rightarrow> (double \<times> varg list) outcome" where
  "va_dbl (Dbl d # va) = Inr (of_bits d, va)"
| "va_dbl va = Inl Bad_Vararg"

section \<open>Parsing a directive\<close>

fun peek :: "u8 list \<Rightarrow> u8 outcome" where
  "peek [] = Inl Read_Past_End"
| "peek (c # fmt) = Inr c"

definition is_digit :: "u8 \<Rightarrow> bool" where
  "is_digit ch \<longleftrightarrow> ch \<ge> 0x30 \<and> ch \<le> 0x39"

fun atoi_loop :: "u8 list \<Rightarrow> u32 \<Rightarrow> (u32 \<times> u8 list) outcome" where
  "atoi_loop [] i = Inl Read_Past_End"
| "atoi_loop (c # fmt) i =
     (if is_digit c then atoi_loop fmt (i * 10 + (ucast c - 0x30)) else Inr (i, c # fmt))"

definition atoi :: "u8 list \<Rightarrow> (u32 \<times> u8 list) outcome" where
  "atoi fmt = atoi_loop fmt 0"

fun parse_flags :: "u8 list \<Rightarrow> u32 \<Rightarrow> (u32 \<times> u8 list) outcome" where
  "parse_flags [] flags = Inl Read_Past_End"
| "parse_flags (c # fmt) flags =
     (if c = 0x30 then parse_flags fmt (flags OR FLAGS_ZEROPAD)
      else if c = 0x2D then parse_flags fmt (flags OR FLAGS_LEFT)
      else if c = 0x2B then parse_flags fmt (flags OR FLAGS_PLUS)
      else if c = 0x20 then parse_flags fmt (flags OR FLAGS_SPACE)
      else if c = 0x23 then parse_flags fmt (flags OR FLAGS_HASH)
      else Inr (flags, c # fmt))"

definition parse_width ::
  "u8 list \<Rightarrow> varg list \<Rightarrow> u32 \<Rightarrow> (u32 \<times> u32 \<times> u8 list \<times> varg list) outcome" where
  "parse_width fmt va flags =
     rbind (peek fmt) (\<lambda>c.
       if is_digit c then rbind (atoi fmt) (\<lambda>(width, fmt'). Inr (width, flags, fmt', va))
       else if c = 0x2A then
         rbind (va_word va) (\<lambda>(a, va').
           let w = (ucast a :: u32) in
           if sint w < 0 then Inr (- w, flags OR FLAGS_LEFT, tl fmt, va') else Inr (w, flags, tl fmt, va'))
       else Inr (0, flags, fmt, va))"

definition parse_precision ::
  "u8 list \<Rightarrow> varg list \<Rightarrow> u32 \<Rightarrow> (u32 \<times> u32 \<times> u8 list \<times> varg list) outcome" where
  "parse_precision fmt va flags =
     rbind (peek fmt) (\<lambda>c.
       if c = 0x2E then
         let flags' = flags OR FLAGS_PRECISION in
         rbind (peek (tl fmt)) (\<lambda>c'.
           if is_digit c' then rbind (atoi (tl fmt)) (\<lambda>(precision, fmt'). Inr (precision, flags', fmt', va))
           else if c' = 0x2A then
             rbind (va_word va) (\<lambda>(a, va').
               let prec = (ucast a :: u32) in
               Inr (if sint prec > 0 then prec else 0, flags', tl (tl fmt), va'))
           else Inr (0, flags', tl fmt, va))
       else Inr (0, flags, fmt, va))"

text \<open>On x86_64 ptrdiff_t, intmax_t and size_t all have the size of \<open>long\<close>.\<close>

definition parse_length :: "u8 list \<Rightarrow> u32 \<Rightarrow> (u32 \<times> u8 list) outcome" where
  "parse_length fmt flags =
     rbind (peek fmt) (\<lambda>c.
       if c = 0x6C then
         rbind (peek (tl fmt)) (\<lambda>c'.
           if c' = 0x6C then Inr (flags OR FLAGS_LONG OR FLAGS_LONG_LONG, tl (tl fmt))
           else Inr (flags OR FLAGS_LONG, tl fmt))
       else if c = 0x68 then
         rbind (peek (tl fmt)) (\<lambda>c'.
           if c' = 0x68 then Inr (flags OR FLAGS_SHORT OR FLAGS_CHAR, tl (tl fmt))
           else Inr (flags OR FLAGS_SHORT, tl fmt))
       else if c = 0x74 \<or> c = 0x6A \<or> c = 0x7A then Inr (flags OR FLAGS_LONG, tl fmt)
       else Inr (flags, fmt))"

text \<open>Everything between the percent sign and the specifier: flags, width, precision, length.\<close>

definition parse_spec :: "u8 list \<Rightarrow> varg list \<Rightarrow> (u32 \<times> u32 \<times> u32 \<times> u8 list \<times> varg list) outcome" where
  "parse_spec fmt va =
     rbind (parse_flags fmt 0) (\<lambda>(flags, fmt).
     rbind (parse_width fmt va flags) (\<lambda>(width, flags, fmt, va).
     rbind (parse_precision fmt va flags) (\<lambda>(precision, flags, fmt, va).
     rbind (parse_length fmt flags) (\<lambda>(flags, fmt).
       Inr (flags, width, precision, fmt, va)))))"

section \<open>Conversions\<close>

subsection \<open>Integers\<close>

definition is_int_spec :: "u8 \<Rightarrow> bool" where
  "is_int_spec c \<longleftrightarrow> c = 0x64 \<or> c = 0x69 \<or> c = 0x75 \<or> c = 0x78 \<or> c = 0x58 \<or> c = 0x6F \<or> c = 0x62"

definition is_signed_spec :: "u8 \<Rightarrow> bool" where
  "is_signed_spec c \<longleftrightarrow> c = 0x69 \<or> c = 0x64"

definition int_base :: "u8 \<Rightarrow> u64" where
  "int_base c = (if c = 0x78 \<or> c = 0x58 then 16 else if c = 0x6F then 8 else if c = 0x62 then 2 else 10)"

definition int_flags :: "u8 \<Rightarrow> u32 \<Rightarrow> u32" where
  "int_flags c flags =
     (let f1 = (if int_base c = 10 then flags AND NOT FLAGS_HASH else flags);
          f2 = (if c = 0x58 then f1 OR FLAGS_UPPERCASE else f1);
          f3 = (if \<not> is_signed_spec c then f2 AND NOT (FLAGS_PLUS OR FLAGS_SPACE) else f2);
          f4 = (if has f3 FLAGS_PRECISION then f3 AND NOT FLAGS_ZEROPAD else f3)
      in f4)"

text \<open>The magnitude \<open>value > 0 ? value : 0 - value\<close> of a signed value and its sign.\<close>

definition magnitude :: "'a::len word \<Rightarrow> 'a word" where
  "magnitude v = (if sint v > 0 then v else 0 - v)"

text \<open>The \<open>int\<close> and the \<open>unsigned int\<close> a directive without l fetches.\<close>

definition int_arg :: "u32 \<Rightarrow> u64 \<Rightarrow> u32" where
  "int_arg flags a =
     (if has flags FLAGS_CHAR then scast (ucast a :: u8)
      else if has flags FLAGS_SHORT then scast (ucast a :: u16) else ucast a)"

definition uint_arg :: "u32 \<Rightarrow> u64 \<Rightarrow> u32" where
  "uint_arg flags a =
     (if has flags FLAGS_CHAR then ucast (ucast a :: u8)
      else if has flags FLAGS_SHORT then ucast (ucast a :: u16) else ucast a)"

definition conv_int ::
  "'s out_fct \<Rightarrow> u64 \<Rightarrow> u64 \<Rightarrow> u8 \<Rightarrow> u32 \<Rightarrow> u32 \<Rightarrow> u32 \<Rightarrow> varg list \<Rightarrow> u64 \<times> 's
     \<Rightarrow> (varg list \<times> u64 \<times> 's) outcome" where
  "conv_int out buffer maxlen c flags0 width precision va w =
     (let base = int_base c; flags = int_flags c flags0 in
      rbind (va_word va) (\<lambda>(a, va').
        if is_signed_spec c then
          if has flags FLAGS_LONG_LONG then
            Inr (va', ntoa_long_long out buffer maxlen (magnitude a) (sint a < 0) base precision width flags w)
          else if has flags FLAGS_LONG then
            Inr (va', ntoa_long out buffer maxlen (magnitude a) (sint a < 0) base precision width flags w)
          else
            let v = int_arg flags a in
            Inr (va', ntoa_long out buffer maxlen (ucast (magnitude v)) (sint v < 0) base precision width flags w)
        else
          if has flags FLAGS_LONG_LONG then
            Inr (va', ntoa_long_long out buffer maxlen a False base precision width flags w)
          else if has flags FLAGS_LONG then
            Inr (va', ntoa_long out buffer maxlen a False base precision width flags w)
          else
            Inr (va', ntoa_long out buffer maxlen (ucast (uint_arg flags a)) False base precision width flags w)))"

subsection \<open>Characters and strings\<close>

definition conv_char ::
  "'s out_fct \<Rightarrow> u64 \<Rightarrow> u64 \<Rightarrow> u32 \<Rightarrow> u32 \<Rightarrow> varg list \<Rightarrow> u64 \<times> 's \<Rightarrow> (varg list \<times> u64 \<times> 's) outcome" where
  "conv_char out buffer maxlen flags width va w =
     (let w1 = (if \<not> has flags FLAGS_LEFT then spaces out buffer maxlen 1 (unat width) w else w) in
      rbind (va_word va) (\<lambda>(a, va').
        let w2 = putc out buffer maxlen (ucast a) w1 in
        Inr (va', if has flags FLAGS_LEFT then spaces out buffer maxlen 1 (unat width) w2 else w2)))"

fun strnlen_loop :: "u8 list \<Rightarrow> u64 \<Rightarrow> nat \<Rightarrow> nat outcome" where
  "strnlen_loop [] maxsize n = Inl Read_Past_End"
| "strnlen_loop (c # s) maxsize n =
     (if c \<noteq> 0 \<and> maxsize \<noteq> 0 then strnlen_loop s (maxsize - 1) (Suc n) else Inr n)"

definition strnlen_s :: "u8 list \<Rightarrow> u64 \<Rightarrow> u32 outcome" where
  "strnlen_s str maxsize = rbind (strnlen_loop str maxsize 0) (\<lambda>n. Inr (of_nat n))"

fun put_string :: "'s out_fct \<Rightarrow> u64 \<Rightarrow> u64 \<Rightarrow> u8 list \<Rightarrow> u32 \<Rightarrow> u32 \<Rightarrow> u64 \<times> 's \<Rightarrow> (u64 \<times> 's) outcome" where
  "put_string out buffer maxlen [] flags precision w = Inl Read_Past_End"
| "put_string out buffer maxlen (c # p) flags precision w =
     (if c \<noteq> 0 \<and> (\<not> has flags FLAGS_PRECISION \<or> precision \<noteq> 0)
      then put_string out buffer maxlen p flags
             (if has flags FLAGS_PRECISION then precision - 1 else precision) (putc out buffer maxlen c w)
      else Inr w)"

definition conv_string ::
  "'s out_fct \<Rightarrow> u64 \<Rightarrow> u64 \<Rightarrow> u32 \<Rightarrow> u32 \<Rightarrow> u32 \<Rightarrow> varg list \<Rightarrow> u64 \<times> 's \<Rightarrow> (varg list \<times> u64 \<times> 's) outcome" where
  "conv_string out buffer maxlen flags width precision va w =
     rbind (va_str va) (\<lambda>(p, va').
     rbind (strnlen_s p (if precision \<noteq> 0 then ucast precision else - 1)) (\<lambda>l0.
       let l = (if has flags FLAGS_PRECISION then min l0 precision else l0);
           w1 = (if \<not> has flags FLAGS_LEFT then spaces out buffer maxlen (unat l) (unat width) w else w)
       in rbind (put_string out buffer maxlen p flags precision w1) (\<lambda>w2.
            Inr (va', if has flags FLAGS_LEFT then spaces out buffer maxlen (unat l) (unat width) w2 else w2))))"

subsection \<open>Pointers\<close>

definition conv_pointer ::
  "'s out_fct \<Rightarrow> u64 \<Rightarrow> u64 \<Rightarrow> u32 \<Rightarrow> u32 \<Rightarrow> varg list \<Rightarrow> u64 \<times> 's \<Rightarrow> (varg list \<times> u64 \<times> 's) outcome" where
  "conv_pointer out buffer maxlen flags0 precision va w =
     (let width = 16; flags = flags0 OR FLAGS_ZEROPAD OR FLAGS_UPPERCASE in
      rbind (va_word va) (\<lambda>(a, va').
        Inr (va', ntoa_long_long out buffer maxlen a False 16 precision width flags w)))"

subsection \<open>The specifier\<close>

definition convert ::
  "'s out_fct \<Rightarrow> u64 \<Rightarrow> u64 \<Rightarrow> u8 \<Rightarrow> u32 \<Rightarrow> u32 \<Rightarrow> u32 \<Rightarrow> varg list \<Rightarrow> u64 \<times> 's
     \<Rightarrow> (varg list \<times> u64 \<times> 's) outcome" where
  "convert out buffer maxlen c flags width precision va w =
     (if is_int_spec c then conv_int out buffer maxlen c flags width precision va w
      else if c = 0x66 \<or> c = 0x46 then
        let flags' = (if c = 0x46 then flags OR FLAGS_UPPERCASE else flags) in
        rbind (va_dbl va) (\<lambda>(d, va').
        rbind (ftoa FTOA_FUEL out buffer maxlen d precision width flags' w) (\<lambda>w'. Inr (va', w')))
      else if c = 0x65 \<or> c = 0x45 \<or> c = 0x67 \<or> c = 0x47 then
        let f1 = (if c = 0x67 \<or> c = 0x47 then flags OR FLAGS_ADAPT_EXP else flags);
            f2 = (if c = 0x45 \<or> c = 0x47 then f1 OR FLAGS_UPPERCASE else f1) in
        rbind (va_dbl va) (\<lambda>(d, va').
        rbind (etoa FTOA_FUEL out buffer maxlen d precision width f2 w) (\<lambda>w'. Inr (va', w')))
      else if c = 0x63 then conv_char out buffer maxlen flags width va w
      else if c = 0x73 then conv_string out buffer maxlen flags width precision va w
      else if c = 0x70 then conv_pointer out buffer maxlen flags precision va w
      else if c = 0x25 then Inr (va, putc out buffer maxlen 0x25 w)
      else Inr (va, putc out buffer maxlen c w))"

definition directive ::
  "'s out_fct \<Rightarrow> u64 \<Rightarrow> u64 \<Rightarrow> u8 list \<Rightarrow> varg list \<Rightarrow> u64 \<times> 's \<Rightarrow> (u8 list \<times> varg list \<times> u64 \<times> 's) outcome" where
  "directive out buffer maxlen fmt va w =
     rbind (parse_spec fmt va) (\<lambda>(flags, width, precision, fmt', va').
     rbind (peek fmt') (\<lambda>c.
     rbind (convert out buffer maxlen c flags width precision va' w) (\<lambda>(va'', w').
       Inr (tl fmt', va'', w'))))"

section \<open>The interpreter\<close>

text \<open>Parsing never lengthens the format, so that the interpreter ends on every format.\<close>

lemma atoi_loop_length: "atoi_loop fmt i = Inr (n, fmt') \<Longrightarrow> length fmt' \<le> length fmt"
  by (induction fmt i rule: atoi_loop.induct) (auto split: if_splits)

lemma parse_flags_length: "parse_flags fmt f = Inr (f', fmt') \<Longrightarrow> length fmt' \<le> length fmt"
  by (induction fmt f rule: parse_flags.induct) (auto split: if_splits)

lemma peek_tl_length: "peek fmt = Inr c \<Longrightarrow> Suc (length (tl fmt)) = length fmt"
  by (cases fmt) auto

lemma parse_width_length: "parse_width fmt va f = Inr (w, f', fmt', va') \<Longrightarrow> length fmt' \<le> length fmt"
  by (auto simp: parse_width_def rbind_Inr_iff atoi_def Let_def dest: atoi_loop_length split: if_splits)

lemma parse_precision_length: "parse_precision fmt va f = Inr (w, f', fmt', va') \<Longrightarrow> length fmt' \<le> length fmt"
  by (auto simp: parse_precision_def rbind_Inr_iff atoi_def Let_def dest!: atoi_loop_length split: if_splits)

lemma parse_length_length: "parse_length fmt f = Inr (f', fmt') \<Longrightarrow> length fmt' \<le> length fmt"
  by (auto simp: parse_length_def rbind_Inr_iff split: if_splits)

lemma parse_spec_length:
  "parse_spec fmt va = Inr (flags, width, precision, fmt', va') \<Longrightarrow> length fmt' \<le> length fmt"
  by (auto simp: parse_spec_def rbind_Inr_iff
      dest!: parse_flags_length parse_width_length parse_precision_length parse_length_length)

lemma directive_length:
  "directive out buffer maxlen fmt va w = Inr (fmt', va', w') \<Longrightarrow> length fmt' \<le> length fmt"
  by (auto simp: directive_def rbind_Inr_iff dest!: parse_spec_length)

function vsnprintf_loop ::
  "'s out_fct \<Rightarrow> u64 \<Rightarrow> u64 \<Rightarrow> u8 list \<Rightarrow> varg list \<Rightarrow> u64 \<times> 's \<Rightarrow> (u64 \<times> 's) outcome" where
  "vsnprintf_loop out buffer maxlen [] va w = Inl Read_Past_End"
| "vsnprintf_loop out buffer maxlen (c # fmt) va w =
     (if c = 0 then Inr w
      else if c \<noteq> 0x25 then vsnprintf_loop out buffer maxlen fmt va (putc out buffer maxlen c w)
      else rbind (directive out buffer maxlen fmt va w) (\<lambda>(fmt', va', w').
             vsnprintf_loop out buffer maxlen fmt' va' w'))"
  by pat_completeness auto
termination
  by (relation "measure (\<lambda>(out, buffer, maxlen, fmt, va, w). length fmt)")
    (auto dest: directive_length)

definition vsnprintf_internal ::
  "'s out_fct \<Rightarrow> u64 \<Rightarrow> u64 \<Rightarrow> u8 list \<Rightarrow> varg list \<Rightarrow> 's \<Rightarrow> (u32 \<times> 's) outcome" where
  "vsnprintf_internal out0 buffer maxlen fmt va s =
     (let out = (if buffer = 0 then out_null else out0) in
      rbind (vsnprintf_loop out buffer maxlen fmt va (0, s)) (\<lambda>(idx, s').
        Inr (ucast idx, out 0 buffer (if idx < maxlen then idx else maxlen - 1) maxlen s')))"

text \<open>
  The functions of printf.h.  The one-byte array printf passes as buffer is never accessed,
  only its address matters, which is not NULL.
\<close>

definition printf :: "(u8 \<Rightarrow> 's \<Rightarrow> 's) \<Rightarrow> u8 list \<Rightarrow> varg list \<Rightarrow> 's \<Rightarrow> (u32 \<times> 's) outcome" where
  "printf putchar fmt va = vsnprintf_internal (out_char putchar) 1 (- 1) fmt va"

definition vprintf :: "(u8 \<Rightarrow> 's \<Rightarrow> 's) \<Rightarrow> u8 list \<Rightarrow> varg list \<Rightarrow> 's \<Rightarrow> (u32 \<times> 's) outcome" where
  "vprintf putchar fmt va = vsnprintf_internal (out_char putchar) 1 (- 1) fmt va"

definition sprintf :: "u64 \<Rightarrow> u8 list \<Rightarrow> varg list \<Rightarrow> mem \<Rightarrow> (u32 \<times> mem) outcome" where
  "sprintf buffer fmt va = vsnprintf_internal out_buffer buffer (- 1) fmt va"

definition snprintf :: "u64 \<Rightarrow> u64 \<Rightarrow> u8 list \<Rightarrow> varg list \<Rightarrow> mem \<Rightarrow> (u32 \<times> mem) outcome" where
  "snprintf buffer count fmt va = vsnprintf_internal out_buffer buffer count fmt va"

definition vsnprintf :: "u64 \<Rightarrow> u64 \<Rightarrow> u8 list \<Rightarrow> varg list \<Rightarrow> mem \<Rightarrow> (u32 \<times> mem) outcome" where
  "vsnprintf buffer count fmt va = vsnprintf_internal out_buffer buffer count fmt va"

definition fctprintf :: "(u8 \<Rightarrow> 's \<Rightarrow> 's) \<Rightarrow> u8 list \<Rightarrow> varg list \<Rightarrow> 's \<Rightarrow> (u32 \<times> 's) outcome" where
  "fctprintf fct fmt va = vsnprintf_internal (out_fct_wrap fct) 1 (- 1) fmt va"

section \<open>The text of a call\<close>

fun string_text :: "u8 list \<Rightarrow> u32 \<Rightarrow> u32 \<Rightarrow> u8 list outcome" where
  "string_text [] flags precision = Inl Read_Past_End"
| "string_text (c # p) flags precision =
     (if c \<noteq> 0 \<and> (\<not> has flags FLAGS_PRECISION \<or> precision \<noteq> 0)
      then rbind (string_text p flags (if has flags FLAGS_PRECISION then precision - 1 else precision))
             (\<lambda>t. Inr (c # t))
      else Inr [])"

definition pad_text :: "u32 \<Rightarrow> nat \<Rightarrow> nat \<Rightarrow> u8 list \<Rightarrow> u8 list" where
  "pad_text flags l width t =
     (if has flags FLAGS_LEFT then t @ replicate (width - l) 0x20 else replicate (width - l) 0x20 @ t)"

definition int_conv_text :: "u8 \<Rightarrow> u32 \<Rightarrow> u32 \<Rightarrow> u32 \<Rightarrow> u64 \<Rightarrow> u8 list" where
  "int_conv_text c flags0 width precision a =
     (let base = int_base c; flags = int_flags c flags0 in
      if is_signed_spec c then
        if has flags FLAGS_LONG_LONG \<or> has flags FLAGS_LONG
        then ntoa_text (magnitude a) (sint a < 0) base precision width flags
        else let v = int_arg flags a in ntoa_text (ucast (magnitude v)) (sint v < 0) base precision width flags
      else if has flags FLAGS_LONG_LONG \<or> has flags FLAGS_LONG
      then ntoa_text a False base precision width flags
      else ntoa_text (ucast (uint_arg flags a)) False base precision width flags)"

definition convert_text :: "u8 \<Rightarrow> u32 \<Rightarrow> u32 \<Rightarrow> u32 \<Rightarrow> varg list \<Rightarrow> (varg list \<times> u8 list) outcome" where
  "convert_text c flags width precision va =
     (if is_int_spec c then
        rbind (va_word va) (\<lambda>(a, va'). Inr (va', int_conv_text c flags width precision a))
      else if c = 0x66 \<or> c = 0x46 then
        rbind (va_dbl va) (\<lambda>(d, va').
        rbind (ftoa_text FTOA_FUEL d precision width (if c = 0x46 then flags OR FLAGS_UPPERCASE else flags))
          (\<lambda>t. Inr (va', t)))
      else if c = 0x65 \<or> c = 0x45 \<or> c = 0x67 \<or> c = 0x47 then
        rbind (va_dbl va) (\<lambda>(d, va').
        rbind (etoa_text FTOA_FUEL d precision width
                 (let f1 = (if c = 0x67 \<or> c = 0x47 then flags OR FLAGS_ADAPT_EXP else flags)
                  in if c = 0x45 \<or> c = 0x47 then f1 OR FLAGS_UPPERCASE else f1))
          (\<lambda>t. Inr (va', t)))
      else if c = 0x63 then
        rbind (va_word va) (\<lambda>(a, va'). Inr (va', pad_text flags 1 (unat width) [ucast a]))
      else if c = 0x73 then
        rbind (va_str va) (\<lambda>(p, va').
        rbind (strnlen_s p (if precision \<noteq> 0 then ucast precision else - 1)) (\<lambda>l0.
        rbind (string_text p flags precision) (\<lambda>t.
          Inr (va', pad_text flags (unat (if has flags FLAGS_PRECISION then min l0 precision else l0)) (unat width) t))))
      else if c = 0x70 then
        rbind (va_word va) (\<lambda>(a, va').
          Inr (va', ntoa_text a False 16 precision 16 (flags OR FLAGS_ZEROPAD OR FLAGS_UPPERCASE)))
      else Inr (va, [c]))"

definition directive_text :: "u8 list \<Rightarrow> varg list \<Rightarrow> (u8 list \<times> varg list \<times> u8 list) outcome" where
  "directive_text fmt va =
     rbind (parse_spec fmt va) (\<lambda>(flags, width, precision, fmt', va').
     rbind (peek fmt') (\<lambda>c.
     rbind (convert_text c flags width precision va') (\<lambda>(va'', t).
       Inr (tl fmt', va'', t))))"

lemma directive_text_length:
  "directive_text fmt va = Inr (fmt', va', t) \<Longrightarrow> length fmt' \<le> length fmt"
  by (auto simp: directive_text_def rbind_Inr_iff dest!: parse_spec_length)

function render :: "u8 list \<Rightarrow> varg list \<Rightarrow> u8 list outcome" where
  "render [] va = Inl Read_Past_End"
| "render (c # fmt) va =
     (if c = 0 then Inr []
      else if c \<noteq> 0x25 then rbind (render fmt va) (\<lambda>t. Inr (c # t))
      else rbind (directive_text fmt va) (\<lambda>(fmt', va', t). rbind (render fmt' va') (\<lambda>t'. Inr (t @ t'))))"
  by pat_completeness auto
termination by (relation "measure (\<lambda>(fmt, va). length fmt)") (auto dest: directive_text_length)

end
