(* ===== verification/Printf_Render.thy ===== *)
theory Printf_Render
  imports Printf_Format
begin

text \<open>
  The interpreter refines \<open>render\<close>: whatever the output function does, a call puts the
  characters of \<open>render\<close> in order, then the terminating NUL, and returns their number; it
  fails precisely when \<open>render\<close> does.  From this follow the contracts of snprintf and printf.
\<close>

section \<open>Refinement\<close>

lemma put_string_text:
  "put_string out buffer maxlen p flags precision w = puts_text out buffer maxlen w (string_text p flags precision)"
proof (induction p arbitrary: precision w)
  case (Cons c p)
  show ?case
  proof (cases "c \<noteq> 0 \<and> (\<not> has flags FLAGS_PRECISION \<or> precision \<noteq> 0)")
    case True
    then show ?thesis
      using Cons.IH [of "if has flags FLAGS_PRECISION then precision - 1 else precision" "putc out buffer maxlen c w"]
      by (cases "string_text p flags (if has flags FLAGS_PRECISION then precision - 1 else precision)") auto
  next
    case False
    then show ?thesis by auto
  qed
qed simp

lemma conv_int_text:
  "conv_int out buffer maxlen c flags width precision va w =
    rbind (va_word va) (\<lambda>(a, va'). Inr (va', emit out buffer maxlen (int_conv_text c flags width precision a) w))"
  by (cases "va_word va") (auto simp: conv_int_def int_conv_text_def Let_def ntoa_long_emit ntoa_long_long_emit)

lemma conv_char_text:
  "conv_char out buffer maxlen flags width va w =
    rbind (va_word va) (\<lambda>(a, va'). Inr (va', emit out buffer maxlen (pad_text flags 1 (unat width) [ucast a]) w))"
  by (cases "va_word va") (auto simp: conv_char_def pad_text_def Let_def spaces_emit)

lemma conv_string_text:
  "conv_string out buffer maxlen flags width precision va w =
    rbind (va_str va) (\<lambda>(p, va').
    rbind (strnlen_s p (if precision \<noteq> 0 then ucast precision else - 1)) (\<lambda>l0.
    rbind (string_text p flags precision) (\<lambda>t.
      Inr (va', emit out buffer maxlen
        (pad_text flags (unat (if has flags FLAGS_PRECISION then min l0 precision else l0)) (unat width) t) w))))"
proof (cases "va_str va")
  case (Inr r)
  obtain p va' where r: "r = (p, va')" by (cases r)
  show ?thesis
  proof (cases "strnlen_s p (if precision \<noteq> 0 then ucast precision else - 1)")
    case Inl': (Inl e)
    then show ?thesis by (simp add: conv_string_def Inr r)
  next
    case Inr': (Inr l0)
    show ?thesis
      by (cases "string_text p flags precision")
        (simp_all add: conv_string_def Inr r Inr' Let_def put_string_text spaces_emit pad_text_def)
  qed
qed (simp add: conv_string_def)

lemma conv_pointer_text:
  "conv_pointer out buffer maxlen flags precision va w =
    rbind (va_word va) (\<lambda>(a, va'). Inr (va', emit out buffer maxlen
      (ntoa_text a False 16 precision 16 (flags OR FLAGS_ZEROPAD OR FLAGS_UPPERCASE)) w))"
  by (cases "va_word va") (auto simp: conv_pointer_def Let_def ntoa_long_long_emit)

lemma float_text:
  "ftoa FTOA_FUEL out buffer maxlen d precision width flags w =
    puts_text out buffer maxlen w (ftoa_text FTOA_FUEL d precision width flags)"
  "etoa FTOA_FUEL out buffer maxlen d precision width flags w =
    puts_text out buffer maxlen w (etoa_text FTOA_FUEL d precision width flags)"
  by (simp_all add: float_puts_text FTOA_FUEL_def)

lemma convert_emits:
  "convert out buffer maxlen c flags width precision va w =
    rbind (convert_text c flags width precision va) (\<lambda>(va', t). Inr (va', emit out buffer maxlen t w))"
proof -
  have [simp]: "rbind (puts_text out buffer maxlen w r) (\<lambda>w'. Inr (va', w')) =
      rbind r (\<lambda>t. Inr (va', emit out buffer maxlen t w))" for r and va' :: "varg list"
    by (cases r) simp_all
  show ?thesis
    unfolding convert_def convert_text_def Let_def conv_int_text conv_char_text conv_string_text conv_pointer_text
      float_text
    by (auto simp: rbind_assoc split_def)
qed

lemma directive_emits:
  "directive out buffer maxlen fmt va w =
    rbind (directive_text fmt va) (\<lambda>(fmt', va', t). Inr (fmt', va', emit out buffer maxlen t w))"
  unfolding directive_def directive_text_def convert_emits by (simp add: rbind_assoc split_def)

lemma vsnprintf_loop_render:
  "vsnprintf_loop out buffer maxlen fmt va w = puts_text out buffer maxlen w (render fmt va)"
proof (induction fmt va arbitrary: w rule: render.induct)
  case (2 c fmt va)
  show ?case
  proof (cases "c = 0 \<or> c \<noteq> 0x25")
    case True
    with 2 show ?thesis by (cases "render fmt va") auto
  next
    case False
    show ?thesis
    proof (cases "directive_text fmt va")
      case (Inl e)
      with False show ?thesis by (simp add: directive_emits)
    next
      case (Inr r)
      then obtain fmt' va' t where r: "directive_text fmt va = Inr (fmt', va', t)" by (cases r) auto
      have "vsnprintf_loop out buffer maxlen fmt' va' w' = puts_text out buffer maxlen w' (render fmt' va')" for w'
        using "2.IH"(2) [of _ fmt' "(va', t)" va' t w'] False r by auto
      with False r show ?thesis by (cases "render fmt' va'") (simp_all add: directive_emits)
    qed
  qed
qed simp

lemma vsnprintf_render:
  "vsnprintf_internal out0 buffer maxlen fmt va s =
    rbind (render fmt va) (\<lambda>t.
      let out = (if buffer = 0 then out_null else out0); idx = of_nat (length t) :: u64 in
      Inr (ucast idx, out 0 buffer (if idx < maxlen then idx else maxlen - 1) maxlen
             (snd (emit out buffer maxlen t (0, s)))))"
proof (cases "render fmt va")
  case (Inl e)
  then show ?thesis by (simp add: vsnprintf_internal_def vsnprintf_loop_render)
next
  case (Inr t)
  then show ?thesis
    by (simp add: vsnprintf_internal_def vsnprintf_loop_render Let_def split_def)
qed

section \<open>Writing to memory\<close>

lemma emit_out_buffer:
  "unat k + length t < 18446744073709551616 \<Longrightarrow>
   snd (emit out_buffer buffer maxlen t (k, m)) a =
     (let i = unat (a - buffer) in
      if unat k \<le> i \<and> i < unat k + length t \<and> i < unat maxlen then t ! (i - unat k) else m a)"
proof (induction t arbitrary: k m)
  case (Cons c t)
  have k1: "unat (k + 1) = Suc (unat k)" using Cons.prems by (simp add: unat_word_ariths)
  let ?m = "out_buffer c buffer k maxlen m" and ?i = "unat (a - buffer)"
  have at: "a = buffer + k \<longleftrightarrow> ?i = unat k"
    using add_offset_eq_iff [of "unat k" a buffer] by simp
  have "snd (emit out_buffer buffer maxlen (c # t) (k, m)) a = snd (emit out_buffer buffer maxlen t (k + 1, ?m)) a"
    by (simp add: putc_def)
  also have "\<dots> = (if Suc (unat k) \<le> ?i \<and> ?i < Suc (unat k) + length t \<and> ?i < unat maxlen
      then t ! (?i - Suc (unat k)) else ?m a)"
    using Cons.IH [of "k + 1" ?m] Cons.prems by (simp only: k1 Let_def) simp
  also have "?m a = (if ?i = unat k \<and> unat k < unat maxlen then c else m a)"
    using at by (simp add: out_buffer_def word_less_nat_alt)
  finally show ?case by (auto simp: Let_def nth_Cons' le_Suc_eq not_less_eq_eq)
qed (auto simp: Let_def)

text \<open>What a bounded buffer holds after the call: the text cut to \<open>count - 1\<close> characters and a NUL.\<close>

definition stored :: "u64 \<Rightarrow> u64 \<Rightarrow> u8 list \<Rightarrow> mem \<Rightarrow> mem" where
  "stored buffer count t m =
     (\<lambda>a. let i = unat (a - buffer); n = min (length t) (unat count - 1) in
      if count = 0 then m a else if i < n then t ! i else if i = n then 0 else m a)"

lemma out_buffer_text:
  assumes "length t < 18446744073709551616"
  shows "out_buffer 0 buffer (if of_nat (length t) < count then of_nat (length t) else count - 1) count
      (snd (emit out_buffer buffer count t (0, m))) = stored buffer count t m"
proof (cases "count = 0")
  case True
  then show ?thesis
    using assms emit_out_buffer [of 0 t buffer 0 m] by (simp add: out_buffer_def stored_def fun_eq_iff)
next
  case False
  let ?k = "if of_nat (length t) < count then of_nat (length t) else count - 1" and ?n = "min (length t) (unat count - 1)"
  have c0: "0 < unat count" using False by (simp add: unat_gt_0)
  have lt: "of_nat (length t) < count \<longleftrightarrow> length t < unat count" using assms by (simp add: word_less_nat_alt)
  have c1: "unat (count - 1) = unat count - 1" by (rule unat_minus_one [OF False])
  have k: "unat ?k = ?n" using assms lt c0 by (simp add: c1)
  then have kc: "?k < count" using c0 unfolding word_less_nat_alt by simp
  have at: "a = buffer + ?k \<longleftrightarrow> unat (a - buffer) = ?n" for a
    unfolding add_offset_unat k ..
  have "out_buffer 0 buffer ?k count (snd (emit out_buffer buffer count t (0, m))) a = stored buffer count t m a" for a
    using emit_out_buffer [of 0 t buffer count m a] assms at [of a] kc False c0
    by (auto simp: out_buffer_def stored_def Let_def)
  then show ?thesis by (rule ext)
qed

lemma snprintf_stored:
  assumes "render fmt va = Inr t" "length t < 18446744073709551616" "buffer \<noteq> 0"
  shows "snprintf buffer count fmt va m = Inr (ucast (of_nat (length t) :: u64), stored buffer count t m)"
  using assms out_buffer_text [OF assms(2), of buffer count m]
  by (simp add: snprintf_def vsnprintf_render Let_def)

text \<open>
  C15. The contract of snprintf: for a format and arguments whose text is t, and a buffer that is
  not NULL, snprintf(buffer, count, ...) returns the length of the whole text and leaves in the
  buffer the text cut to count - 1 characters with a NUL after it; no byte outside the first
  count bytes of the buffer changes, and none at all when count is 0.
\<close>

theorem snprintf_contract:
  assumes "render fmt va = Inr t" "length t < 18446744073709551616" "buffer \<noteq> 0"
  shows "snprintf buffer count fmt va m = Inr (ucast (of_nat (length t) :: u64), stored buffer count t m)
    \<and> (\<forall>a. unat count \<le> unat (a - buffer) \<longrightarrow> stored buffer count t m a = m a)"
proof
  show "snprintf buffer count fmt va m = Inr (ucast (of_nat (length t) :: u64), stored buffer count t m)"
    by (rule snprintf_stored [OF assms])
  have "count \<noteq> 0 \<Longrightarrow> 0 < unat count" by (simp add: unat_gt_0)
  then show "\<forall>a. unat count \<le> unat (a - buffer) \<longrightarrow> stored buffer count t m a = m a"
    by (auto simp: stored_def Let_def)
qed

section \<open>Writing to the terminal\<close>

lemma emit_out_char:
  "emit (out_char putchar) buffer maxlen t (k, s) = (k + of_nat (length t), fold putchar (filter (\<lambda>c. c \<noteq> 0) t) s)"
  by (induction t arbitrary: k s) (simp_all add: putc_def out_char_def ac_simps)

lemma printf_render:
  "printf putchar fmt va s =
    rbind (render fmt va) (\<lambda>t. Inr (ucast (of_nat (length t) :: u64), fold putchar (filter (\<lambda>c. c \<noteq> 0) t) s))"
  by (cases "render fmt va")
    (simp_all add: printf_def vsnprintf_render Let_def emit_out_char out_char_def)

section \<open>Decimal numbers\<close>

lemma is_digit_byte: "d < 10 \<Longrightarrow> is_digit (0x30 + of_nat d)"
proof -
  assume "d < 10"
  then have "d \<in> {0, 1, 2, 3, 4, 5, 6, 7, 8, 9}" by auto
  then show ?thesis by (auto simp: is_digit_def)
qed

lemma digit_value: "d < 10 \<Longrightarrow> ucast (0x30 + of_nat d :: u8) - 0x30 = (of_nat d :: u32)"
proof -
  assume "d < 10"
  then have "d \<in> {0, 1, 2, 3, 4, 5, 6, 7, 8, 9}" by auto
  then show ?thesis by auto
qed

lemma atoi_loop_digits:
  assumes "\<forall>d\<in>set ds. d < 10" "\<not> is_digit c"
  shows "atoi_loop (map (digit_byte f) ds @ c # r) i = Inr (fold (\<lambda>d i. i * 10 + of_nat d) ds i, c # r)"
  using assms
proof (induction ds arbitrary: i)
  case (Cons d ds)
  then have d: "d < 10" by simp
  have b: "digit_byte f d = 0x30 + of_nat d" using d by (simp add: digit_byte_def)
  have g: "is_digit (digit_byte f d)" unfolding b by (rule is_digit_byte [OF d])
  have v: "ucast (digit_byte f d) - 0x30 = (of_nat d :: u32)" unfolding b by (rule digit_value [OF d])
  have "atoi_loop (map (digit_byte f) (d # ds) @ c # r) i = atoi_loop (map (digit_byte f) ds @ c # r) (i * 10 + of_nat d)"
    using g v by simp
  with Cons show ?case by simp
qed simp

lemma fold_digits: "fold (\<lambda>d i. i * 10 + of_nat d) (rev ds) 0 = (of_nat (foldr (\<lambda>d acc. d + 10 * acc) ds 0) :: u32)"
  by (induction ds) (simp_all add: fold_rev algebra_simps)

text \<open>
  Round trip of numbers: _atoi, reading the decimal digits _ntoa produces for an unsigned
  value, gives the value back and stops at the NUL.
\<close>

theorem atoi_numeral_roundtrip:
  "atoi (numeral_text flags 10 (unat v) @ [0]) = Inr (v, [0])"
proof -
  have "\<forall>d\<in>set (rev (digits_of 10 (unat v))). d < 10" using digits_of_bound [of 10] by auto
  moreover have "\<not> is_digit 0" by (simp add: is_digit_def)
  ultimately have "atoi_loop (map (digit_byte flags) (rev (digits_of 10 (unat v))) @ [0]) 0 =
      Inr (fold (\<lambda>d i. i * 10 + of_nat d) (rev (digits_of 10 (unat v))) 0, [0])"
    by (rule atoi_loop_digits)
  then show ?thesis by (simp add: atoi_def numeral_text_def rev_map fold_digits digits_of_value)
qed

text \<open>The text of %d.\<close>

definition decimal :: "int \<Rightarrow> u8 list" where
  "decimal i = (if i < 0 then [0x2D] else []) @ numeral_text 0 10 (nat \<bar>i\<bar>)"

lemma uint_of_sint: "0 \<le> sint v \<Longrightarrow> uint v = sint v" "uint (- v) = (- sint v) mod 2 ^ 32" for v :: u32
proof -
  have w: "v = word_of_int (sint v)" by simp
  have "uint v = sint v mod 2 ^ 32" by (subst (1) w, subst uint_word_of_int) simp
  then show "0 \<le> sint v \<Longrightarrow> uint v = sint v" using sint_lt [of v] by simp
  have n: "- v = word_of_int (- sint v)" using w by simp
  show "uint (- v) = (- sint v) mod 2 ^ 32" by (subst n, subst uint_word_of_int) simp
qed

lemma unat_magnitude: "unat (magnitude (v :: u32)) = nat \<bar>sint v\<bar>"
proof (cases "sint v > 0")
  case True
  then have "uint v = sint v" by (intro uint_of_sint) simp
  then show ?thesis using True by (simp add: magnitude_def flip: nat_uint_eq)
next
  case False
  moreover have "0 \<le> - sint v" "- sint v < 2 ^ 32" using False sint_ge [of v] by simp_all
  ultimately have "uint (- v) = - sint v" unfolding uint_of_sint by simp
  with False show ?thesis by (simp add: magnitude_def flip: nat_uint_eq)
qed

lemma render_spec_only:
  assumes "parse_spec [c, 0] va = Inr (flags, width, precision, [c, 0], va)"
  shows "render [0x25, c, 0] va = rbind (convert_text c flags width precision va) (\<lambda>(va', t). Inr t)"
proof -
  have "directive_text [c, 0] va = rbind (convert_text c flags width precision va) (\<lambda>(va', t). Inr ([0], va', t))"
    by (simp add: directive_text_def assms)
  then show ?thesis by (cases "convert_text c flags width precision va") auto
qed

lemma parse_spec_plain:
  assumes "c \<notin> {0x20, 0x23, 0x2A, 0x2B, 0x2D, 0x2E, 0x68, 0x6A, 0x6C, 0x74, 0x7A}" "\<not> is_digit c"
  shows "parse_spec (c # fmt) va = Inr (0, 0, 0, c # fmt, va)"
proof -
  have "c \<noteq> 0x30" using assms(2) by (auto simp: is_digit_def)
  then show ?thesis using assms
    by (simp add: parse_spec_def parse_width_def parse_precision_def parse_length_def)
qed

lemma int_text_plain:
  "int_text negative ds 0 0 flags = sign_text negative flags @ ds"
  by (simp add: int_text_def Let_def)

lemma digits_of_u32_le: "length (digits_of 10 (unat (v :: u32))) \<le> 10"
proof -
  have "unat v < 10 ^ Suc 9" using less_trans [OF unat_u32_lt [of v], of "10 ^ Suc 9"] by simp
  from digits_of_length [OF _ this] show ?thesis by simp
qed

lemma ntoa_text_plain:
  assumes "2 \<le> unat base" "unat base \<le> 16" "length (digits_of (unat base) (unat v)) \<le> 31"
    and "\<not> has flags FLAGS_HASH" "\<not> has flags FLAGS_PRECISION"
  shows "ntoa_text v negative base 0 0 flags = sign_text negative flags @ numeral_text flags (unat base) (unat v)"
  using ntoa_text_layout [OF assms(1-3), of 0 0 flags negative] assms(4,5) by (simp add: int_text_plain)

lemma render_decimal: "render (lit ''%d'') [Word a] = Inr (decimal (sint (ucast a :: u32)))"
proof -
  let ?v = "ucast a :: u32"
  have l: "lit ''%d'' = [0x25, 0x64, 0]" by (simp add: lit_def bytes_of_def of_char_def)
  have um: "unat (ucast (magnitude ?v) :: u64) = nat \<bar>sint ?v\<bar>" by (simp add: unat_magnitude)
  have f: "int_flags 0x64 0 = 0" by (simp add: int_flags_def is_signed_spec_def int_base_def)
  have "ntoa_text (ucast (magnitude ?v)) (sint ?v < 0) 10 0 0 0 = decimal (sint ?v)"
    using digits_of_u32_le [of "magnitude ?v"] um
    by (subst ntoa_text_plain) (simp_all add: decimal_def sign_text_def)
  then show ?thesis
    unfolding l by (subst render_spec_only [of _ _ 0 0 0])
      (simp_all add: parse_spec_plain is_digit_def convert_text_def is_int_spec_def int_conv_text_def f Let_def
        is_signed_spec_def int_base_def int_arg_def)
qed

text \<open>
  printf("%d", x) puts the decimal notation of x read as a 32-bit two's complement number,
  for every x (the smallest number included), one character at a time, and returns its length.
\<close>

theorem printf_decimal:
  "printf putchar (lit ''%d'') [Word a] s =
    (let t = decimal (sint (ucast a :: u32)) in
     Inr (ucast (of_nat (length t) :: u64), fold putchar t s))"
proof -
  let ?v = "ucast a :: u32"
  have "filter (\<lambda>c. c \<noteq> 0) (decimal (sint ?v)) = decimal (sint ?v)"
  proof (rule filter_True, rule ballI)
    fix c assume "c \<in> set (decimal (sint ?v))"
    then consider "c = 0x2D" | d where "d \<in> set (digits_of 10 (nat \<bar>sint ?v\<bar>))" "c = digit_byte 0 d"
      by (auto simp: decimal_def numeral_text_def split: if_splits)
    then show "c \<noteq> 0"
    proof cases
      case (2 d)
      then have "d < 10" by (intro digits_of_bound) simp_all
      then show ?thesis unfolding 2(2) by (intro digit_byte_nonzero) simp
    qed simp
  qed
  then show ?thesis by (simp add: printf_render render_decimal Let_def)
qed

theorem snprintf_contract_witness:
  "\<exists>m'. snprintf 0x1000 3 (lit ''%d'') [Word 4242] (\<lambda>_. 0) = Inr (4, m')
    \<and> m' 0x1000 = 0x34 \<and> m' 0x1001 = 0x32 \<and> m' 0x1002 = 0 \<and> m' 0x1003 = (\<lambda>_. 0) 0x1003"
proof -
  have r: "render (lit ''%d'') [Word 4242] = Inr [0x34, 0x32, 0x34, 0x32]"
    unfolding render_decimal by (simp add: decimal_def numeral_text_def digits_of.simps digit_byte_def)
  from snprintf_contract [OF r, of "0x1000" 3 "\<lambda>_. 0"] show ?thesis by (simp add: stored_def)
qed



text \<open>
  C9. The interpreter refines the specification \<open>render\<close> for every output function: it puts the
  characters of \<open>render\<close> one by one, then the NUL at the last place that fits, and returns
  their number as an int; it goes wrong (a malformed format, a wrong argument) exactly when
  \<open>render\<close> does, and with the same error.  A NULL buffer discards everything.
\<close>

theorem vsnprintf_refines_render:
  "vsnprintf_internal out buffer maxlen fmt va s =
    (case render fmt va of
       Inl e \<Rightarrow> Inl e
     | Inr t \<Rightarrow>
         if buffer = 0 then Inr (ucast (of_nat (length t) :: u64), s)
         else let idx = of_nat (length t) :: u64 in
           Inr (ucast idx, out 0 buffer (if idx < maxlen then idx else maxlen - 1) maxlen
                  (snd (emit out buffer maxlen t (0, s)))))"
proof -
  have "snd (emit out_null b maxlen t (k, s)) = s" for b t k
    by (induction t arbitrary: k) (simp_all add: emit_def putc_def out_null_def)
  then show ?thesis
    by (simp add: vsnprintf_render rbind_def Let_def out_null_def split: sum.split)
qed

text \<open>
  C35. No conversion overruns its 32-byte buffer: whatever the value, base, precision, width and
  flags, the digits, zeros, prefix and sign of an integer are at most 32 bytes, and so is the
  text of a floating point number when it is built at all.
\<close>

theorem conversion_buffers_bounded:
  "length (fst (ntoa_fill (ntoa_digits v base flags []) negative base' prec width flags')) \<le> PRINTF_NTOA_BUFFER_SIZE \<and>
   (\<forall>buf width'. ftoa_buf d prec width flags = Inr (buf, width') \<longrightarrow> length buf \<le> PRINTF_FTOA_BUFFER_SIZE)"
  using length_ntoa_fill [OF length_ntoa_digits [of "[]" v base flags], of negative base' prec width flags']
    length_ftoa_buf [of d prec width flags] by auto

theorem conversion_buffers_bounded_witness:
  "\<exists>buf width'. ftoa_buf (Fin 1) 2 0 FLAGS_PRECISION = Inr (buf, width') \<and> length buf \<le> 32"
proof -
  have "has FLAGS_PRECISION FLAGS_PRECISION" by (simp add: has_def flag_defs)
  then obtain buf width' where "ftoa_buf (Fin 1) 2 0 FLAGS_PRECISION = Inr (buf, width')"
    using ftoa_buf_outcome(1) [OF refl, of FLAGS_PRECISION 2 "Fin 1" 0] by auto
  with conversion_buffers_bounded [where d = "Fin 1" and prec = 2 and width = 0 and flags = FLAGS_PRECISION]
  show ?thesis by auto
qed

end
