(* ===== verification/Ulog.thy ===== *)
theory Ulog
  imports Printf_Render
begin

text \<open>
  The log of kernel/arch/x86_64/log/ulog.c: a table of six subscribers, each a function with a
  threshold, and a static buffer of 120 bytes into which a message is formatted before every
  subscriber whose threshold it reaches is called, in the order of the table.

  A function pointer is an \<open>'f option\<close>, None for NULL.  What calling one does is a parameter:
  it acts on a state of its own, \<open>'s\<close>, and is given the bytes of the message buffer.

  \<open>thresholds\<close> abstracts the table to a map from functions to thresholds.
\<close>

section \<open>State\<close>

record 'f subscriber_t =
  fn :: "'f option"
  threshold :: ulog_level_t

definition ULOG_MAX_SUBSCRIBERS :: nat where [simp]: "ULOG_MAX_SUBSCRIBERS = 6"
definition ULOG_MAX_MESSAGE_LENGTH :: nat where [simp]: "ULOG_MAX_MESSAGE_LENGTH = 120"

datatype ulog_err_t = ULOG_ERR_NONE | ULOG_ERR_SUBSCRIBERS_EXCEEDED | ULOG_ERR_NOT_SUBSCRIBED

section \<open>Operations\<close>

definition ulog_init :: "'f subscriber_t list" where
  "ulog_init = replicate ULOG_MAX_SUBSCRIBERS \<lparr>fn = None, threshold = 0\<rparr>"

text \<open>The search loop; \<open>available_slot\<close> is None for -1.\<close>

function subscribe_loop ::
  "'f subscriber_t list \<Rightarrow> 'f option \<Rightarrow> ulog_level_t \<Rightarrow> nat \<Rightarrow> nat option \<Rightarrow> ulog_err_t \<times> 'f subscriber_t list" where
  "subscribe_loop subs f thr i available_slot =
     (if i < ULOG_MAX_SUBSCRIBERS then
        if fn (subs ! i) = f then (ULOG_ERR_NONE, subs[i := (subs ! i)\<lparr>threshold := thr\<rparr>])
        else if fn (subs ! i) = None then subscribe_loop subs f thr (Suc i) (Some i)
        else subscribe_loop subs f thr (Suc i) available_slot
      else case available_slot of
        None \<Rightarrow> (ULOG_ERR_SUBSCRIBERS_EXCEEDED, subs)
      | Some slot \<Rightarrow> (ULOG_ERR_NONE, subs[slot := \<lparr>fn = f, threshold = thr\<rparr>]))"
  by pat_completeness auto
termination by (relation "measure (\<lambda>(subs, f, thr, i, a). 6 - i)") auto

definition ulog_subscribe :: "'f option \<Rightarrow> ulog_level_t \<Rightarrow> 'f subscriber_t list \<Rightarrow> ulog_err_t \<times> 'f subscriber_t list" where
  "ulog_subscribe f thr subs = subscribe_loop subs f thr 0 None"

function unsubscribe_loop :: "'f subscriber_t list \<Rightarrow> 'f option \<Rightarrow> nat \<Rightarrow> ulog_err_t \<times> 'f subscriber_t list" where
  "unsubscribe_loop subs f i =
     (if i < ULOG_MAX_SUBSCRIBERS then
        if fn (subs ! i) = f then (ULOG_ERR_NONE, subs[i := (subs ! i)\<lparr>fn := None\<rparr>])
        else unsubscribe_loop subs f (Suc i)
      else (ULOG_ERR_NOT_SUBSCRIBED, subs))"
  by pat_completeness auto
termination by (relation "measure (\<lambda>(subs, f, i). 6 - i)") auto

definition ulog_unsubscribe :: "'f option \<Rightarrow> 'f subscriber_t list \<Rightarrow> ulog_err_t \<times> 'f subscriber_t list" where
  "ulog_unsubscribe f subs = unsubscribe_loop subs f 0"

declare subscribe_loop.simps [simp del] unsubscribe_loop.simps [simp del]

definition ulog_level_name :: "ulog_level_t \<Rightarrow> string" where
  "ulog_level_name severity =
     (if severity = ULOG_TRACE_LEVEL then ''TRACE''
      else if severity = ULOG_DEBUG_LEVEL then ''DEBUG''
      else if severity = ULOG_INFO_LEVEL then ''INFO''
      else if severity = ULOG_WARNING_LEVEL then ''WARNING''
      else if severity = ULOG_ERROR_LEVEL then ''ERROR''
      else if severity = ULOG_CRITICAL_LEVEL then ''CRITICAL''
      else if severity = ULOG_ALWAYS_LEVEL then ''ALWAYS''
      else ''UNKNOWN'')"

text \<open>The calls of one message, over the slots of the table in order.\<close>

fun notify ::
  "('f \<Rightarrow> ulog_level_t \<Rightarrow> u8 list \<Rightarrow> 's \<Rightarrow> 's outcome) \<Rightarrow> ulog_level_t \<Rightarrow> u8 list
     \<Rightarrow> 'f subscriber_t list \<Rightarrow> 's \<Rightarrow> 's outcome" where
  "notify call severity msg [] s = Inr s"
| "notify call severity msg (sub # subs) s =
     (case fn sub of
        None \<Rightarrow> notify call severity msg subs s
      | Some f \<Rightarrow>
          if severity \<ge> threshold sub
          then rbind (call f severity msg s) (notify call severity msg subs)
          else notify call severity msg subs s)"

text \<open>The array an object of n bytes at an address holds.\<close>

definition array_at :: "mem \<Rightarrow> u64 \<Rightarrow> nat \<Rightarrow> u8 list" where
  "array_at m a n = map (\<lambda>i. m (a + of_nat i)) [0..<n]"

definition ulog_message ::
  "('f \<Rightarrow> ulog_level_t \<Rightarrow> u8 list \<Rightarrow> 's \<Rightarrow> 's outcome) \<Rightarrow> u64 \<Rightarrow> ulog_level_t \<Rightarrow> u8 list \<Rightarrow> varg list
     \<Rightarrow> 'f subscriber_t list \<Rightarrow> mem \<Rightarrow> 's \<Rightarrow> (mem \<times> 's) outcome" where
  "ulog_message call s_message severity fmt va subs m s =
     rbind (vsnprintf s_message (of_nat ULOG_MAX_MESSAGE_LENGTH) fmt va m) (\<lambda>(r, m').
     rbind (notify call severity (array_at m' s_message ULOG_MAX_MESSAGE_LENGTH) subs s) (\<lambda>s'.
       Inr (m', s')))"

section \<open>The table as a map\<close>

definition slots :: "'f subscriber_t list \<Rightarrow> 'f \<Rightarrow> nat set" where
  "slots subs f = {i. i < length subs \<and> fn (subs ! i) = Some f}"

text \<open>The table has six slots and no function is in two of them.\<close>

definition table_ok :: "'f subscriber_t list \<Rightarrow> bool" where
  "table_ok subs \<longleftrightarrow> length subs = ULOG_MAX_SUBSCRIBERS
     \<and> (\<forall>i<length subs. \<forall>j<length subs. \<forall>f. fn (subs ! i) = Some f \<and> fn (subs ! j) = Some f \<longrightarrow> i = j)"

lemma table_ok_slot:
  "table_ok subs \<Longrightarrow> i < length subs \<Longrightarrow> j < length subs \<Longrightarrow> fn (subs ! i) = Some f \<Longrightarrow> fn (subs ! j) = Some f \<Longrightarrow> i = j"
  by (auto simp: table_ok_def)

definition thresholds :: "'f subscriber_t list \<Rightarrow> 'f \<Rightarrow> ulog_level_t option" where
  "thresholds subs f =
     (case find (\<lambda>sub. fn sub = Some f) subs of None \<Rightarrow> None | Some sub \<Rightarrow> Some (threshold sub))"

lemma thresholds_slot:
  assumes "table_ok subs" "i < length subs" "fn (subs ! i) = Some f"
  shows "thresholds subs f = Some (threshold (subs ! i))"
proof -
  have ne: "find (\<lambda>sub. fn sub = Some f) subs \<noteq> None" using assms(2,3) by (auto simp: find_None_iff in_set_conv_nth)
  then obtain sub where sub: "find (\<lambda>sub. fn sub = Some f) subs = Some sub" by blast
  then obtain j where "j < length subs" "subs ! j = sub" "fn sub = Some f" by (auto simp: find_Some_iff)
  with assms have "j = i" by (auto dest: table_ok_slot)
  with sub \<open>subs ! j = sub\<close> show ?thesis by (simp add: thresholds_def)
qed

lemma thresholds_none:
  "(\<forall>i<length subs. fn (subs ! i) \<noteq> Some f) \<Longrightarrow> thresholds subs f = None"
  by (auto simp: thresholds_def find_Some_iff split: option.splits)

lemma thresholds_Some_slot:
  "thresholds subs f = Some t \<Longrightarrow> \<exists>i<length subs. fn (subs ! i) = Some f \<and> threshold (subs ! i) = t"
  by (auto simp: thresholds_def find_Some_iff split: option.splits)

lemma table_ok_init: "table_ok ulog_init"
  by (simp add: table_ok_def ulog_init_def)

lemma thresholds_init: "thresholds ulog_init = Map.empty"
  by (rule ext, rule thresholds_none) (simp add: ulog_init_def)

text \<open>Writing one slot.\<close>

lemma table_ok_update:
  assumes "table_ok subs" "\<forall>j<length subs. j \<noteq> i \<longrightarrow> fn (subs ! j) \<noteq> Some f"
  shows "table_ok (subs[i := \<lparr>fn = Some f, threshold = t\<rparr>])"
proof -
  let ?s = "subs[i := \<lparr>fn = Some f, threshold = t\<rparr>]"
  have "a = b" if ab: "a < length subs" "b < length subs" "fn (?s ! a) = Some g" "fn (?s ! b) = Some g" for a b g
  proof (cases "g = f")
    case True
    with ab assms(2) show ?thesis by (metis nth_list_update_neq)
  next
    case False
    with ab have "a \<noteq> i" "b \<noteq> i" by auto
    with ab table_ok_slot [OF assms(1), of a b g] show ?thesis by simp
  qed
  with assms(1) show ?thesis by (simp add: table_ok_def)
qed

lemma thresholds_update:
  assumes ok: "table_ok subs" and i: "i < length subs" and free: "fn (subs ! i) = None \<or> fn (subs ! i) = Some f"
    and other: "\<forall>j<length subs. j \<noteq> i \<longrightarrow> fn (subs ! j) \<noteq> Some f"
  shows "thresholds (subs[i := \<lparr>fn = Some f, threshold = t\<rparr>]) = (thresholds subs)(f \<mapsto> t)"
proof
  let ?s = "subs[i := \<lparr>fn = Some f, threshold = t\<rparr>]"
  have ok': "table_ok ?s" by (rule table_ok_update [OF ok other])
  fix g
  show "thresholds ?s g = ((thresholds subs)(f \<mapsto> t)) g"
  proof (cases "g = f")
    case True
    with thresholds_slot [OF ok', of i f] i show ?thesis by simp
  next
    case False
    show ?thesis
    proof (cases "\<exists>j<length subs. fn (subs ! j) = Some g")
      case True
      then obtain j where j: "j < length subs" "fn (subs ! j) = Some g" by blast
      with free False have ji: "j \<noteq> i" by auto
      with thresholds_slot [OF ok' , of j g] thresholds_slot [OF ok j] j False show ?thesis by simp
    next
      case none: False
      have "thresholds ?s g = None" using none False i by (intro thresholds_none) (auto simp: nth_list_update)
      moreover have "thresholds subs g = None" using none by (intro thresholds_none) auto
      ultimately show ?thesis using False by simp
    qed
  qed
qed

section \<open>What the loops do\<close>

lemma subscribe_loop_cases:
  assumes "length subs = 6" "\<forall>j<i. j < 6 \<longrightarrow> fn (subs ! j) \<noteq> Some f"
    and "case a of None \<Rightarrow> \<forall>j<i. j < 6 \<longrightarrow> fn (subs ! j) \<noteq> None | Some s \<Rightarrow> s < 6 \<and> fn (subs ! s) = None"
  shows "(\<exists>slot<6. subscribe_loop subs (Some f) thr i a = (ULOG_ERR_NONE, subs[slot := \<lparr>fn = Some f, threshold = thr\<rparr>])
        \<and> (fn (subs ! slot) = Some f \<or> fn (subs ! slot) = None \<and> (\<forall>j<6. fn (subs ! j) \<noteq> Some f)))
    \<or> subscribe_loop subs (Some f) thr i a = (ULOG_ERR_SUBSCRIBERS_EXCEEDED, subs)
        \<and> (\<forall>j<6. fn (subs ! j) \<noteq> Some f \<and> fn (subs ! j) \<noteq> None)"
  using assms
proof (induction subs "Some f" thr i a rule: subscribe_loop.induct)
  case (1 subs thr i a)
  show ?case
  proof (cases "i < 6")
    case False
    then have e: "subscribe_loop subs (Some f) thr i a = (case a of
        None \<Rightarrow> (ULOG_ERR_SUBSCRIBERS_EXCEEDED, subs)
      | Some slot \<Rightarrow> (ULOG_ERR_NONE, subs[slot := \<lparr>fn = Some f, threshold = thr\<rparr>]))"
      by (subst subscribe_loop.simps) simp
    have all: "\<forall>j<6. fn (subs ! j) \<noteq> Some f" using "1.prems"(2) False by simp
    show ?thesis
    proof (cases a)
      case None
      with "1.prems"(3) False all e show ?thesis by simp
    next
      case (Some s)
      with "1.prems"(3) all e show ?thesis by auto
    qed
  next
    case True
    consider "fn (subs ! i) = Some f" | "fn (subs ! i) = None" | "fn (subs ! i) \<noteq> Some f" "fn (subs ! i) \<noteq> None" by auto
    then show ?thesis
    proof cases
      case 1
      then have "subscribe_loop subs (Some f) thr i a = (ULOG_ERR_NONE, subs[i := \<lparr>fn = Some f, threshold = thr\<rparr>])"
        using True by (subst subscribe_loop.simps) (cases "subs ! i"; simp)
      with True 1 show ?thesis by blast
    next
      case 2
      then have e: "subscribe_loop subs (Some f) thr i a = subscribe_loop subs (Some f) thr (Suc i) (Some i)"
        using True by (subst subscribe_loop.simps) simp
      show ?thesis unfolding e using 2 True "1.prems" by (intro "1.hyps") (auto simp: less_Suc_eq)
    next
      case 3
      then have e: "subscribe_loop subs (Some f) thr i a = subscribe_loop subs (Some f) thr (Suc i) a"
        using True by (subst subscribe_loop.simps) auto
      show ?thesis unfolding e using 3 True "1.prems"
        by (intro "1.hyps") (auto simp: less_Suc_eq split: option.splits)
    qed
  qed
qed

lemma unsubscribe_loop_cases:
  assumes "length subs = 6" "\<forall>j<i. j < 6 \<longrightarrow> fn (subs ! j) \<noteq> Some f"
  shows "(\<exists>slot<6. unsubscribe_loop subs (Some f) i = (ULOG_ERR_NONE, subs[slot := (subs ! slot)\<lparr>fn := None\<rparr>])
        \<and> fn (subs ! slot) = Some f)
    \<or> unsubscribe_loop subs (Some f) i = (ULOG_ERR_NOT_SUBSCRIBED, subs) \<and> (\<forall>j<6. fn (subs ! j) \<noteq> Some f)"
  using assms
proof (induction subs "Some f" i rule: unsubscribe_loop.induct)
  case (1 subs i)
  consider "\<not> i < 6" | "i < 6" "fn (subs ! i) = Some f" | "i < 6" "fn (subs ! i) \<noteq> Some f" by auto
  then show ?case
  proof cases
    case 1
    then have "unsubscribe_loop subs (Some f) i = (ULOG_ERR_NOT_SUBSCRIBED, subs)"
      by (subst unsubscribe_loop.simps) simp
    with "1.prems"(2) 1 show ?thesis by simp
  next
    case 2
    then have "unsubscribe_loop subs (Some f) i = (ULOG_ERR_NONE, subs[i := (subs ! i)\<lparr>fn := None\<rparr>])"
      by (subst unsubscribe_loop.simps) simp
    with 2 show ?thesis by blast
  next
    case 3
    then have e: "unsubscribe_loop subs (Some f) i = unsubscribe_loop subs (Some f) (Suc i)"
      by (subst unsubscribe_loop.simps) simp
    show ?thesis unfolding e using 3 "1.prems" by (intro "1.hyps") (auto simp: less_Suc_eq)
  qed
qed

text \<open>The number of functions in the map is the number of taken slots.\<close>

lemma dom_thresholds:
  assumes "table_ok subs"
  shows "dom (thresholds subs) = (\<lambda>i. the (fn (subs ! i))) ` {i. i < 6 \<and> fn (subs ! i) \<noteq> None}"
    "card (dom (thresholds subs)) = card {i. i < 6 \<and> fn (subs ! i) \<noteq> None}"
    "finite (dom (thresholds subs))"
proof -
  have len: "length subs = 6" using assms by (simp add: table_ok_def)
  show d: "dom (thresholds subs) = (\<lambda>i. the (fn (subs ! i))) ` {i. i < 6 \<and> fn (subs ! i) \<noteq> None}"
  proof (intro subset_antisym subsetI)
    fix f assume "f \<in> dom (thresholds subs)"
    then obtain t where "thresholds subs f = Some t" by blast
    from thresholds_Some_slot [OF this] len
    show "f \<in> (\<lambda>i. the (fn (subs ! i))) ` {i. i < 6 \<and> fn (subs ! i) \<noteq> None}" by force
  next
    fix f assume "f \<in> (\<lambda>i. the (fn (subs ! i))) ` {i. i < 6 \<and> fn (subs ! i) \<noteq> None}"
    then obtain i where "i < 6" "fn (subs ! i) = Some f" by auto
    with thresholds_slot [OF assms, of i f] len show "f \<in> dom (thresholds subs)" by auto
  qed
  have "inj_on (\<lambda>i. the (fn (subs ! i))) {i. i < 6 \<and> fn (subs ! i) \<noteq> None}"
    using table_ok_slot [OF assms] len by (auto simp: inj_on_def)
  with d show "card (dom (thresholds subs)) = card {i. i < 6 \<and> fn (subs ! i) \<noteq> None}" by (simp add: card_image)
  show "finite (dom (thresholds subs))" unfolding d by simp
qed

lemma card_below: "card {i. i < n \<and> P i} \<le> n" "card {i. i < n \<and> P i} < n \<longleftrightarrow> (\<exists>i<n. \<not> P i)" for n :: nat
proof -
  have sub: "{i. i < n \<and> P i} \<subseteq> {..<n}" by auto
  then show "card {i. i < n \<and> P i} \<le> n" using card_mono [OF _ sub] by simp
  show "card {i. i < n \<and> P i} < n \<longleftrightarrow> (\<exists>i<n. \<not> P i)"
  proof
    assume lt: "card {i. i < n \<and> P i} < n"
    show "\<exists>i<n. \<not> P i"
    proof (rule ccontr)
      assume "\<not> (\<exists>i<n. \<not> P i)"
      then have "{i. i < n \<and> P i} = {..<n}" by auto
      with lt show False by simp
    qed
  next
    assume "\<exists>i<n. \<not> P i"
    then have "{i. i < n \<and> P i} \<subset> {..<n}" by auto
    then have "card {i. i < n \<and> P i} < card {..<n}" by (intro psubset_card_mono) simp_all
    then show "card {i. i < n \<and> P i} < n" by simp
  qed
qed

lemma taken_less:
  assumes "table_ok subs"
  shows "card (dom (thresholds subs)) < 6 \<longleftrightarrow> (\<exists>i<6. fn (subs ! i) = None)" "card (dom (thresholds subs)) \<le> 6"
  unfolding dom_thresholds(2) [OF assms]
  using card_below [of 6 "\<lambda>i. fn (subs ! i) \<noteq> None"] by (simp_all only: not_not)

section \<open>A bounded map\<close>

text \<open>
  The contract of a table with room for \<open>cap\<close> keys: insertion of a known key, or of a new one
  while there is room, updates the map and answers True; otherwise it changes nothing and
  answers False; deletion removes a known key.
\<close>

locale bounded_map =
  fixes ins :: "'k \<Rightarrow> 'v \<Rightarrow> 'm \<Rightarrow> bool \<times> 'm" and del :: "'k \<Rightarrow> 'm \<Rightarrow> bool \<times> 'm"
    and look :: "'m \<Rightarrow> 'k \<Rightarrow> 'v option" and inv :: "'m \<Rightarrow> bool" and empty :: 'm and cap :: nat
  assumes inv_empty: "inv empty"
    and look_empty: "look empty = Map.empty"
    and finite_look: "inv m \<Longrightarrow> finite (dom (look m))"
    and ins_room: "inv m \<Longrightarrow> k \<in> dom (look m) \<or> card (dom (look m)) < cap \<Longrightarrow>
      \<exists>m'. ins k v m = (True, m') \<and> inv m' \<and> look m' = (look m)(k \<mapsto> v)"
    and ins_full: "inv m \<Longrightarrow> k \<notin> dom (look m) \<Longrightarrow> \<not> card (dom (look m)) < cap \<Longrightarrow> ins k v m = (False, m)"
    and del_known: "inv m \<Longrightarrow> k \<in> dom (look m) \<Longrightarrow>
      \<exists>m'. del k m = (True, m') \<and> inv m' \<and> look m' = (look m)(k := None)"
    and del_unknown: "inv m \<Longrightarrow> k \<notin> dom (look m) \<Longrightarrow> del k m = (False, m)"
begin

lemma inv_ins: "inv m \<Longrightarrow> inv (snd (ins k v m))"
  using ins_room [of m k v] ins_full [of m k v] by fastforce

lemma inv_del: "inv m \<Longrightarrow> inv (snd (del k m))"
  using del_known [of m k] del_unknown [of m k] by fastforce

lemma del_after_ins:
  assumes "inv m" "k \<notin> dom (look m)" "card (dom (look m)) < cap"
  shows "\<exists>m'. del k (snd (ins k v m)) = (True, m') \<and> inv m' \<and> look m' = look m"
proof -
  from ins_room [OF assms(1), of k v] assms(3) obtain m1
    where m1: "ins k v m = (True, m1)" "inv m1" "look m1 = (look m)(k \<mapsto> v)" by blast
  from del_known [OF m1(2), of k] m1(3) obtain m2
    where "del k m1 = (True, m2)" "inv m2" "look m2 = (look m1)(k := None)" by auto
  moreover have "(look m)(k := None) = look m" using assms(2) by (auto simp: fun_upd_idem domIff)
  ultimately show ?thesis using m1 by simp
qed

text \<open>Inserting at most \<open>cap\<close> different keys, one after the other, always succeeds.\<close>

fun ins_all :: "('k \<times> 'v) list \<Rightarrow> 'm \<Rightarrow> bool \<times> 'm" where
  "ins_all [] m = (True, m)"
| "ins_all ((k, v) # kvs) m = (let (ok, m') = ins k v m; (oks, m'') = ins_all kvs m' in (ok \<and> oks, m''))"

lemma ins_all_room:
  "inv m \<Longrightarrow> card (dom (look m) \<union> fst ` set kvs) \<le> cap \<Longrightarrow>
   \<exists>m'. ins_all kvs m = (True, m') \<and> inv m' \<and> look m' = fold (\<lambda>(k, v) f. f(k \<mapsto> v)) kvs (look m)"
proof (induction kvs arbitrary: m)
  case (Cons kv kvs)
  obtain k v where kv: "kv = (k, v)" by (cases kv)
  have fin: "finite (dom (look m))" by (rule finite_look [OF Cons.prems(1)])
  have "k \<in> dom (look m) \<or> card (dom (look m)) < cap"
  proof (cases "k \<in> dom (look m)")
    case False
    then have "Suc (card (dom (look m))) = card (insert k (dom (look m)))" using fin by simp
    also have "\<dots> \<le> card (dom (look m) \<union> fst ` set (kv # kvs))" using fin kv by (intro card_mono) auto
    finally show ?thesis using Cons.prems(2) by simp
  qed simp
  from ins_room [OF Cons.prems(1) this, of v] obtain m1
    where m1: "ins k v m = (True, m1)" "inv m1" "look m1 = (look m)(k \<mapsto> v)" by blast
  have "dom (look m1) \<union> fst ` set kvs = dom (look m) \<union> fst ` set (kv # kvs)" using m1(3) kv by auto
  with Cons.prems(2) have "card (dom (look m1) \<union> fst ` set kvs) \<le> cap" by simp
  from Cons.IH [OF m1(2) this] m1 kv show ?case by auto
qed simp

end

text \<open>The subscriber table provides it, for the functions other than NULL.\<close>

definition sub_ins :: "'f \<Rightarrow> ulog_level_t \<Rightarrow> 'f subscriber_t list \<Rightarrow> bool \<times> 'f subscriber_t list" where
  "sub_ins f t subs = (let (e, subs') = ulog_subscribe (Some f) t subs in (e = ULOG_ERR_NONE, subs'))"

definition sub_del :: "'f \<Rightarrow> 'f subscriber_t list \<Rightarrow> bool \<times> 'f subscriber_t list" where
  "sub_del f subs = (let (e, subs') = ulog_unsubscribe (Some f) subs in (e = ULOG_ERR_NONE, subs'))"

lemma subscribe_room:
  assumes ok: "table_ok subs" and room: "f \<in> dom (thresholds subs) \<or> card (dom (thresholds subs)) < 6"
  shows "\<exists>subs'. ulog_subscribe (Some f) t subs = (ULOG_ERR_NONE, subs') \<and> table_ok subs'
    \<and> thresholds subs' = (thresholds subs)(f \<mapsto> t)"
proof -
  have len: "length subs = 6" using ok by (simp add: table_ok_def)
  have "\<not> (\<forall>j<6. fn (subs ! j) \<noteq> Some f \<and> fn (subs ! j) \<noteq> None)"
    using room taken_less(1) [OF ok] thresholds_none [of subs f] len by auto
  with subscribe_loop_cases [OF len, of 0 f None t] obtain slot where slot: "slot < 6"
      "ulog_subscribe (Some f) t subs = (ULOG_ERR_NONE, subs[slot := \<lparr>fn = Some f, threshold = t\<rparr>])"
      "fn (subs ! slot) = Some f \<or> fn (subs ! slot) = None \<and> (\<forall>j<6. fn (subs ! j) \<noteq> Some f)"
    unfolding ulog_subscribe_def by fastforce
  have other: "\<forall>j<length subs. j \<noteq> slot \<longrightarrow> fn (subs ! j) \<noteq> Some f"
  proof (intro allI impI notI)
    fix j assume j: "j < length subs" "j \<noteq> slot" "fn (subs ! j) = Some f"
    with slot(3) len have "fn (subs ! slot) = Some f" by auto
    with table_ok_slot [OF ok j(1) _ j(3)] slot(1) len j(2) show False by auto
  qed
  have free: "fn (subs ! slot) = None \<or> fn (subs ! slot) = Some f" using slot(3) by blast
  have "slot < length subs" using slot(1) len by simp
  from slot(2) table_ok_update [OF ok other] thresholds_update [OF ok this free other] show ?thesis by blast
qed

lemma subscribe_full:
  assumes ok: "table_ok subs" and "f \<notin> dom (thresholds subs)" "\<not> card (dom (thresholds subs)) < 6"
  shows "ulog_subscribe (Some f) t subs = (ULOG_ERR_SUBSCRIBERS_EXCEEDED, subs)"
proof -
  have len: "length subs = 6" using ok by (simp add: table_ok_def)
  have "\<forall>i<6. fn (subs ! i) \<noteq> None" using assms(3) taken_less(1) [OF ok] by simp
  moreover have "\<forall>i<6. fn (subs ! i) \<noteq> Some f" using assms(2) thresholds_slot [OF ok] len by auto
  ultimately show ?thesis
    using subscribe_loop_cases [OF len, of 0 f None t] by (auto simp: ulog_subscribe_def)
qed

lemma unsubscribe_known:
  assumes ok: "table_ok subs" and "f \<in> dom (thresholds subs)"
  shows "\<exists>subs'. ulog_unsubscribe (Some f) subs = (ULOG_ERR_NONE, subs') \<and> table_ok subs'
    \<and> thresholds subs' = (thresholds subs)(f := None)"
proof -
  have len: "length subs = 6" using ok by (simp add: table_ok_def)
  from assms(2) obtain j where "j < 6" "fn (subs ! j) = Some f" using thresholds_Some_slot [of subs f] len by auto
  with unsubscribe_loop_cases [OF len, of 0 f] obtain slot where slot: "slot < 6" "fn (subs ! slot) = Some f"
      "ulog_unsubscribe (Some f) subs = (ULOG_ERR_NONE, subs[slot := (subs ! slot)\<lparr>fn := None\<rparr>])"
    unfolding ulog_unsubscribe_def by fastforce
  let ?s = "subs[slot := (subs ! slot)\<lparr>fn := None\<rparr>]"
  have nth: "fn (?s ! j) = (if j = slot then None else fn (subs ! j))" if "j < 6" for j
    using that len by (simp add: nth_list_update)
  have ok': "table_ok ?s"
    unfolding table_ok_def
  proof (intro conjI allI impI)
    show "length ?s = ULOG_MAX_SUBSCRIBERS" using len by simp
    fix i j g assume "i < length ?s" "j < length ?s" "fn (?s ! i) = Some g \<and> fn (?s ! j) = Some g"
    then show "i = j" using nth len table_ok_slot [OF ok, of i j g] by (auto split: if_splits)
  qed
  have "thresholds ?s g = ((thresholds subs)(f := None)) g" for g
  proof (cases "g \<noteq> f \<and> (\<exists>j<6. fn (subs ! j) = Some g)")
    case True
    then obtain j where j: "j < 6" "fn (subs ! j) = Some g" "g \<noteq> f" by blast
    then have "j \<noteq> slot" using slot(2) by auto
    have t1: "thresholds subs g = Some (threshold (subs ! j))" using thresholds_slot [OF ok, of j g] j len by simp
    have "thresholds ?s g = Some (threshold (?s ! j))"
      using thresholds_slot [OF ok', of j g] nth [OF j(1)] \<open>j \<noteq> slot\<close> j len by simp
    then show ?thesis using t1 \<open>j \<noteq> slot\<close> j(3) by simp
  next
    case False
    have "thresholds ?s g = None"
    proof (rule thresholds_none, intro allI impI)
      fix j assume "j < length ?s"
      then have j: "j < 6" using len by simp
      show "fn (?s ! j) \<noteq> Some g"
      proof
        assume "fn (?s ! j) = Some g"
        then have n: "j \<noteq> slot" "fn (subs ! j) = Some g" using nth [OF j] by (auto split: if_splits)
        with False j have "g = f" by blast
        with table_ok_slot [OF ok, of j slot f] n j slot(1,2) len show False by simp
      qed
    qed
    moreover have "thresholds subs g = None" if "g \<noteq> f"
    proof (rule thresholds_none, intro allI impI)
      fix i assume "i < length subs"
      with False that len show "fn (subs ! i) \<noteq> Some g" by metis
    qed
    ultimately show ?thesis by simp
  qed
  with slot(3) ok' show ?thesis by auto
qed

lemma unsubscribe_unknown:
  assumes ok: "table_ok subs" and "f \<notin> dom (thresholds subs)"
  shows "ulog_unsubscribe (Some f) subs = (ULOG_ERR_NOT_SUBSCRIBED, subs)"
proof -
  have len: "length subs = 6" using ok by (simp add: table_ok_def)
  have "\<forall>i<6. fn (subs ! i) \<noteq> Some f" using assms(2) thresholds_slot [OF ok] len by auto
  then show ?thesis using unsubscribe_loop_cases [OF len, of 0 f] by (auto simp: ulog_unsubscribe_def)
qed

interpretation subscribers: bounded_map sub_ins sub_del thresholds table_ok ulog_init 6
proof
  show "table_ok ulog_init" by (rule table_ok_init)
  show "thresholds ulog_init = Map.empty" by (rule thresholds_init)
  fix m :: "'f subscriber_t list" and k :: 'f and v
  assume ok: "table_ok m"
  show "finite (dom (thresholds m))" by (rule dom_thresholds(3) [OF ok])
  show "k \<in> dom (thresholds m) \<or> card (dom (thresholds m)) < 6 \<Longrightarrow>
      \<exists>m'. sub_ins k v m = (True, m') \<and> table_ok m' \<and> thresholds m' = (thresholds m)(k \<mapsto> v)"
    using subscribe_room [OF ok, of k v] by (auto simp: sub_ins_def)
  show "k \<notin> dom (thresholds m) \<Longrightarrow> \<not> card (dom (thresholds m)) < 6 \<Longrightarrow> sub_ins k v m = (False, m)"
    using subscribe_full [OF ok, of k v] by (simp add: sub_ins_def)
  show "k \<in> dom (thresholds m) \<Longrightarrow>
      \<exists>m'. sub_del k m = (True, m') \<and> table_ok m' \<and> thresholds m' = (thresholds m)(k := None)"
    using unsubscribe_known [OF ok, of k] by (auto simp: sub_del_def)
  show "k \<notin> dom (thresholds m) \<Longrightarrow> sub_del k m = (False, m)"
    using unsubscribe_unknown [OF ok, of k] by (simp add: sub_del_def)
qed

section \<open>Delivery\<close>

definition recipients :: "ulog_level_t \<Rightarrow> 'f subscriber_t list \<Rightarrow> 'f list" where
  "recipients severity subs = map (the \<circ> fn) (filter (\<lambda>sub. fn sub \<noteq> None \<and> threshold sub \<le> severity) subs)"

fun deliver :: "('f \<Rightarrow> 's \<Rightarrow> 's outcome) \<Rightarrow> 'f list \<Rightarrow> 's \<Rightarrow> 's outcome" where
  "deliver call [] s = Inr s"
| "deliver call (f # fs) s = rbind (call f s) (deliver call fs)"

lemma notify_deliver:
  "notify call severity msg subs s = deliver (\<lambda>f. call f severity msg) (recipients severity subs) s"
proof (induction subs arbitrary: s)
  case (Cons sub subs)
  then show ?case by (cases "fn sub") (auto simp: recipients_def intro!: rbind_cong)
qed (simp add: recipients_def)

text \<open>
  What a message may do to the state of its subscribers.  A subscriber promises to change the
  state by steps of a relation that composes; then a message with any text, severity and table
  is such a step too.
\<close>

locale subscriber =
  fixes call :: "'f \<Rightarrow> ulog_level_t \<Rightarrow> u8 list \<Rightarrow> 's \<Rightarrow> 's outcome"
    and ok :: "'s \<Rightarrow> bool"
    and step :: "'s \<Rightarrow> 's \<Rightarrow> bool"
  assumes step_refl: "ok s \<Longrightarrow> step s s"
    and step_trans: "step s s' \<Longrightarrow> step s' s'' \<Longrightarrow> step s s''"
    and step_ok: "step s s' \<Longrightarrow> ok s'"
    and call_step: "ok s \<Longrightarrow> call f severity msg s = Inr s' \<Longrightarrow> step s s'"
begin

lemma deliver_step: "ok s \<Longrightarrow> deliver (\<lambda>f. call f severity msg) fs s = Inr s' \<Longrightarrow> step s s'"
proof (induction fs arbitrary: s)
  case (Cons f fs)
  from Cons.prems(2) obtain s1 where s1: "call f severity msg s = Inr s1" "deliver (\<lambda>f. call f severity msg) fs s1 = Inr s'"
    by (auto simp: rbind_Inr_iff)
  have 1: "step s s1" by (rule call_step [OF Cons.prems(1) s1(1)])
  show ?case by (rule step_trans [OF 1 Cons.IH [OF step_ok [OF 1] s1(2)]])
qed (simp add: step_refl)

lemma message_step:
  "ok s \<Longrightarrow> ulog_message call s_message severity fmt va subs m s = Inr (m', s') \<Longrightarrow> step s s'"
  by (auto simp: ulog_message_def notify_deliver rbind_Inr_iff dest: deliver_step)

end

lemma recipients_set:
  assumes "table_ok subs"
  shows "set (recipients severity subs) = {f. \<exists>t. thresholds subs f = Some t \<and> t \<le> severity}"
proof (intro subset_antisym subsetI CollectI)
  fix f assume "f \<in> set (recipients severity subs)"
  then obtain i where "i < length subs" "fn (subs ! i) = Some f" "threshold (subs ! i) \<le> severity"
    by (auto simp: recipients_def in_set_conv_nth)
  with thresholds_slot [OF assms] show "\<exists>t. thresholds subs f = Some t \<and> t \<le> severity" by blast
next
  fix f assume "f \<in> {f. \<exists>t. thresholds subs f = Some t \<and> t \<le> severity}"
  then obtain t where "thresholds subs f = Some t" "t \<le> severity" by blast
  from thresholds_Some_slot [OF this(1)] this(2) obtain sub
    where "sub \<in> set subs" "fn sub = Some f" "threshold sub \<le> severity" by (metis nth_mem)
  then show "f \<in> set (recipients severity subs)" unfolding recipients_def by force
qed

lemma recipients_distinct:
  assumes "table_ok subs" shows "distinct (recipients severity subs)"
proof -
  let ?P = "\<lambda>sub. fn sub \<noteq> None \<and> threshold sub \<le> severity"
  have "distinct (map (the \<circ> fn) (filter ?P xs))"
    if "\<forall>i<length xs. \<forall>j<length xs. \<forall>f. fn (xs ! i) = Some f \<and> fn (xs ! j) = Some f \<longrightarrow> i = j"
    for xs :: "'a subscriber_t list"
    using that
  proof (induction xs)
    case (Cons x xs)
    have "fn y \<noteq> fn x" if y: "y \<in> set xs" and x: "fn x \<noteq> None" for y
    proof
      assume "fn y = fn x"
      obtain j where "j < length xs" "xs ! j = y" using y by (auto simp: in_set_conv_nth)
      moreover obtain g where "fn x = Some g" using x by blast
      ultimately have "Suc j = 0"
        using Cons.prems [rule_format, of "Suc j" 0 g] \<open>fn y = fn x\<close> by simp
      then show False by simp
    qed
    moreover have "\<forall>i<length xs. \<forall>j<length xs. \<forall>f. fn (xs ! i) = Some f \<and> fn (xs ! j) = Some f \<longrightarrow> i = j"
      using Cons.prems by (metis Suc_less_eq length_Cons nat.inject nth_Cons_Suc)
    ultimately show ?case using Cons.IH by (auto simp: option.expand)
  qed simp
  with assms show ?thesis unfolding recipients_def table_ok_def by blast
qed

lemma array_at_stored:
  assumes "0 < n" "n < 18446744073709551616"
  shows "take (Suc (min (length t) (n - 1))) (array_at (stored b (of_nat n) t m) b n) = take (n - 1) t @ [0]"
proof (rule nth_equalityI)
  show "length (take (Suc (min (length t) (n - 1))) (array_at (stored b (of_nat n) t m) b n)) = length (take (n - 1) t @ [0])"
    using assms by (simp add: array_at_def)
  fix i assume "i < length (take (Suc (min (length t) (n - 1))) (array_at (stored b (of_nat n) t m) b n))"
  then have i: "i < Suc (min (length t) (n - 1))" "i < n" by (simp_all add: array_at_def)
  have nz: "(of_nat n :: u64) \<noteq> 0" using assms of_nat_u64_inj [of n 0] by simp
  have "take (Suc (min (length t) (n - 1))) (array_at (stored b (of_nat n) t m) b n) ! i =
      stored b (of_nat n) t m (b + of_nat i)"
    using i unfolding array_at_def by (subst nth_take) simp_all
  also have "\<dots> = (if i < min (length t) (n - 1) then t ! i else 0)"
    using i assms nz unfolding stored_def Let_def offset_add by (subst unat_of_nat_u64, simp)+ auto
  also have "\<dots> = (take (n - 1) t @ [0]) ! i" using i by (auto simp: nth_append min_def)
  finally show "take (Suc (min (length t) (n - 1))) (array_at (stored b (of_nat n) t m) b n) ! i = (take (n - 1) t @ [0]) ! i" .
qed

text \<open>The text, cut to what fits, stands in the buffer with its NUL.\<close>

lemma array_at_stored_cut:
  assumes "0 < n" "n < 18446744073709551616"
  shows "\<exists>rest. array_at (stored b (of_nat n) t m) b n = take (n - 1) t @ 0 # rest"
  using array_at_stored [OF assms, of t b m]
  by (metis append_take_drop_id append.assoc append_Cons append_Nil)

lemma ulog_message_deliver:
  assumes "render fmt va = Inr t" "length t < 18446744073709551616" "s_message \<noteq> 0"
  shows "ulog_message call s_message severity fmt va subs m s =
      rbind (deliver (\<lambda>f. call f severity (array_at (stored s_message 120 t m) s_message 120))
               (recipients severity subs) s)
        (\<lambda>s'. Inr (stored s_message 120 t m, s'))"
proof -
  have "vsnprintf s_message 120 fmt va m = Inr (ucast (of_nat (length t) :: u64), stored s_message 120 t m)"
    using assms out_buffer_text [OF assms(2), of s_message 120 m]
    by (simp add: vsnprintf_def vsnprintf_render Let_def)
  then show ?thesis by (simp add: ulog_message_def notify_deliver)
qed

section \<open>Properties\<close>

text \<open>
  C14. Subscribing keeps the table a map with at most six functions: a function that is known, or
  new while a slot is free, is given the threshold and every other function keeps its own; when
  all six slots are taken, a new function is refused and the table does not change.
\<close>

theorem ulog_subscribe_contract:
  assumes "table_ok subs"
  shows "if f \<in> dom (thresholds subs) \<or> card (dom (thresholds subs)) < 6
    then (\<exists>subs'. ulog_subscribe (Some f) t subs = (ULOG_ERR_NONE, subs') \<and> table_ok subs'
            \<and> thresholds subs' = (thresholds subs)(f \<mapsto> t))
    else ulog_subscribe (Some f) t subs = (ULOG_ERR_SUBSCRIBERS_EXCEEDED, subs)"
  using subscribe_room [OF assms, of f t] subscribe_full [OF assms, of f t] by simp

theorem ulog_subscribe_contract_witness:
  "\<exists>subs'. ulog_subscribe (Some 7) ULOG_INFO_LEVEL ulog_init = (ULOG_ERR_NONE, subs')
    \<and> thresholds subs' = [7 :: nat \<mapsto> 102]"
  using ulog_subscribe_contract [OF table_ok_init, of "7 :: nat" 102] by (auto simp: thresholds_init)

text \<open>
  Unsubscribing what was just subscribed gives the table back: after a new function was
  subscribed in a free slot, unsubscribing it succeeds and leaves every threshold as before.
\<close>

theorem ulog_subscribe_unsubscribe:
  assumes "table_ok subs" "f \<notin> dom (thresholds subs)" "card (dom (thresholds subs)) < 6"
  shows "\<exists>subs'. ulog_unsubscribe (Some f) (snd (ulog_subscribe (Some f) t subs)) = (ULOG_ERR_NONE, subs')
    \<and> table_ok subs' \<and> thresholds subs' = thresholds subs"
  using subscribers.del_after_ins [OF assms, of t]
  by (auto simp: sub_ins_def sub_del_def split: prod.splits)

theorem ulog_subscribe_unsubscribe_witness:
  "\<exists>subs'. ulog_unsubscribe (Some 7) (snd (ulog_subscribe (Some (7 :: nat)) ULOG_INFO_LEVEL ulog_init)) = (ULOG_ERR_NONE, subs')
    \<and> thresholds subs' = Map.empty"
  using ulog_subscribe_unsubscribe [OF table_ok_init, of "7 :: nat" 102] by (auto simp: thresholds_init)

text \<open>
  C36. A message reaches exactly the subscribers whose threshold it meets, each once: ulog_message
  formats the message into its buffer, cut to 119 characters and terminated, and calls the
  recipients one after the other with that buffer; no function is called twice, and the
  functions called are those whose threshold is at most the severity.
\<close>

theorem ulog_message_delivery:
  assumes "table_ok subs" "render fmt va = Inr t" "length t < 18446744073709551616" "s_message \<noteq> 0"
  shows "ulog_message call s_message severity fmt va subs m s =
      rbind (deliver (\<lambda>f. call f severity (array_at (stored s_message 120 t m) s_message 120))
               (recipients severity subs) s)
        (\<lambda>s'. Inr (stored s_message 120 t m, s'))
    \<and> take (Suc (min (length t) 119)) (array_at (stored s_message 120 t m) s_message 120) = take 119 t @ [0]
    \<and> distinct (recipients severity subs)
    \<and> set (recipients severity subs) = {f. \<exists>th. thresholds subs f = Some th \<and> th \<le> severity}"
  using ulog_message_deliver [OF assms(2-4), of call severity subs m s] array_at_stored [of 120 t s_message m]
    recipients_distinct [OF assms(1)] recipients_set [OF assms(1)] by simp

theorem ulog_message_delivery_witness:
  "\<exists>m'. ulog_message (\<lambda>f severity msg s. Inr (s @ [(f, severity, take 3 msg)])) 0x2000 ULOG_CRITICAL_LEVEL
     (lit ''%d'') [Word 42] (snd (ulog_subscribe (Some (7 :: nat)) ULOG_INFO_LEVEL ulog_init)) (\<lambda>_. 0) [] =
   Inr (m', [(7, ULOG_CRITICAL_LEVEL, bytes_of ''42'' @ [0])])"
proof -
  let ?subs = "snd (ulog_subscribe (Some (7 :: nat)) 102 ulog_init)"
  have ok: "table_ok ?subs" using subscribe_room [OF table_ok_init, of "7 :: nat" 102] by (auto simp: thresholds_init)
  have r: "render (lit ''%d'') [Word 42] = Inr [0x34, 0x32]"
    unfolding render_decimal by (simp add: decimal_def numeral_text_def digits_of.simps digit_byte_def)
  have rec: "recipients 105 ?subs = [7]"
  proof -
    have "(102 :: u32) \<le> 105" by simp
    moreover have "ulog_subscribe (Some (7 :: nat)) 102 ulog_init =
        (ULOG_ERR_NONE, replicate 5 \<lparr>fn = None, threshold = 0\<rparr> @ [\<lparr>fn = Some 7, threshold = 102\<rparr>])"
      by (simp add: ulog_subscribe_def ulog_init_def subscribe_loop.simps eval_nat_numeral)
    ultimately show ?thesis by (simp add: recipients_def)
  qed
  from ulog_message_delivery [OF ok r, of "0x2000" "\<lambda>f severity msg s. Inr (s @ [(f, severity, take 3 msg)])" 105 "\<lambda>_. 0" "[]"]
  show ?thesis by (simp add: rec bytes_of_def of_char_def numeral_3_eq_3)
qed

end
