(* ===== verification/Port_Io.thy ===== *)
theory Port_Io
  imports Console
begin

text \<open>
  Port I/O (kernel/include/kernel/io/io.h).  The machine's ports are a device that is not part
  of the program: a function from the history of accesses and a port to the byte the next read
  of that port gives.  The program's side is the history itself, a list of events.
\<close>

datatype io_event = Out u16 u8 | In u16 u8

type_synonym device = "io_event list \<Rightarrow> u16 \<Rightarrow> u8"

definition outb :: "u16 \<Rightarrow> u8 \<Rightarrow> io_event list \<Rightarrow> io_event list" where
  "outb port val io = io @ [Out port val]"

definition inb :: "device \<Rightarrow> u16 \<Rightarrow> io_event list \<Rightarrow> u8 \<times> io_event list" where
  "inb dev port io = (dev io port, io @ [In port (dev io port)])"

definition io_wait :: "io_event list \<Rightarrow> io_event list" where
  "io_wait io = outb 0x80 0 io"

text \<open>The bytes written to one port, in order.\<close>

definition written :: "u16 \<Rightarrow> io_event list \<Rightarrow> u8 list" where
  "written port io = concat (map (\<lambda>e. case e of Out p v \<Rightarrow> if p = port then [v] else [] | In p v \<Rightarrow> []) io)"

lemma written_simps [simp]:
  "written port [] = []"
  "written port (Out p v # io) = (if p = port then v # written port io else written port io)"
  "written port (In p v # io) = written port io"
  "written port (io @ io') = written port io @ written port io'"
  by (simp_all add: written_def)

end
