(* ===== verification/Serial.thy ===== *)
theory Serial
  imports Port_Io
begin

text \<open>
  The serial port driver of kernel/arch/x86_64/io/serial.c, over the history of port accesses.
  The loop that waits for the transmit FIFO may never end: it is a partial function, and
  serial_write is \<open>Diverges\<close> when the port never reports an empty FIFO.  The driver of the
  i386 port (kernel/arch/i386/serial.c) is the second group of definitions.
\<close>

section \<open>The x86_64 driver\<close>

record serial =
  io :: "io_event list"
  is_initialized :: bool
  serial_console :: "console_call list"

definition SERIAL_COM1 :: u16 where [simp]: "SERIAL_COM1 = 0x3F8"
definition SERIAL_COM_PORTS :: "u16 list" where
  "SERIAL_COM_PORTS = [SERIAL_COM1, 0x2F8, 0x3E8, 0x2E8, 0x5F8, 0x4F8, 0x5F8, 0x4E8]"
definition SERIAL_FIFO_COMMAND_PORT :: "u16 \<Rightarrow> u16" where [simp]: "SERIAL_FIFO_COMMAND_PORT base = base + 2"
definition SERIAL_LINE_COMMAND_PORT :: "u16 \<Rightarrow> u16" where [simp]: "SERIAL_LINE_COMMAND_PORT base = base + 3"
definition SERIAL_MODEM_COMMAND_PORT :: "u16 \<Rightarrow> u16" where [simp]: "SERIAL_MODEM_COMMAND_PORT base = base + 4"
definition SERIAL_LINE_STATUS_PORT :: "u16 \<Rightarrow> u16" where [simp]: "SERIAL_LINE_STATUS_PORT base = base + 5"
definition SERIAL_LINE_ENABLE_DLAB :: u8 where [simp]: "SERIAL_LINE_ENABLE_DLAB = 0x80"
definition SERIAL_DEFAULT_LINE_SETUP :: u8 where [simp]: "SERIAL_DEFAULT_LINE_SETUP = 0x03"
definition SERIAL_DEFAULT_FIFO_SETUP :: u8 where [simp]: "SERIAL_DEFAULT_FIFO_SETUP = 0xC7"
definition SERIAL_DEFAULT_MODEM_SETUP :: u8 where [simp]: "SERIAL_DEFAULT_MODEM_SETUP = 0x03"

definition serial_configure_baud_rate :: "u16 \<Rightarrow> u16 \<Rightarrow> io_event list \<Rightarrow> io_event list" where
  "serial_configure_baud_rate com divisor p =
     (let p1 = outb (SERIAL_LINE_COMMAND_PORT com) SERIAL_LINE_ENABLE_DLAB p;
          p2 = outb com (ucast (drop_bit 8 divisor AND 0x00FF)) p1
      in outb com (ucast (divisor AND 0x00FF)) p2)"

definition serial_configure_line :: "u16 \<Rightarrow> io_event list \<Rightarrow> io_event list" where
  "serial_configure_line com = outb (SERIAL_LINE_COMMAND_PORT com) SERIAL_DEFAULT_LINE_SETUP"

definition serial_configure_fifo :: "u16 \<Rightarrow> io_event list \<Rightarrow> io_event list" where
  "serial_configure_fifo com = outb (SERIAL_FIFO_COMMAND_PORT com) SERIAL_DEFAULT_FIFO_SETUP"

definition serial_configure_modem :: "u16 \<Rightarrow> io_event list \<Rightarrow> io_event list" where
  "serial_configure_modem com = outb (SERIAL_MODEM_COMMAND_PORT com) SERIAL_DEFAULT_MODEM_SETUP"

definition serial_initialize :: "u16 \<Rightarrow> serial \<Rightarrow> serial" where
  "serial_initialize com s =
     (let s1 = s\<lparr>is_initialized := False,
                 serial_console := serial_console s @ [ULOG_INFO ''Initializing Serial port...'' []]\<rparr> in
      if com < 1 then
        s1\<lparr>serial_console := serial_console s1 @ [ULOG_CRITICAL ''Critical, COM Port invalid.'' []]\<rparr>
      else
        let p = serial_configure_baud_rate com 8 (io s1);
            p = serial_configure_fifo com p;
            p = serial_configure_line com p;
            p = serial_configure_modem com p
        in s1\<lparr>io := p,
              serial_console := serial_console s1 @ [ULOG_INFO ''Success, Serial port initialized.'' []],
              is_initialized := True\<rparr>)"

definition serial_is_transmit_fifo_empty :: "device \<Rightarrow> u16 \<Rightarrow> io_event list \<Rightarrow> u32 \<times> io_event list" where
  "serial_is_transmit_fifo_empty dev com p =
     (let (b, p') = inb dev (SERIAL_LINE_STATUS_PORT com) p in (ucast b AND 0x20, p'))"

partial_function (option) wait_transmit :: "device \<Rightarrow> u16 \<Rightarrow> io_event list \<Rightarrow> io_event list option" where
  "wait_transmit dev com p =
     (let (r, p') = serial_is_transmit_fifo_empty dev com p in
      if r = 0 then wait_transmit dev com p' else Some p')"

fun serial_write :: "device \<Rightarrow> u8 list \<Rightarrow> u16 \<Rightarrow> io_event list \<Rightarrow> io_event list outcome" where
  "serial_write dev [] com p = Inl Read_Past_End"
| "serial_write dev (c # buf) com p =
     (if c \<noteq> 0 then
        case wait_transmit dev com p of
          None \<Rightarrow> Inl Diverges
        | Some p' \<Rightarrow> serial_write dev buf com (outb com c p')
      else Inr p)"

definition is_serial_initialized :: "serial \<Rightarrow> bool" where
  "is_serial_initialized s = is_initialized s"

section \<open>The i386 driver\<close>

definition i386_serial_configure_baud_rate :: "u16 \<Rightarrow> u16 \<Rightarrow> io_event list \<Rightarrow> io_event list" where
  "i386_serial_configure_baud_rate com divisor p =
     (let p1 = outb (SERIAL_LINE_COMMAND_PORT com) SERIAL_LINE_ENABLE_DLAB p;
          p2 = outb com (ucast (drop_bit 8 divisor AND 0x00FF)) p1
      in outb com (ucast (divisor AND 0x00FF)) p2)"

definition i386_serial_configure_line :: "u16 \<Rightarrow> io_event list \<Rightarrow> io_event list" where
  "i386_serial_configure_line com = outb (SERIAL_LINE_COMMAND_PORT com) SERIAL_DEFAULT_LINE_SETUP"

definition i386_serial_configure_fifo :: "u16 \<Rightarrow> io_event list \<Rightarrow> io_event list" where
  "i386_serial_configure_fifo com = outb (SERIAL_FIFO_COMMAND_PORT com) SERIAL_DEFAULT_FIFO_SETUP"

definition i386_serial_configure_modem :: "u16 \<Rightarrow> io_event list \<Rightarrow> io_event list" where
  "i386_serial_configure_modem com = outb (SERIAL_MODEM_COMMAND_PORT com) SERIAL_DEFAULT_MODEM_SETUP"

definition i386_serial_initialize :: "u16 \<Rightarrow> io_event list \<Rightarrow> io_event list" where
  "i386_serial_initialize com p =
     (if com < 1 then p
      else
        let p1 = i386_serial_configure_baud_rate com 8 p;
            p2 = i386_serial_configure_fifo com p1;
            p3 = i386_serial_configure_line com p2
        in i386_serial_configure_modem com p3)"

definition i386_fifo_empty :: "device \<Rightarrow> u16 \<Rightarrow> io_event list \<Rightarrow> u32 \<times> io_event list" where
  "i386_fifo_empty dev com p =
     (let (b, p') = inb dev (SERIAL_LINE_STATUS_PORT com) p in (ucast b AND 0x20, p'))"

partial_function (option) i386_wait :: "device \<Rightarrow> u16 \<Rightarrow> io_event list \<Rightarrow> io_event list option" where
  "i386_wait dev com p =
     (let (r, p') = i386_fifo_empty dev com p in if r = 0 then i386_wait dev com p' else Some p')"

fun i386_serial_write :: "device \<Rightarrow> u8 list \<Rightarrow> u16 \<Rightarrow> io_event list \<Rightarrow> io_event list outcome" where
  "i386_serial_write dev [] com p = Inl Read_Past_End"
| "i386_serial_write dev (c # buf) com p =
     (if c \<noteq> 0 then
        case i386_wait dev com p of
          None \<Rightarrow> Inl Diverges
        | Some p' \<Rightarrow> i386_serial_write dev buf com (outb com c p')
      else Inr p)"

section \<open>Waiting\<close>

text \<open>The line status after n polls, and the history then.\<close>

fun polled :: "device \<Rightarrow> u16 \<Rightarrow> nat \<Rightarrow> io_event list \<Rightarrow> io_event list" where
  "polled dev com 0 p = p"
| "polled dev com (Suc n) p = polled dev com n (snd (inb dev (SERIAL_LINE_STATUS_PORT com) p))"

definition ready :: "device \<Rightarrow> u16 \<Rightarrow> io_event list \<Rightarrow> bool" where
  "ready dev com p \<longleftrightarrow> dev p (SERIAL_LINE_STATUS_PORT com) AND 0x20 \<noteq> 0"

text \<open>A port that always gets ready, whatever happened before, after finitely many polls.\<close>

definition port_works :: "device \<Rightarrow> u16 \<Rightarrow> bool" where
  "port_works dev com \<longleftrightarrow> (\<forall>p. \<exists>n. ready dev com (polled dev com n p))"

lemma fifo_empty_iff:
  "serial_is_transmit_fifo_empty dev com p = (r, p') \<Longrightarrow>
    (r \<noteq> 0 \<longleftrightarrow> ready dev com p) \<and> p' = p @ [In (SERIAL_LINE_STATUS_PORT com) (dev p (SERIAL_LINE_STATUS_PORT com))]"
proof -
  assume a: "serial_is_transmit_fifo_empty dev com p = (r, p')"
  let ?b = "dev p (SERIAL_LINE_STATUS_PORT com)"
  have r: "r = ucast ?b AND 0x20" "p' = p @ [In (SERIAL_LINE_STATUS_PORT com) ?b]"
    using a by (simp_all add: serial_is_transmit_fifo_empty_def inb_def)
  have "ucast ?b AND 0x20 = (ucast (?b AND 0x20) :: u32)" by (simp add: unsigned_and_eq)
  moreover have "(ucast (?b AND 0x20) :: u32) = 0 \<longleftrightarrow> ?b AND 0x20 = 0"
    by (simp add: word_unat_eq_iff)
  ultimately show ?thesis using r by (simp add: ready_def)
qed

lemma wait_step:
  "wait_transmit dev com p =
    (if ready dev com p then Some (polled dev com 1 p) else wait_transmit dev com (polled dev com 1 p))"
proof -
  obtain r p' where a: "serial_is_transmit_fifo_empty dev com p = (r, p')" by fastforce
  from fifo_empty_iff [OF this] have "polled dev com 1 p = p'" "r \<noteq> 0 \<longleftrightarrow> ready dev com p"
    by (simp_all add: inb_def)
  then show ?thesis by (subst wait_transmit.simps) (auto simp: a)
qed

lemma wait_ready:
  "ready dev com (polled dev com n p) \<Longrightarrow> (\<And>m. m < n \<Longrightarrow> \<not> ready dev com (polled dev com m p)) \<Longrightarrow>
   wait_transmit dev com p = Some (polled dev com (Suc n) p)"
proof (induction n arbitrary: p)
  case 0
  then show ?case by (simp add: wait_step [of dev com p])
next
  case (Suc n)
  have "\<not> ready dev com p" using Suc.prems(2) [of 0] by simp
  moreover have "wait_transmit dev com (polled dev com 1 p) = Some (polled dev com (Suc n) (polled dev com 1 p))"
    using Suc.prems Suc.prems(2) [of "Suc m" for m] by (intro Suc.IH) simp_all
  ultimately show ?case by (simp add: wait_step [of dev com p])
qed

lemma wait_returns:
  assumes "wait_transmit dev com p = Some q"
  shows "\<exists>n. ready dev com (polled dev com n p) \<and> q = polled dev com (Suc n) p"
proof (rule wait_transmit.raw_induct [OF _ assms], goal_cases)
  case (1 wait dev com p q)
  obtain r p' where a: "serial_is_transmit_fifo_empty dev com p = (r, p')" by fastforce
  note f = fifo_empty_iff [OF a]
  show ?case
  proof (cases "r = 0")
    case True
    then have "wait dev com p' = Some q" using 1(2) a by simp
    from 1(1) [OF this] obtain n where "ready dev com (polled dev com n p') \<and> q = polled dev com (Suc n) p'" by blast
    then show ?thesis using f by (intro exI [of _ "Suc n"]) (simp add: inb_def)
  next
    case False
    then show ?thesis using 1(2) a f by (intro exI [of _ 0]) (simp add: inb_def)
  qed
qed

text \<open>The poll returns as soon as a ready status was read, and otherwise not at all.\<close>

lemma wait_transmit_eq:
  "wait_transmit dev com p =
    (if \<exists>n. ready dev com (polled dev com n p)
     then Some (polled dev com (Suc (LEAST n. ready dev com (polled dev com n p))) p) else None)"
proof (cases "\<exists>n. ready dev com (polled dev com n p)")
  case True
  then have "ready dev com (polled dev com (LEAST n. ready dev com (polled dev com n p)) p)" by (rule LeastI_ex)
  then have "wait_transmit dev com p = Some (polled dev com (Suc (LEAST n. ready dev com (polled dev com n p))) p)"
    by (rule wait_ready) (rule not_less_Least)
  with True show ?thesis by simp
next
  case False
  then show ?thesis using wait_returns [of dev com p] by (cases "wait_transmit dev com p") auto
qed

section \<open>What reaches the line\<close>

text \<open>Each byte leaves only right after a status that says the transmit FIFO is empty.\<close>

fun paced :: "u16 \<Rightarrow> bool \<Rightarrow> io_event list \<Rightarrow> bool" where
  "paced com ok [] = True"
| "paced com ok (In port v # es) = paced com (port = SERIAL_LINE_STATUS_PORT com \<and> v AND 0x20 \<noteq> 0) es"
| "paced com ok (Out port v # es) = (ok \<and> port = com \<and> paced com False es)"

lemma status_port_neq [simp]: "com + 5 \<noteq> (com :: u16)" by simp

lemma paced_polls:
  "ready dev com (polled dev com n p) \<Longrightarrow>
   \<exists>q. polled dev com (Suc n) p = p @ q \<and> written com q = [] \<and>
     (\<forall>ok es. paced com ok (q @ es) = paced com True es)"
proof (induction n arbitrary: p)
  case 0
  then show ?case by (simp add: inb_def ready_def)
next
  case (Suc n)
  let ?e = "In (SERIAL_LINE_STATUS_PORT com) (dev p (SERIAL_LINE_STATUS_PORT com))"
  obtain q where "polled dev com (Suc n) (p @ [?e]) = (p @ [?e]) @ q" "written com q = []"
    "\<forall>ok es. paced com ok (q @ es) = paced com True es"
    using Suc.IH [of "p @ [?e]"] Suc.prems by (auto simp: inb_def)
  then show ?case by (intro exI [of _ "?e # q"]) (simp add: inb_def)
qed

lemma serial_write_Cons:
  assumes "port_works dev com" "c \<noteq> 0"
  shows "\<exists>q. serial_write dev (c # buf) com p = serial_write dev buf com (p @ q @ [Out com c]) \<and>
    written com q = [] \<and> (\<forall>ok es. paced com ok (q @ es) = paced com True es)"
proof -
  obtain n where n: "wait_transmit dev com p = Some (polled dev com (Suc n) p)" "ready dev com (polled dev com n p)"
    using assms(1) LeastI_ex [of "\<lambda>n. ready dev com (polled dev com n p)"]
    unfolding port_works_def wait_transmit_eq by fastforce
  from paced_polls [OF n(2)] n(1) assms(2) show ?thesis by (auto simp: outb_def)
qed

lemma serial_write_sends:
  assumes "port_works dev com"
  shows "0 \<notin> set s \<Longrightarrow> \<exists>q. serial_write dev (s @ 0 # rest) com p = Inr (p @ q) \<and> written com q = s \<and>
    (\<forall>ok. paced com ok q)"
proof (induction s arbitrary: p)
  case (Cons c s)
  obtain q1 where q1: "serial_write dev (c # s @ 0 # rest) com p = serial_write dev (s @ 0 # rest) com (p @ q1 @ [Out com c])"
    "written com q1 = []" "\<forall>ok es. paced com ok (q1 @ es) = paced com True es"
    using serial_write_Cons [OF assms] Cons.prems by force
  obtain q2 where "serial_write dev (s @ 0 # rest) com (p @ q1 @ [Out com c]) = Inr ((p @ q1 @ [Out com c]) @ q2)"
    "written com q2 = s" "\<forall>ok. paced com ok q2"
    using Cons by fastforce
  with q1 show ?case by (intro exI [of _ "q1 @ Out com c # q2"]) simp
qed simp


text \<open>
  C22. Writing a string to the serial port.  If the port always gets ready again, serial_write
  returns, and it has sent exactly the bytes before the NUL, in order, each directly after a
  status with bit 5 set; nothing else was written to any port.  If the port never gets ready
  and there is a byte to send, serial_write never returns.
\<close>

theorem serial_write_transmits:
  assumes "0 \<notin> set s"
  shows "(port_works dev com \<longrightarrow>
      (\<exists>q. serial_write dev (s @ 0 # rest) com p = Inr (p @ q) \<and> written com q = s \<and> paced com False q)) \<and>
    (s \<noteq> [] \<and> (\<forall>n. \<not> ready dev com (polled dev com n p)) \<longrightarrow>
      serial_write dev (s @ 0 # rest) com p = Inl Diverges)"
proof (intro conjI impI)
  assume "port_works dev com"
  from serial_write_sends [OF this assms]
  show "\<exists>q. serial_write dev (s @ 0 # rest) com p = Inr (p @ q) \<and> written com q = s \<and> paced com False q"
    by metis
next
  assume a: "s \<noteq> [] \<and> (\<forall>n. \<not> ready dev com (polled dev com n p))"
  then obtain c t where "s = c # t" by (cases s) auto
  with a assms show "serial_write dev (s @ 0 # rest) com p = Inl Diverges" by (simp add: wait_transmit_eq)
qed

text \<open>A port that is ready at every second poll.\<close>

definition busy_once :: device where
  "busy_once h port = (if even (length (filter (\<lambda>e. case e of In p v \<Rightarrow> True | Out p v \<Rightarrow> False) h)) then 0 else 0x20)"

lemma busy_once_works: "port_works busy_once com"
  unfolding port_works_def
proof
  fix p
  show "\<exists>n. ready busy_once com (polled busy_once com n p)"
  proof (cases "ready busy_once com p")
    case True
    then show ?thesis by (intro exI [of _ 0]) simp
  next
    case False
    then show ?thesis by (intro exI [of _ 1]) (simp add: ready_def busy_once_def inb_def split: if_splits)
  qed
qed

theorem serial_write_transmits_witness:
  "(\<exists>q. serial_write busy_once [0x48, 0x69, 0] 0x3F8 [] = Inr q \<and> written 0x3F8 q = [0x48, 0x69] \<and>
      paced 0x3F8 False q) \<and>
   serial_write (\<lambda>h port. 0) [0x48, 0x69, 0] 0x3F8 [] = Inl Diverges"
  using serial_write_transmits [of "[0x48, 0x69]" busy_once "0x3F8" "[]" "[]"] busy_once_works
    serial_write_transmits [of "[0x48, 0x69]" "\<lambda>h port. 0" "0x3F8" "[]" "[]"]
  by (simp add: ready_def)

section \<open>What the port is configured to\<close>

text \<open>
  The part of a 16550 UART that the driver programs, as its data sheet has it: bit 7 of the
  line control register (the divisor latch access bit) decides whether a write to the base
  port is data or the low byte of the divisor, and one to the next port the interrupt mask
  or the high byte.
\<close>

record uart =
  dlab :: bool
  dll :: u8
  dlm :: u8
  ier :: u8
  lcr :: u8
  fcr :: u8
  mcr :: u8
  sent :: "u8 list"

definition uart_out :: "u16 \<Rightarrow> u16 \<Rightarrow> u8 \<Rightarrow> uart \<Rightarrow> uart" where
  "uart_out com port v u =
     (if port = com then (if dlab u then u\<lparr>dll := v\<rparr> else u\<lparr>sent := sent u @ [v]\<rparr>)
      else if port = com + 1 then (if dlab u then u\<lparr>dlm := v\<rparr> else u\<lparr>ier := v\<rparr>)
      else if port = com + 2 then u\<lparr>fcr := v\<rparr>
      else if port = com + 3 then u\<lparr>lcr := v, dlab := bit v 7\<rparr>
      else if port = com + 4 then u\<lparr>mcr := v\<rparr>
      else u)"

fun uart_run :: "u16 \<Rightarrow> io_event list \<Rightarrow> uart \<Rightarrow> uart" where
  "uart_run com [] u = u"
| "uart_run com (Out port v # es) u = uart_run com es (uart_out com port v u)"
| "uart_run com (In port v # es) u = uart_run com es u"

lemma uart_out_simps:
  "uart_out com com v u = (if dlab u then u\<lparr>dll := v\<rparr> else u\<lparr>sent := sent u @ [v]\<rparr>)"
  "uart_out com (com + 2) v u = u\<lparr>fcr := v\<rparr>"
  "uart_out com (com + 3) v u = u\<lparr>lcr := v, dlab := bit v 7\<rparr>"
  "uart_out com (com + 4) v u = u\<lparr>mcr := v\<rparr>"
  by (simp_all add: uart_out_def)

lemma dlab_bits: "bit (0x80 :: u8) 7" "\<not> bit (3 :: u8) 7"
  by simp_all

text \<open>
  Initialisation of the port.  With a valid port the driver sets 8 data bits, no parity, a
  cleared 14-byte FIFO and RTS/DTR, leaves the divisor latch closed, sends nothing and reports
  itself initialised.  The low byte of the divisor becomes 8, but the high byte is never
  written: both bytes of the divisor go to the base port, so the speed is 115200/8 only
  if the high byte of the latch was 0 before.  Port 0 is refused and no port is touched.
\<close>

theorem serial_initialize_configures:
  "is_serial_initialized (serial_initialize com s) = (com \<noteq> 0) \<and>
   (if com = 0 then io (serial_initialize com s) = io s
    else \<exists>q. io (serial_initialize com s) = io s @ q \<and>
      uart_run com q u = u\<lparr>dll := 8, fcr := 0xC7, lcr := 3, dlab := False, mcr := 3\<rparr>)"
proof -
  have "com < 1 \<longleftrightarrow> com = 0" by (metis word_less_1)
  then show ?thesis
    by (simp add: serial_initialize_def is_serial_initialized_def Let_def serial_configure_baud_rate_def
      serial_configure_fifo_def serial_configure_line_def serial_configure_modem_def outb_def uart_out_simps
      dlab_bits)
qed

section \<open>The two ports of the driver\<close>

text \<open>COM5 and COM7 are the same port in serial.h, and no other two are.\<close>

lemma com_ports_clash:
  "list_all (\<lambda>j. list_all (\<lambda>i. (SERIAL_COM_PORTS ! i = SERIAL_COM_PORTS ! j) = (i = 4 \<and> j = 6)) [0..<j]) [0..<8]"
  by code_simp

lemma i386_parts:
  "i386_fifo_empty = serial_is_transmit_fifo_empty" "i386_wait = wait_transmit"
proof -
  show e: "i386_fifo_empty = serial_is_transmit_fifo_empty"
    by (intro ext) (simp add: i386_fifo_empty_def serial_is_transmit_fifo_empty_def)
  have there: "wait_transmit dev com p = Some q" if "i386_wait dev com p = Some q" for dev com p q
  proof (rule i386_wait.raw_induct [OF _ that], goal_cases)
    case (1 wait dev com p q)
    then show ?case by (subst wait_transmit.simps) (auto simp: e Let_def split: prod.splits if_splits)
  qed
  have here: "i386_wait dev com p = Some q" if "wait_transmit dev com p = Some q" for dev com p q
  proof (rule wait_transmit.raw_induct [OF _ that], goal_cases)
    case (1 wait dev com p q)
    then show ?case by (subst i386_wait.simps) (auto simp: e Let_def split: prod.splits if_splits)
  qed
  show "i386_wait = wait_transmit"
  proof (intro ext)
    fix dev com p
    show "i386_wait dev com p = wait_transmit dev com p"
      using there [of dev com p] here [of dev com p] by (metis not_None_eq)
  qed
qed

text \<open>
  The serial drivers of the two architectures access the ports identically: the i386 copy
  initialises the port with the same accesses, and writes a string with the same accesses and
  the same outcome, whatever the device answers.
\<close>

theorem i386_serial_agrees:
  "i386_serial_initialize com (io s) = io (serial_initialize com s) \<and>
   i386_serial_write dev buf com p = serial_write dev buf com p"
proof
  show "i386_serial_initialize com (io s) = io (serial_initialize com s)"
    by (simp add: serial_initialize_def i386_serial_initialize_def Let_def serial_configure_baud_rate_def
      i386_serial_configure_baud_rate_def serial_configure_fifo_def serial_configure_line_def
      serial_configure_modem_def i386_serial_configure_line_def i386_serial_configure_fifo_def
      i386_serial_configure_modem_def)
  show "i386_serial_write dev buf com p = serial_write dev buf com p"
    by (induction dev buf com p rule: serial_write.induct) (auto simp: i386_parts split: option.split)
qed

end
