(* ===== verification/Stdio.thy ===== *)
theory Stdio
  imports Printf_Render
begin

text \<open>
  The small stdio and stdlib functions on top of printf (libc/stdio/puts.c,
  libc/stdio/putchar.c, libc/stdlib/abort.c, in their kernel configuration), and what printf
  does with strings, with literal text and with malformed formats.  The terminal's write of one
  character is a parameter.
\<close>

section \<open>Operations\<close>

text \<open>putchar passes its argument on as a char; it returns the argument.\<close>

definition putchar :: "(u8 \<Rightarrow> 's \<Rightarrow> 's) \<Rightarrow> u32 \<Rightarrow> 's \<Rightarrow> u32 \<times> 's" where
  "putchar terminal_write_char ic s = (ic, terminal_write_char (ucast ic) s)"

text \<open>What printf's \<open>_out_char\<close> calls: the char is promoted to int (sign-extended).\<close>

definition putchar_char :: "(u8 \<Rightarrow> 's \<Rightarrow> 's) \<Rightarrow> u8 \<Rightarrow> 's \<Rightarrow> 's" where
  "putchar_char terminal_write_char c s = snd (putchar terminal_write_char (scast c) s)"

definition puts :: "(u8 \<Rightarrow> 's \<Rightarrow> 's) \<Rightarrow> u8 list \<Rightarrow> 's \<Rightarrow> (u32 \<times> 's) outcome" where
  "puts twc string s = printf (putchar_char twc) (lit ''%s\<newline>'') [Str string] s"

definition abort :: "(u8 \<Rightarrow> 's \<Rightarrow> 's) \<Rightarrow> 's \<Rightarrow> (u32 \<times> 's) outcome" where
  "abort twc s = rbind (printf (putchar_char twc) (lit ''kernel: panic: abort()\<newline>'') [] s) (\<lambda>_. Inl Halts)"

lemma putchar_char_id: "putchar_char twc c s = twc c s"
proof -
  have "ucast (scast c :: u32) = c" by (rule bit_word_eqI) (auto simp: bit_ucast_iff bit_signed_iff)
  then show ?thesis by (simp add: putchar_char_def putchar_def)
qed

section \<open>Literal text\<close>

lemma render_plain:
  "\<forall>c\<in>set cs. c \<noteq> 0 \<and> c \<noteq> 0x25 \<Longrightarrow> render (cs @ fmt) va = rbind (render fmt va) (\<lambda>t. Inr (cs @ t))"
proof (induction cs)
  case Nil
  then show ?case by (cases "render fmt va") simp_all
next
  case (Cons c cs)
  then show ?case by (cases "render fmt va") simp_all
qed

lemma filter_nonzero: "0 \<notin> set t \<Longrightarrow> filter (\<lambda>c. c \<noteq> 0) t = (t :: u8 list)"
  by (rule filter_True) auto

lemma printf_plain:
  assumes "\<forall>c\<in>set cs. c \<noteq> 0 \<and> c \<noteq> 0x25"
  shows "printf pc (cs @ [0]) va s = Inr (ucast (of_nat (length cs) :: u64), fold pc cs s)"
  using render_plain [OF assms, of "[0]" va] assms by (auto simp: printf_render filter_nonzero)

text \<open>
  A format that ends in a lone percent sign makes printf read past its terminator: after
  any text without percent signs, the directive takes the NUL as its specifier and the
  interpreter goes on behind it.
\<close>

theorem printf_trailing_percent:
  assumes "\<forall>c\<in>set cs. c \<noteq> 0 \<and> c \<noteq> 0x25"
  shows "printf putc_fn (cs @ [0x25, 0]) va s = Inl Read_Past_End"
proof -
  have "parse_spec [0] va = Inr (0, 0, 0, [0], va)" by (rule parse_spec_plain) (simp_all add: is_digit_def)
  then have "directive_text [0] va = Inr ([], va, [0])"
    by (simp add: directive_text_def convert_text_def is_int_spec_def)
  then have "render [0x25, 0] va = Inl Read_Past_End" by simp
  with render_plain [OF assms, of "[0x25, 0]" va] show ?thesis by (simp add: printf_render)
qed

theorem printf_trailing_percent_witness:
  "printf (\<lambda>c s. s @ [c]) (lit ''100%'') [] [] = Inl Read_Past_End"
  using printf_trailing_percent [of "bytes_of ''100''" "\<lambda>c s. s @ [c]" "[]" "[]"]
  by (simp add: lit_def bytes_of_def of_char_def)

section \<open>Strings\<close>

lemma strnlen_loop_string:
  "0 \<notin> set str \<Longrightarrow> \<exists>k. strnlen_loop (str @ 0 # r) maxsize n = Inr k"
  by (induction str arbitrary: maxsize n) auto

lemma string_text_whole: "0 \<notin> set str \<Longrightarrow> string_text (str @ 0 # r) 0 precision = Inr str"
  by (induction str arbitrary: precision) auto

lemma directive_string:
  assumes "0 \<notin> set str"
  shows "directive_text (0x73 # fmt) (Str (str @ 0 # r) # va) = Inr (fmt, va, str)"
proof -
  have ps: "parse_spec (0x73 # fmt) va = Inr (0, 0, 0, 0x73 # fmt, va)" for va
    by (rule parse_spec_plain) (simp_all add: is_digit_def)
  obtain k where k: "strnlen_loop (str @ 0 # r) (- 1) 0 = Inr k" using strnlen_loop_string [OF assms] by blast
  have "convert_text 0x73 0 0 0 (Str (str @ 0 # r) # va) = Inr (va, str)"
    using assms by (simp add: convert_text_def is_int_spec_def strnlen_s_def k string_text_whole pad_text_def)
  then show ?thesis by (simp add: directive_text_def ps)
qed

text \<open>
  puts prints the string up to its NUL and a newline, one character after the other, and
  returns the number of characters.
\<close>

theorem puts_prints_string:
  assumes "0 \<notin> set str"
  shows "puts twc (str @ 0 # r) s =
    Inr (ucast (of_nat (Suc (length str)) :: u64), fold twc (str @ [0x0A]) s)"
proof -
  have l: "lit ''%s\<newline>'' = [0x25, 0x73, 0x0A, 0]" by (simp add: lit_def bytes_of_def of_char_def)
  have "render (lit ''%s\<newline>'') [Str (str @ 0 # r)] = Inr (str @ [0x0A])"
    unfolding l by (simp add: directive_string [OF assms])
  moreover have "putchar_char twc = twc" by (simp add: fun_eq_iff putchar_char_id)
  ultimately show ?thesis using assms by (simp add: puts_def printf_render filter_nonzero)
qed

theorem puts_prints_string_witness:
  "puts (\<lambda>c s. s @ [c]) (lit ''ok'') [] = Inr (3, bytes_of ''ok\<newline>'')"
  using puts_prints_string [of "bytes_of ''ok''" "\<lambda>c s. s @ [c]" "[]" "[]"]
  by (simp add: lit_def bytes_of_def of_char_def)

text \<open>
  A string directive with a precision reads one character more than the precision allows:
  for an array of n characters without a NUL and precision n (which the standard permits), the
  conversion reads behind the array.
\<close>

theorem string_precision_overread:
  assumes "0 \<notin> set p" "has flags FLAGS_PRECISION" "unat precision = length p"
  shows "conv_string out buffer maxlen flags width precision (Str p # va) w = Inl Read_Past_End"
proof -
  have "strnlen_loop p m n = Inl Read_Past_End" if "unat m \<ge> length p" for m n
    using that assms(1)
  proof (induction p arbitrary: m n)
    case (Cons c p)
    then have "m \<noteq> 0" by auto
    then have "unat (m - 1) = unat m - 1" by (rule unat_minus_one)
    with Cons \<open>m \<noteq> 0\<close> show ?case by simp
  qed simp
  moreover have "unat (if precision \<noteq> 0 then ucast precision else - 1 :: u64) \<ge> length p"
    using assms(3) by (cases "precision = 0") simp_all
  ultimately show ?thesis by (simp add: conv_string_def strnlen_s_def)
qed

theorem string_precision_overread_witness:
  "conv_string out_buffer 0 100 FLAGS_PRECISION 0 3 [Str (bytes_of ''abc'')] (0, (\<lambda>_. 0)) = Inl Read_Past_End"
  by (rule string_precision_overread) (simp_all add: bytes_of_def of_char_def has_def flag_defs)

end
