(* ===== verification/Ssfn.thy ===== *)
theory Ssfn
  imports Mem_Words
begin

text \<open>
  The console renderer of kernel/include/kernel/ssfn.h as the kernel compiles it
  (SSFN_CONSOLEBITMAP_TRUECOLOR, no SSFN_CONSOLEBITMAP_CONTROL): the font header, the frame
  buffer descriptor, ssfn_utf8 and ssfn_putc.

  The font is an object of its own that nothing writes: a function from offsets to bytes.  The
  frame buffer is in the memory, four bytes a pixel.  A C int is an \<open>int\<close>; no int of
  the renderer leaves 32 bits as long as the pen is within 2^31 - 2^17 of the origin.

  \<open>screen\<close> abstracts the memory to a picture, a map from coordinates to colours.
\<close>

section \<open>Data\<close>

type_synonym font = "u64 \<Rightarrow> u8"

record ssfn_font_t =
  magic :: "u8 list"
  font_size :: u32
  font_type :: u8
  font_features :: u8
  font_width :: u8
  font_height :: u8
  baseline :: u8
  underline :: u8
  fragments_offs :: u16
  characters_offs :: u32
  ligature_offs :: u32
  kerning_offs :: u32
  cmap_offs :: u32

text \<open>The packed structure at the start of the font.\<close>

definition ssfn_header :: "font \<Rightarrow> ssfn_font_t" where
  "ssfn_header f = \<lparr>magic = bytes_at f 0 4, font_size = load32 f 4, font_type = f 8, font_features = f 9,
     font_width = f 10, font_height = f 11, baseline = f 12, underline = f 13,
     fragments_offs = ucast (load_le f 14 2), characters_offs = load32 f 16, ligature_offs = load32 f 20,
     kerning_offs = load32 f 24, cmap_offs = load32 f 28\<rparr>"

record ssfn_buf_t =
  dst_ptr :: u64
  dst_w :: int
  dst_h :: int
  dst_p :: u16
  dst_x :: int
  dst_y :: int
  dst_fg :: u32
  dst_bg :: u32

definition SSFN_OK :: int where "SSFN_OK = 0"
definition SSFN_ERR_INVINP :: int where "SSFN_ERR_INVINP = - 4"
definition SSFN_ERR_NOGLYPH :: int where "SSFN_ERR_NOGLYPH = - 7"

section \<open>UTF-8\<close>

text \<open>ssfn_utf8 of the string at s: the code point and the advanced pointer.\<close>

definition ssfn_utf8 :: "mem \<Rightarrow> u64 \<Rightarrow> u32 \<times> u64" where
  "ssfn_utf8 m s =
     (let b = (\<lambda>i. ucast (m (s + i)) :: u32) in
      if m s AND 128 \<noteq> 0 then
        if m s AND 32 = 0 then
          (push_bit 6 (b 0 AND 0x1F) OR (b 1 AND 0x3F), s + 1 + 1)
        else if m s AND 16 = 0 then
          (push_bit 12 (b 0 AND 0xF) OR push_bit 6 (b 1 AND 0x3F) OR (b 2 AND 0x3F), s + 2 + 1)
        else if m s AND 8 = 0 then
          (push_bit 18 (b 0 AND 0x7) OR push_bit 12 (b 1 AND 0x3F) OR push_bit 6 (b 2 AND 0x3F) OR (b 3 AND 0x3F), s + 3 + 1)
        else (0, s + 1)
      else (ucast (m s), s + 1))"

section \<open>Finding a glyph\<close>

text \<open>
  The character table is a run-length encoding of the code points from 0 up: a byte 0xFF
  skips 65536 of them, two bytes from 0xC000 and one byte from 0x80 skip fewer, and any other
  byte starts the description of one glyph.
\<close>

lemma gap_nonneg: "- 1 < uint (a :: 'a::len word)" "- uint (a :: 'a::len word) - uint (b :: 'b::len word) * 256 < 1"
proof -
  have "0 \<le> uint a" "0 \<le> uint b" by simp_all
  then show "- 1 < uint a" "- uint a - uint b * 256 < 1" by linarith+
qed

function find_chr :: "font \<Rightarrow> u32 \<Rightarrow> u64 \<Rightarrow> int \<Rightarrow> u64 option" where
  "find_chr f unicode ptr i =
     (if i < 0x110000 then
        if f ptr = 0xFF then find_chr f unicode (ptr + 1) (i + 65535 + 1)
        else if f ptr AND 0xC0 = 0xC0 then
          find_chr f unicode (ptr + 2) (i + int (unat (f ptr AND 0x3F) * 256 + unat (f (ptr + 1))) + 1)
        else if f ptr AND 0xC0 = 0x80 then find_chr f unicode (ptr + 1) (i + int (unat (f ptr AND 0x3F)) + 1)
        else if word_of_int i = unicode then Some ptr
        else find_chr f unicode (ptr + 6 + ucast (f (ptr + 1)) * (if f ptr AND 0x40 \<noteq> 0 then 6 else 5)) (i + 1)
      else None)"
  by pat_completeness auto
termination
  by (relation "measure (\<lambda>(f, unicode, ptr, i). nat (0x110000 - i))") (auto simp: gap_nonneg)

declare find_chr.simps [simp del]

section \<open>Painting\<close>

text \<open>One line of background: \<open>for (p = o, j = 0; j < chr[2] && (!w || x + j < w); j++, p++)\<close>.\<close>

function fill_row :: "mem \<Rightarrow> u64 \<Rightarrow> u32 \<Rightarrow> int \<Rightarrow> int \<Rightarrow> int \<Rightarrow> int \<Rightarrow> mem" where
  "fill_row m p bg x w n j =
     (if j < n \<and> (w = 0 \<or> x + j < w) then fill_row (store32 m p bg) (p + 4) bg x w n (j + 1) else m)"
  by pat_completeness auto
termination by (relation "measure (\<lambda>(m, p, bg, x, w, n, j). nat (n - j))") auto

text \<open>The lines of background from y up to a limit; s is the distance of lines in pixels.\<close>

function fill_rows :: "ssfn_buf_t \<Rightarrow> int \<Rightarrow> int \<Rightarrow> int \<Rightarrow> int \<Rightarrow> int \<Rightarrow> u64 \<Rightarrow> mem \<Rightarrow> int \<times> u64 \<times> mem" where
  "fill_rows d w s n limit y pos m =
     (if y < limit \<and> (dst_h d = 0 \<or> dst_y d + y < dst_h d)
      then fill_rows d w s n limit (y + 1) (pos + word_of_int (4 * s)) (fill_row m pos (dst_bg d) (dst_x d) w n 0)
      else (y, pos, m))"
  by pat_completeness auto
termination by (relation "measure (\<lambda>(d, w, s, n, limit, y, pos, m). nat (limit - y))") auto

text \<open>One line of a bitmap fragment; the mask m and the pointer frg go on over the lines.\<close>

function draw_row ::
  "font \<Rightarrow> ssfn_buf_t \<Rightarrow> int \<Rightarrow> int \<Rightarrow> int \<Rightarrow> u64 \<Rightarrow> u64 \<Rightarrow> u32 \<Rightarrow> mem \<Rightarrow> u64 \<times> u32 \<times> mem" where
  "draw_row f d w k l p frg msk m =
     (if l < k then
        let frg' = (if msk > 0x80 then frg + 1 else frg);
            msk' = (if msk > 0x80 then 1 else msk);
            m' = (if dst_x d + l \<ge> 0 \<and> (w = 0 \<or> dst_x d + l < w) then
                    if ucast (f frg') AND msk' \<noteq> 0 then store32 m p (dst_fg d)
                    else if dst_bg d \<noteq> 0 then store32 m p (dst_bg d) else m
                  else m)
        in draw_row f d w k (l + 1) (p + 4) frg' (push_bit 1 msk') m'
      else (frg, msk, m))"
  by pat_completeness auto
termination by (relation "measure (\<lambda>(f, d, w, k, l, p, frg, msk, m). nat (k - l))") auto

function draw_rows ::
  "font \<Rightarrow> ssfn_buf_t \<Rightarrow> int \<Rightarrow> int \<Rightarrow> int \<Rightarrow> nat \<Rightarrow> int \<Rightarrow> u64 \<Rightarrow> u64 \<Rightarrow> u32 \<Rightarrow> mem \<Rightarrow> int \<times> u64 \<times> mem" where
  "draw_rows f d w s k j y pos frg msk m =
     (if j \<noteq> 0 \<and> (dst_h d = 0 \<or> dst_y d + y < dst_h d) then
        let (frg', msk', m') = draw_row f d w k 0 pos frg msk m
        in draw_rows f d w s k (j - 1) (y + 1) (pos + word_of_int (4 * s)) frg' msk' m'
      else (y, pos, m))"
  by pat_completeness auto
termination by (relation "measure (\<lambda>(f, d, w, s, k, j, y, pos, frg, msk, m). j)") auto

declare fill_row.simps [simp del] fill_rows.simps [simp del] draw_row.simps [simp del] draw_rows.simps [simp del]


text \<open>The fragments of a glyph, from the descriptor at ptr on.\<close>

definition frag_offset :: "font \<Rightarrow> u64 \<Rightarrow> u64 \<Rightarrow> u64" where
  "frag_offset f chr ptr =
     (let b = (\<lambda>i. ucast (f (ptr + i)) :: u32) in
      if f chr AND 0x40 \<noteq> 0
      then scast (push_bit 24 (b 5) OR push_bit 16 (b 4) OR push_bit 8 (b 3) OR b 2)
      else scast (push_bit 16 (b 4) OR push_bit 8 (b 3) OR b 2))"

function draw_frags ::
  "font \<Rightarrow> ssfn_buf_t \<Rightarrow> int \<Rightarrow> int \<Rightarrow> u64 \<Rightarrow> nat \<Rightarrow> u64 \<Rightarrow> int \<Rightarrow> u64 \<Rightarrow> mem \<Rightarrow> int \<times> u64 \<times> mem" where
  "draw_frags f d w s chr i ptr y pos m =
     (if i < unat (f (chr + 1)) then
        let next = ptr + (if f chr AND 0x40 \<noteq> 0 then 6 else 5);
            frg = frag_offset f chr ptr
        in
        if f ptr = 255 \<and> f (ptr + 1) = 255 then draw_frags f d w s chr (Suc i) next y pos m
        else if f frg AND 0xE0 \<noteq> 0x80 then draw_frags f d w s chr (Suc i) next y pos m
        else
          let fy = uint (f (ptr + 1));
              (y1, pos1, m1) =
                (if dst_bg d \<noteq> 0 then fill_rows d w s (uint (f (chr + 2))) fy y pos m
                 else (fy, pos + word_of_int (4 * ((fy - y) * s)), m));
              k = (uint (f frg AND 0x1F) + 1) * 8;
              j = unat (f (frg + 1)) + 1;
              (y2, pos2, m2) = draw_rows f d w s k j y1 pos1 (frg + 2) 1 m1
          in draw_frags f d w s chr (Suc i) next y2 pos2 m2
      else (y, pos, m))"
  by pat_completeness auto
termination by (relation "measure (\<lambda>(f, d, w, s, chr, i, ptr, y, pos, m). unat (f (chr + 1)) - i)") auto

declare draw_frags.simps [simp del]

section \<open>ssfn_putc\<close>

text \<open>The font pointer ssfn_src is None for NULL.\<close>

definition ssfn_putc :: "u32 \<Rightarrow> font option \<Rightarrow> ssfn_buf_t \<times> mem \<Rightarrow> int \<times> ssfn_buf_t \<times> mem" where
  "ssfn_putc unicode ssfn_src s =
     (let (d, m) = s in
      case ssfn_src of
        None \<Rightarrow> (SSFN_ERR_INVINP, d, m)
      | Some f \<Rightarrow>
          if f 0 \<noteq> 0x53 \<or> f 1 \<noteq> 0x46 \<or> f 2 \<noteq> 0x4E \<or> f 3 \<noteq> 0x32 \<or> dst_ptr d = 0 \<or> dst_p d = 0
          then (SSFN_ERR_INVINP, d, m)
          else
            let w = (if dst_w d < 0 then - dst_w d else dst_w d);
                st = int (unat (dst_p d) div 4)
            in case find_chr f unicode (ucast (characters_offs (ssfn_header f))) 0 of
                 None \<Rightarrow> (SSFN_ERR_NOGLYPH, d, m)
               | Some chr \<Rightarrow>
                   let pos = dst_ptr d + word_of_int (dst_y d * uint (dst_p d) + 4 * dst_x d);
                       (y, pos', m') = draw_frags f d w st chr 0 (chr + 6) 0 pos m;
                       m'' = (if dst_bg d \<noteq> 0
                              then snd (snd (fill_rows d w st (uint (f (chr + 2))) (uint (f (chr + 3))) y pos' m'))
                              else m')
                   in (SSFN_OK,
                       d\<lparr>dst_x := dst_x d + uint (f (chr + 4)), dst_y := dst_y d + uint (f (chr + 5))\<rparr>, m''))"

end
