(* ===== verification/Ssfn_Screen.thy ===== *)
theory Ssfn_Screen
  imports Ssfn
begin

text \<open>
  The frame buffer as a picture, and what ssfn_putc paints: every store it makes is a pixel of
  the screen, and without a background colour the new picture is the old one with the set
  bits of the glyph's fragments in the foreground colour.
\<close>

section \<open>The picture in memory\<close>

definition pixel :: "ssfn_buf_t \<Rightarrow> int \<Rightarrow> int \<Rightarrow> u64" where
  "pixel d cx cy = dst_ptr d + word_of_int (cy * uint (dst_p d) + 4 * cx)"

definition on_screen :: "ssfn_buf_t \<Rightarrow> int \<Rightarrow> int \<Rightarrow> bool" where
  "on_screen d cx cy \<longleftrightarrow> 0 \<le> cx \<and> cx < dst_w d \<and> 0 \<le> cy \<and> cy < dst_h d"

definition screen :: "ssfn_buf_t \<Rightarrow> mem \<Rightarrow> int \<times> int \<rightharpoonup> u32" where
  "screen d m = (\<lambda>(cx, cy). if on_screen d cx cy then Some (load32 m (pixel d cx cy)) else None)"

definition screen_bytes :: "ssfn_buf_t \<Rightarrow> u64 set" where
  "screen_bytes d = {a. \<exists>cx cy. on_screen d cx cy \<and> in_region a (pixel d cx cy) 4}"

text \<open>A line holds a whole number of pixels and is as long as the screen is wide, and the screen fits the address space.\<close>

definition geometry_ok :: "ssfn_buf_t \<Rightarrow> bool" where
  "geometry_ok d \<longleftrightarrow> 0 < dst_w d \<and> 0 < dst_h d \<and> 4 * dst_w d \<le> uint (dst_p d) \<and> 4 dvd uint (dst_p d) \<and>
     dst_h d * uint (dst_p d) \<le> 2 ^ 64"

text \<open>The memory m' is m with some pixels painted.\<close>

definition paints :: "ssfn_buf_t \<Rightarrow> (int \<times> int \<rightharpoonup> u32) \<Rightarrow> mem \<Rightarrow> mem \<Rightarrow> bool" where
  "paints d upd m m' \<longleftrightarrow> screen d m' = screen d m ++ upd \<and> (\<forall>a. a \<notin> screen_bytes d \<longrightarrow> m' a = m a)"

lemma paints_refl [simp]: "paints d Map.empty m m"
  by (simp add: paints_def)

lemma paints_trans: "paints d u m m' \<Longrightarrow> paints d u' m' m'' \<Longrightarrow> paints d (u ++ u') m m''"
  by (simp add: paints_def)

lemma load32_store32_apart:
  assumes "\<And>i j. i < 4 \<Longrightarrow> j < 4 \<Longrightarrow> a + of_nat i \<noteq> b + of_nat j"
  shows "load32 (store32 m b v) a = load32 m a"
proof -
  have "store32 m b v (a + of_nat i) = m (a + of_nat i)" if "i < 4" for i
  proof -
    have "\<not> in_region (a + of_nat i) b 4"
    proof
      assume "in_region (a + of_nat i) b 4"
      then have "unat (a + of_nat i - b) < 4" by (simp add: in_region_def)
      moreover have "a + of_nat i = b + of_nat (unat (a + of_nat i - b))" by (metis add_offset_eq_iff unat_u64_lt)
      ultimately show False using assms [OF that] by blast
    qed
    then show ?thesis by (simp add: store32_def store_le_outside)
  qed
  then show ?thesis
    by (intro bit_word_eqI) (simp add: bit_load32 less_mult_imp_div_less)
qed

text \<open>Different pixels of the screen share no byte.\<close>

lemma pixel_offset:
  assumes "geometry_ok d" "on_screen d cx cy" "0 \<le> i" "i < 4"
  shows "0 \<le> cy * uint (dst_p d) + 4 * cx + i \<and> cy * uint (dst_p d) + 4 * cx + i < 2 ^ 64"
proof -
  have p: "0 \<le> uint (dst_p d)" by simp
  have "(cy + 1) * uint (dst_p d) \<le> dst_h d * uint (dst_p d)"
    using assms(2) p by (intro mult_right_mono) (simp_all add: on_screen_def)
  then show ?thesis using assms p by (auto simp: geometry_ok_def on_screen_def algebra_simps)
qed

lemma pixel_bytes_distinct:
  assumes "geometry_ok d" "on_screen d cx cy" "on_screen d cx' cy'" "i < 4" "j < 4"
    and eq: "pixel d cx cy + of_nat i = pixel d cx' cy' + of_nat j"
  shows "cx = cx' \<and> cy = cy'"
proof -
  let ?p = "uint (dst_p d)"
  let ?a = "cy * ?p + 4 * cx + int i" and ?b = "cy' * ?p + 4 * cx' + int j"
  have "(word_of_int ?a :: u64) = word_of_int ?b"
    using eq by (simp add: pixel_def algebra_simps)
  then have "take_bit 64 ?a = take_bit 64 ?b" unfolding word_of_int_eq_iff by simp
  moreover have "0 \<le> ?a" "?a < 2 ^ 64" "0 \<le> ?b" "?b < 2 ^ 64"
    using pixel_offset [OF assms(1,2), of "int i"] pixel_offset [OF assms(1,3), of "int j"] assms(4,5) by auto
  ultimately have e: "?a = ?b" by (metis take_bit_int_eq_self)
  have xs: "0 \<le> 4 * cx + int i" "4 * cx + int i < ?p" "0 \<le> 4 * cx' + int j" "4 * cx' + int j < ?p"
    using assms by (auto simp: geometry_ok_def on_screen_def)
  have q: "(c * ?p + r) div ?p = c" if "0 \<le> r" "r < ?p" for c r
    using that by (simp add: div_pos_pos_trivial)
  have "cy = ?a div ?p" "cy' = ?b div ?p" using q [OF xs(1,2)] q [OF xs(3,4)] by (simp_all only: add.assoc)
  with e have "cy = cy'" by simp
  with e assms(4,5) show ?thesis by auto
qed

lemma store_pixel:
  assumes "geometry_ok d" "on_screen d cx cy"
  shows "paints d [(cx, cy) \<mapsto> c] m (store32 m (pixel d cx cy) c)"
  unfolding paints_def
proof
  show "screen d (store32 m (pixel d cx cy) c) = screen d m ++ [(cx, cy) \<mapsto> c]"
  proof (rule ext)
    fix q
    show "screen d (store32 m (pixel d cx cy) c) q = (screen d m ++ [(cx, cy) \<mapsto> c]) q"
    proof (cases "q = (cx, cy) \<or> \<not> on_screen d (fst q) (snd q)")
      case True
      then show ?thesis using assms(2) by (auto simp: screen_def split: prod.splits)
    next
      case False
      then have "load32 (store32 m (pixel d cx cy) c) (pixel d (fst q) (snd q)) = load32 m (pixel d (fst q) (snd q))"
        using pixel_bytes_distinct [OF assms(1) _ assms(2)] by (intro load32_store32_apart) (metis prod.collapse)
      then show ?thesis using False by (auto simp: screen_def split: prod.splits)
    qed
  qed
  show "\<forall>a. a \<notin> screen_bytes d \<longrightarrow> store32 m (pixel d cx cy) c a = m a"
    using assms(2) by (auto simp: screen_bytes_def store32_def intro!: store_le_outside)
qed

lemma pixel_next: "pixel d cx cy + 4 = pixel d (cx + 1) cy"
  by (simp add: pixel_def algebra_simps)

lemma pixel_below:
  assumes "geometry_ok d"
  shows "pixel d cx cy + word_of_int (4 * (n * int (unat (dst_p d) div 4))) = pixel d cx (cy + n)"
proof -
  let ?p = "uint (dst_p d)" and ?s = "int (unat (dst_p d) div 4)"
  have "4 * ?s = ?p" using assms by (simp add: geometry_ok_def zdiv_int)
  then have "4 * (n * ?s) = n * ?p" by (metis mult.left_commute)
  then have "pixel d cx cy + word_of_int (4 * (n * ?s)) = pixel d cx cy + word_of_int (n * ?p)" by (simp only:)
  also have "\<dots> = pixel d cx (cy + n)" by (simp add: pixel_def algebra_simps)
  finally show ?thesis .
qed


section \<open>Bitmap fragments\<close>

text \<open>Bit q of the bitmap at frg, the first bit of a byte being its lowest.\<close>

definition frag_bit :: "font \<Rightarrow> u64 \<Rightarrow> nat \<Rightarrow> bool" where
  "frag_bit f frg q = bit (f (frg + of_nat (q div 8))) (q mod 8)"

text \<open>The pointer and the mask of the loops once q bits are done.\<close>

definition bit_cursor :: "u64 \<Rightarrow> nat \<Rightarrow> u64 \<times> u32" where
  "bit_cursor frg q = (if q = 0 then (frg, 1) else (frg + of_nat ((q - 1) div 8), push_bit ((q - 1) mod 8 + 1) 1))"

lemma mask_bit: "n < 8 \<Longrightarrow> ucast (b :: u8) AND (push_bit n 1 :: u32) \<noteq> 0 \<longleftrightarrow> bit b n"
proof -
  assume n: "n < 8"
  have "ucast b AND (push_bit n 1 :: u32) = (if bit (ucast b :: u32) n then push_bit n 1 else 0)"
    by (simp add: push_bit_of_1 and_exp_eq_0_iff_not_bit flip: take_bit_eq_mask)
      (metis and.commute and_exp_eq_0_iff_not_bit bit_eq_iff bit_and_iff bit_exp_iff)
  moreover have "(push_bit n 1 :: u32) \<noteq> 0" using n by (simp add: push_bit_of_1 flip: word_unat_eq_iff)
  ultimately show ?thesis using n by (simp add: bit_ucast_iff)
qed


lemma small_mask: "n < 7 \<Longrightarrow> (push_bit (n + 1) 1 :: u32) \<le> 0x80"
proof -
  assume "n < 7"
  then have "n \<in> set [0, 1, 2, 3, 4, 5, 6]" by (simp, presburger)
  then show ?thesis by (auto simp: push_bit_of_1)
qed

lemma cursor_here:
  assumes "bit_cursor frg q = (a, msk)"
  shows "(if msk > 0x80 then a + 1 else a) = frg + of_nat (q div 8)"
    and "(if msk > 0x80 then 1 else msk) = push_bit (q mod 8) 1"
proof -
  have "(if msk > 0x80 then a + 1 else a) = frg + of_nat (q div 8) \<and> (if msk > 0x80 then 1 else msk) = push_bit (q mod 8) 1"
  proof (cases q)
    case 0
    then show ?thesis using assms by (auto simp: bit_cursor_def)
  next
    case (Suc r)
    have ams: "a = frg + of_nat (r div 8)" "msk = push_bit (r mod 8 + 1) 1" using assms Suc by (auto simp: bit_cursor_def)
    show ?thesis
    proof (cases "r mod 8 = 7")
      case True
      then have "q div 8 = r div 8 + 1" "q mod 8 = 0" using Suc by presburger+
      moreover have "msk = 0x100" using ams(2) True by (simp add: push_bit_of_1)
      ultimately show ?thesis using ams(1) by simp
    next
      case False
      then have "q div 8 = r div 8" "q mod 8 = r mod 8 + 1" using Suc by presburger+
      moreover have "r mod 8 < 7" using False mod_less_divisor [of 8 r] by linarith
      then have "\<not> msk > 0x80" using ams(2) small_mask by (simp add: not_less)
      ultimately show ?thesis using ams by simp
    qed
  qed
  then show "(if msk > 0x80 then a + 1 else a) = frg + of_nat (q div 8)"
    "(if msk > 0x80 then 1 else msk) = push_bit (q mod 8) 1" by blast+
qed

lemma cursor_next: "bit_cursor frg (Suc q) = (frg + of_nat (q div 8), push_bit 1 (push_bit (q mod 8) 1))"
  by (simp add: bit_cursor_def)

definition row_upd :: "font \<Rightarrow> ssfn_buf_t \<Rightarrow> u64 \<Rightarrow> nat \<Rightarrow> int \<Rightarrow> int \<Rightarrow> int \<Rightarrow> int \<times> int \<rightharpoonup> u32" where
  "row_upd f d frg q l k cy0 = (\<lambda>(cx, cy).
     if cy = cy0 \<and> l \<le> cx - dst_x d \<and> cx - dst_x d < k \<and> on_screen d cx cy then
       if frag_bit f frg (q + nat (cx - dst_x d - l)) then Some (dst_fg d)
       else if dst_bg d \<noteq> 0 then Some (dst_bg d) else None
     else None)"

lemma row_upd_step:
  assumes "l < k"
  shows "row_upd f d frg q l k cy0 =
    (if on_screen d (dst_x d + l) cy0 then
       (if frag_bit f frg q then [(dst_x d + l, cy0) \<mapsto> dst_fg d]
        else if dst_bg d \<noteq> 0 then [(dst_x d + l, cy0) \<mapsto> dst_bg d] else Map.empty)
     else Map.empty) ++ row_upd f d frg (Suc q) (l + 1) k cy0"
proof (rule ext, clarify)
  fix cx cy
  consider "cx = dst_x d + l" "cy = cy0" | "cx - dst_x d > l" | "cx - dst_x d < l" | "cy \<noteq> cy0" by linarith
  then show "row_upd f d frg q l k cy0 (cx, cy) = ((if on_screen d (dst_x d + l) cy0 then
       (if frag_bit f frg q then [(dst_x d + l, cy0) \<mapsto> dst_fg d]
        else if dst_bg d \<noteq> 0 then [(dst_x d + l, cy0) \<mapsto> dst_bg d] else Map.empty)
     else Map.empty) ++ row_upd f d frg (Suc q) (l + 1) k cy0) (cx, cy)"
  proof cases
    case 2
    then have "q + nat (cx - dst_x d - l) = Suc q + nat (cx - dst_x d - (l + 1))" by simp
    with 2 show ?thesis by (auto simp: row_upd_def map_add_def split: option.split)
  qed (use assms in \<open>auto simp: row_upd_def map_add_def split: option.split\<close>)
qed

lemma draw_row_paints:
  assumes g: "geometry_ok d" and cy: "0 \<le> cy" "cy < dst_h d"
  shows "l \<le> k \<Longrightarrow> bit_cursor frg q = (a, msk) \<Longrightarrow>
    \<exists>m'. draw_row f d (dst_w d) k l (pixel d (dst_x d + l) cy) a msk m =
        (fst (bit_cursor frg (q + nat (k - l))), snd (bit_cursor frg (q + nat (k - l))), m') \<and>
      paints d (row_upd f d frg q l k cy) m m'"
proof (induction "nat (k - l)" arbitrary: l q a msk m)
  case 0
  then have "row_upd f d frg q l k cy = Map.empty" by (auto simp: row_upd_def fun_eq_iff)
  with 0 show ?case by (simp add: draw_row.simps)
next
  case (Suc n)
  let ?a = "frg + of_nat (q div 8)" and ?k = "push_bit (q mod 8) 1 :: u32"
  let ?on = "on_screen d (dst_x d + l) cy"
  let ?m = "if 0 \<le> dst_x d + l \<and> (dst_w d = 0 \<or> dst_x d + l < dst_w d) then
      if ucast (f ?a) AND ?k \<noteq> 0 then store32 m (pixel d (dst_x d + l) cy) (dst_fg d)
      else if dst_bg d \<noteq> 0 then store32 m (pixel d (dst_x d + l) cy) (dst_bg d) else m
    else m"
  have lk: "l < k" and n: "n = nat (k - (l + 1))" and le: "l + 1 \<le> k" using Suc.hyps(2) by simp_all
  have guard: "(0 \<le> dst_x d + l \<and> (dst_w d = 0 \<or> dst_x d + l < dst_w d)) = ?on"
    using g cy by (auto simp: on_screen_def geometry_ok_def)
  have bit: "(ucast (f ?a) AND ?k \<noteq> 0) = frag_bit f frg q" 
    unfolding frag_bit_def by (rule mask_bit) simp
  have first: "paints d (if ?on then (if frag_bit f frg q then [(dst_x d + l, cy) \<mapsto> dst_fg d]
        else if dst_bg d \<noteq> 0 then [(dst_x d + l, cy) \<mapsto> dst_bg d] else Map.empty) else Map.empty) m ?m"
    unfolding guard bit using store_pixel [OF g] by simp
  obtain m' where m': "draw_row f d (dst_w d) k (l + 1) (pixel d (dst_x d + (l + 1)) cy) ?a (push_bit 1 ?k) ?m =
        (fst (bit_cursor frg (Suc q + nat (k - (l + 1)))), snd (bit_cursor frg (Suc q + nat (k - (l + 1)))), m')"
      "paints d (row_upd f d frg (Suc q) (l + 1) k cy) ?m m'"
    using Suc.hyps(1) [OF n le cursor_next] by blast
  have "draw_row f d (dst_w d) k l (pixel d (dst_x d + l) cy) a msk m =
      draw_row f d (dst_w d) k (l + 1) (pixel d (dst_x d + l) cy + 4) ?a (push_bit 1 ?k) ?m"
    using lk cursor_here [OF Suc.prems(2)] by (subst draw_row.simps) (simp only: Let_def if_True)
  also have "pixel d (dst_x d + l) cy + 4 = pixel d (dst_x d + (l + 1)) cy"
    unfolding pixel_next by (simp only: add.assoc)
  also note m'(1)
  also have "Suc q + nat (k - (l + 1)) = q + nat (k - l)" using lk by simp
  finally show ?case using paints_trans [OF first m'(2)] unfolding row_upd_step [OF lk] by blast
qed

text \<open>All lines of a fragment, from line y of the glyph on.\<close>

definition rows_upd :: "font \<Rightarrow> ssfn_buf_t \<Rightarrow> u64 \<Rightarrow> nat \<Rightarrow> int \<Rightarrow> nat \<Rightarrow> int \<Rightarrow> int \<times> int \<rightharpoonup> u32" where
  "rows_upd f d frg q k j y = (\<lambda>(cx, cy).
     let c = cx - dst_x d; r = cy - dst_y d - y in
     if 0 \<le> c \<and> c < k \<and> 0 \<le> r \<and> r < int j \<and> on_screen d cx cy then
       if frag_bit f frg (q + nat (r * k + c)) then Some (dst_fg d)
       else if dst_bg d \<noteq> 0 then Some (dst_bg d) else None
     else None)"

lemma rows_upd_step:
  assumes k: "0 < k"
  shows "rows_upd f d frg q k (Suc j) y =
    row_upd f d frg q 0 k (dst_y d + y) ++ rows_upd f d frg (q + nat k) k j (y + 1)"
proof (rule ext, clarify)
  fix cx cy
  let ?c = "cx - dst_x d" and ?r = "cy - dst_y d - y"
  consider "?r = 0" | "?r < 0" | "?r > 0" "0 \<le> ?c" | "?c < 0" by linarith
  then show "rows_upd f d frg q k (Suc j) y (cx, cy) =
    (row_upd f d frg q 0 k (dst_y d + y) ++ rows_upd f d frg (q + nat k) k j (y + 1)) (cx, cy)"
  proof cases
    case 1
    then have "cy = dst_y d + y" by simp
    then show ?thesis by (auto simp: rows_upd_def row_upd_def map_add_def Let_def split: option.split)
  next
    case 3
    let ?r1 = "cy - dst_y d - (y + 1)"
    have "?r1 * k + k = ?r * k" by (simp add: algebra_simps)
    moreover have "0 \<le> ?r1 * k" using 3 k by simp
    ultimately have "nat (?r * k + ?c) = nat k + nat (?r1 * k + ?c)"
      using 3 k by (simp add: nat_add_distrib [symmetric])
    then have "q + nat (?r * k + ?c) = q + nat k + nat (?r1 * k + ?c)" by (simp only: add.assoc)
    moreover have "0 \<le> ?r1" "0 \<le> ?r" "?r1 < int j \<longleftrightarrow> ?r < int (Suc j)"
      using 3 by (simp_all only: of_nat_Suc) linarith+
    moreover have "cy \<noteq> dst_y d + y" using 3 by simp
    ultimately show ?thesis using 3(2) unfolding rows_upd_def row_upd_def map_add_def Let_def
      by (simp only: split if_False simp_thms) (simp split: option.split)
  qed (auto simp: rows_upd_def row_upd_def map_add_def Let_def split: option.split)
qed

lemma draw_rows_paints:
  assumes g: "geometry_ok d" and k: "0 < k"
  shows "0 \<le> dst_y d + y \<Longrightarrow> bit_cursor frg q = (a, msk) \<Longrightarrow>
    \<exists>y' m'. draw_rows f d (dst_w d) (int (unat (dst_p d) div 4)) k j y (pixel d (dst_x d) (dst_y d + y)) a msk m =
        (y', pixel d (dst_x d) (dst_y d + y'), m') \<and> y \<le> y' \<and> paints d (rows_upd f d frg q k j y) m m'"
proof (induction j arbitrary: y q a msk m)
  case 0
  have "rows_upd f d frg q k 0 y = Map.empty" by (auto simp: rows_upd_def Let_def)
  then show ?case by (simp add: draw_rows.simps)
next
  case (Suc j)
  let ?s = "int (unat (dst_p d) div 4)"
  show ?case
  proof (cases "dst_y d + y < dst_h d")
    case False
    then have "rows_upd f d frg q k (Suc j) y = Map.empty"
      by (auto simp: rows_upd_def Let_def on_screen_def fun_eq_iff)
    moreover have "dst_h d \<noteq> 0" using g by (simp add: geometry_ok_def)
    ultimately show ?thesis using False by (subst draw_rows.simps) auto
  next
    case True
    obtain m1 where r: "draw_row f d (dst_w d) k 0 (pixel d (dst_x d) (dst_y d + y)) a msk m =
        (fst (bit_cursor frg (q + nat k)), snd (bit_cursor frg (q + nat k)), m1)"
      "paints d (row_upd f d frg q 0 k (dst_y d + y)) m m1"
      using draw_row_paints [OF g Suc.prems(1) True, of 0 k frg q a msk f m] Suc.prems(2) k by auto
    have pos: "pixel d (dst_x d) (dst_y d + y) + word_of_int (4 * ?s) = pixel d (dst_x d) (dst_y d + (y + 1))"
      using pixel_below [OF g, of "dst_x d" "dst_y d + y" 1] by (simp add: add.assoc)
    obtain y' m' where rr: "draw_rows f d (dst_w d) ?s k j (y + 1) (pixel d (dst_x d) (dst_y d + (y + 1)))
        (fst (bit_cursor frg (q + nat k))) (snd (bit_cursor frg (q + nat k))) m1 =
        (y', pixel d (dst_x d) (dst_y d + y'), m')"
      "y + 1 \<le> y'" "paints d (rows_upd f d frg (q + nat k) k j (y + 1)) m1 m'"
      using Suc.IH [of "y + 1" "q + nat k" "fst (bit_cursor frg (q + nat k))" "snd (bit_cursor frg (q + nat k))" m1]
        Suc.prems(1) by auto
    have "draw_rows f d (dst_w d) ?s k (Suc j) y (pixel d (dst_x d) (dst_y d + y)) a msk m =
        (y', pixel d (dst_x d) (dst_y d + y'), m')"
      using True rr(1) by (subst draw_rows.simps) (simp only: r(1) Let_def split pos, simp)
    with rr(2) paints_trans [OF r(2) rr(3)] show ?thesis unfolding rows_upd_step [OF k] by (intro exI) auto
  qed
qed


section \<open>Background\<close>

lemma fill_row_paints:
  assumes g: "geometry_ok d" and cy: "0 \<le> cy" "cy < dst_h d"
  shows "0 \<le> dst_x d + j \<Longrightarrow> \<exists>upd. paints d upd m (fill_row m (pixel d (dst_x d + j) cy) bg (dst_x d) (dst_w d) n j)"
proof (induction "nat (n - j)" arbitrary: j m rule: less_induct)
  case less
  show ?case
  proof (cases "j < n \<and> dst_x d + j < dst_w d")
    case True
    let ?m = "store32 m (pixel d (dst_x d + j) cy) bg"
    have on: "on_screen d (dst_x d + j) cy" using True less.prems cy by (simp add: on_screen_def)
    have "nat (n - (j + 1)) < nat (n - j)" using True by simp
    from less.hyps [OF this, of ?m] less.prems
    obtain upd where "paints d upd ?m (fill_row ?m (pixel d (dst_x d + (j + 1)) cy) bg (dst_x d) (dst_w d) n (j + 1))"
      by auto
    moreover have "pixel d (dst_x d + (j + 1)) cy = pixel d (dst_x d + j) cy + 4" unfolding pixel_next by (simp only: add.assoc)
    ultimately have "paints d ([(dst_x d + j, cy) \<mapsto> bg] ++ upd) m
        (fill_row ?m (pixel d (dst_x d + j) cy + 4) bg (dst_x d) (dst_w d) n (j + 1))"
      using paints_trans [OF store_pixel [OF g on]] by simp
    then show ?thesis using True by (subst fill_row.simps) auto
  next
    case False
    moreover have "dst_w d \<noteq> 0" using g by (simp add: geometry_ok_def)
    ultimately have "fill_row m (pixel d (dst_x d + j) cy) bg (dst_x d) (dst_w d) n j = m"
      by (subst fill_row.simps) auto
    then show ?thesis using paints_refl by (metis (full_types))
  qed
qed

lemma fill_rows_paints:
  assumes g: "geometry_ok d" and x: "0 \<le> dst_x d"
  shows "0 \<le> dst_y d + y \<Longrightarrow>
    \<exists>y' upd m'. fill_rows d (dst_w d) (int (unat (dst_p d) div 4)) n limit y (pixel d (dst_x d) (dst_y d + y)) m =
      (y', pixel d (dst_x d) (dst_y d + y'), m') \<and> y \<le> y' \<and> paints d upd m m'"
proof (induction "nat (limit - y)" arbitrary: y m rule: less_induct)
  case less
  let ?s = "int (unat (dst_p d) div 4)" and ?pos = "pixel d (dst_x d) (dst_y d + y)"
  show ?case
  proof (cases "y < limit \<and> dst_y d + y < dst_h d")
    case True
    let ?m = "fill_row m ?pos (dst_bg d) (dst_x d) (dst_w d) n 0"
    obtain u1 where u1: "paints d u1 m ?m"
      using fill_row_paints [OF g less.prems, of 0 m "dst_bg d" n] True x by auto
    have "nat (limit - (y + 1)) < nat (limit - y)" using True by simp
    from less.hyps [OF this, of ?m] less.prems obtain y' u2 m' where
      r: "fill_rows d (dst_w d) ?s n limit (y + 1) (pixel d (dst_x d) (dst_y d + (y + 1))) ?m =
        (y', pixel d (dst_x d) (dst_y d + y'), m')" "y + 1 \<le> y'" "paints d u2 ?m m'" by auto
    have pos: "?pos + word_of_int (4 * ?s) = pixel d (dst_x d) (dst_y d + (y + 1))"
      using pixel_below [OF g, of "dst_x d" "dst_y d + y" 1] by (simp add: add.assoc)
    have "fill_rows d (dst_w d) ?s n limit y ?pos m = (y', pixel d (dst_x d) (dst_y d + y'), m')"
      using True r(1) by (subst fill_rows.simps) (simp only: pos, simp)
    with r(2) paints_trans [OF u1 r(3)] show ?thesis by (intro exI) auto
  next
    case False
    moreover have "dst_h d \<noteq> 0" using g by (simp add: geometry_ok_def)
    ultimately have "fill_rows d (dst_w d) ?s n limit y ?pos m = (y, ?pos, m)" by (subst fill_rows.simps) auto
    then show ?thesis using paints_refl by blast
  qed
qed

section \<open>Glyphs\<close>

text \<open>The bits of a glyph: those of its fragments, each at its line.\<close>

function glyph_bit :: "font \<Rightarrow> u64 \<Rightarrow> nat \<Rightarrow> u64 \<Rightarrow> int \<Rightarrow> int \<Rightarrow> bool" where
  "glyph_bit f chr i ptr dx dy =
     (if i < unat (f (chr + 1)) then
        (let frg = frag_offset f chr ptr; k = (uint (f frg AND 0x1F) + 1) * 8; r = dy - uint (f (ptr + 1)) in
          \<not> (f ptr = 255 \<and> f (ptr + 1) = 255) \<and> f frg AND 0xE0 = 0x80 \<and>
          0 \<le> dx \<and> dx < k \<and> 0 \<le> r \<and> r < int (unat (f (frg + 1)) + 1) \<and> frag_bit f (frg + 2) (nat (r * k + dx)))
        \<or> glyph_bit f chr (Suc i) (ptr + (if f chr AND 0x40 \<noteq> 0 then 6 else 5)) dx dy
      else False)"
  by pat_completeness auto
termination by (relation "measure (\<lambda>(f, chr, i, ptr, dx, dy). unat (f (chr + 1)) - i)") auto

declare glyph_bit.simps [simp del]

definition glyph_upd :: "font \<Rightarrow> ssfn_buf_t \<Rightarrow> u64 \<Rightarrow> nat \<Rightarrow> u64 \<Rightarrow> int \<times> int \<rightharpoonup> u32" where
  "glyph_upd f d chr i ptr = (\<lambda>(cx, cy).
     if on_screen d cx cy \<and> glyph_bit f chr i ptr (cx - dst_x d) (cy - dst_y d) then Some (dst_fg d) else None)"

lemma glyph_upd_skip:
  assumes "f ptr = 255 \<and> f (ptr + 1) = 255 \<or> f (frag_offset f chr ptr) AND 0xE0 \<noteq> 0x80" "i < unat (f (chr + 1))"
  shows "glyph_upd f d chr i ptr = glyph_upd f d chr (Suc i) (ptr + (if f chr AND 0x40 \<noteq> 0 then 6 else 5))"
  unfolding glyph_upd_def using assms by (intro ext) (subst glyph_bit.simps, auto simp: Let_def)

lemma glyph_upd_frag:
  assumes "\<not> (f ptr = 255 \<and> f (ptr + 1) = 255)" "f (frag_offset f chr ptr) AND 0xE0 = 0x80" "i < unat (f (chr + 1))"
    and "dst_bg d = 0"
  shows "glyph_upd f d chr i ptr =
    rows_upd f d (frag_offset f chr ptr + 2) 0 ((uint (f (frag_offset f chr ptr) AND 0x1F) + 1) * 8)
      (unat (f (frag_offset f chr ptr + 1)) + 1) (uint (f (ptr + 1))) ++
    glyph_upd f d chr (Suc i) (ptr + (if f chr AND 0x40 \<noteq> 0 then 6 else 5))"
proof (rule ext, clarify)
  fix cx cy
  show "glyph_upd f d chr i ptr (cx, cy) =
    (rows_upd f d (frag_offset f chr ptr + 2) 0 ((uint (f (frag_offset f chr ptr) AND 0x1F) + 1) * 8)
      (unat (f (frag_offset f chr ptr + 1)) + 1) (uint (f (ptr + 1))) ++
    glyph_upd f d chr (Suc i) (ptr + (if f chr AND 0x40 \<noteq> 0 then 6 else 5))) (cx, cy)"
    using assms unfolding glyph_upd_def rows_upd_def map_add_def
    by (subst glyph_bit.simps) (auto simp: Let_def split: option.split)
qed


lemma draw_frag_paints:
  assumes g: "geometry_ok d" and y: "0 \<le> dst_y d" "0 \<le> y" and x: "dst_bg d \<noteq> 0 \<Longrightarrow> 0 \<le> dst_x d"
  defines "st \<equiv> int (unat (dst_p d) div 4)"
  assumes k: "0 < k"
  shows "\<exists>y1 m1 y2 m2 upd.
    (if dst_bg d \<noteq> 0 then fill_rows d (dst_w d) st n (uint fy) y (pixel d (dst_x d) (dst_y d + y)) m
     else (uint fy, pixel d (dst_x d) (dst_y d + y) + word_of_int (4 * ((uint fy - y) * st)), m)) =
      (y1, pixel d (dst_x d) (dst_y d + y1), m1) \<and>
    draw_rows f d (dst_w d) st k j y1 (pixel d (dst_x d) (dst_y d + y1)) frg 1 m1 =
      (y2, pixel d (dst_x d) (dst_y d + y2), m2) \<and>
    0 \<le> y2 \<and> paints d upd m m2 \<and> (dst_bg d = 0 \<longrightarrow> upd = rows_upd f d frg 0 k j (uint fy))"
proof -
  have rows: "\<exists>y2 m2. draw_rows f d (dst_w d) st k j y1 (pixel d (dst_x d) (dst_y d + y1)) frg 1 m1 =
      (y2, pixel d (dst_x d) (dst_y d + y2), m2) \<and> y1 \<le> y2 \<and> paints d (rows_upd f d frg 0 k j y1) m1 m2"
    if "0 \<le> y1" for y1 m1
    unfolding st_def using draw_rows_paints [OF g k, of y1 frg 0 frg 1 f j m1] that y by (simp add: bit_cursor_def)
  show ?thesis
  proof (cases "dst_bg d = 0")
    case True
    have "pixel d (dst_x d) (dst_y d + y) + word_of_int (4 * ((uint fy - y) * st)) = pixel d (dst_x d) (dst_y d + uint fy)"
      unfolding st_def using pixel_below [OF g, of "dst_x d" "dst_y d + y" "uint fy - y"] by (simp add: algebra_simps)
    moreover obtain y2 m2 where "draw_rows f d (dst_w d) st k j (uint fy) (pixel d (dst_x d) (dst_y d + uint fy)) frg 1 m =
      (y2, pixel d (dst_x d) (dst_y d + y2), m2)" "uint fy \<le> y2" "paints d (rows_upd f d frg 0 k j (uint fy)) m m2"
      using rows [of "uint fy" m] by auto
    moreover have "0 \<le> uint fy" by simp
    ultimately have "0 \<le> y2" by linarith
    show ?thesis using True
      \<open>pixel d (dst_x d) (dst_y d + y) + word_of_int (4 * ((uint fy - y) * st)) = pixel d (dst_x d) (dst_y d + uint fy)\<close>
      \<open>draw_rows f d (dst_w d) st k j (uint fy) (pixel d (dst_x d) (dst_y d + uint fy)) frg 1 m =
      (y2, pixel d (dst_x d) (dst_y d + y2), m2)\<close> \<open>paints d (rows_upd f d frg 0 k j (uint fy)) m m2\<close> \<open>0 \<le> y2\<close>
      by (intro exI [of _ "uint fy"] exI [of _ m] exI [of _ y2] exI [of _ m2] exI [of _ "rows_upd f d frg 0 k j (uint fy)"])
        (simp only: not_not if_False refl simp_thms)
  next
    case False
    obtain y1 u m1 where fr: "fill_rows d (dst_w d) st n (uint fy) y (pixel d (dst_x d) (dst_y d + y)) m =
        (y1, pixel d (dst_x d) (dst_y d + y1), m1)" "y \<le> y1" "paints d u m m1"
      unfolding st_def using fill_rows_paints [OF g x [OF False], of y n "uint fy" m] y by auto
    obtain y2 m2 where dr: "draw_rows f d (dst_w d) st k j y1 (pixel d (dst_x d) (dst_y d + y1)) frg 1 m1 =
      (y2, pixel d (dst_x d) (dst_y d + y2), m2)" "y1 \<le> y2" "paints d (rows_upd f d frg 0 k j y1) m1 m2"
      using rows [of y1 m1] fr(2) y by auto
    have "0 \<le> y2" using fr(2) dr(2) y by linarith
    with False fr(1) dr(1) paints_trans [OF fr(3) dr(3)] show ?thesis by auto
  qed
qed

lemma draw_frags_paints:
  assumes g: "geometry_ok d" and y: "0 \<le> dst_y d" and x: "dst_bg d \<noteq> 0 \<Longrightarrow> 0 \<le> dst_x d"
  shows "0 \<le> y \<Longrightarrow>
    \<exists>y' m' upd. draw_frags f d (dst_w d) (int (unat (dst_p d) div 4)) chr i ptr y (pixel d (dst_x d) (dst_y d + y)) m =
      (y', pixel d (dst_x d) (dst_y d + y'), m') \<and> 0 \<le> y' \<and> paints d upd m m' \<and>
      (dst_bg d = 0 \<longrightarrow> upd = glyph_upd f d chr i ptr)"
proof (induction "unat (f (chr + 1)) - i" arbitrary: i ptr y m)
  case 0
  then have "glyph_upd f d chr i ptr = Map.empty"
    by (intro ext) (auto simp: glyph_upd_def glyph_bit.simps)
  moreover have "draw_frags f d (dst_w d) (int (unat (dst_p d) div 4)) chr i ptr y (pixel d (dst_x d) (dst_y d + y)) m =
      (y, pixel d (dst_x d) (dst_y d + y), m)" using 0 by (subst draw_frags.simps) simp
  ultimately show ?case using 0 paints_refl by (metis (no_types))
next
  case (Suc n)
  let ?s = "int (unat (dst_p d) div 4)" and ?next = "ptr + (if f chr AND 0x40 \<noteq> 0 then 6 else 5)"
  let ?frg = "frag_offset f chr ptr" and ?pos = "pixel d (dst_x d) (dst_y d + y)"
  let ?k = "(uint (f ?frg AND 0x1F) + 1) * 8" and ?j = "unat (f (?frg + 1)) + 1"
  have i: "i < unat (f (chr + 1))" and n: "n = unat (f (chr + 1)) - Suc i" using Suc.hyps(2) by simp_all
  show ?case
  proof (cases "f ptr = 255 \<and> f (ptr + 1) = 255 \<or> f ?frg AND 0xE0 \<noteq> 0x80")
    case True
    then have "draw_frags f d (dst_w d) ?s chr i ptr y ?pos m = draw_frags f d (dst_w d) ?s chr (Suc i) ?next y ?pos m"
      using i by (subst draw_frags.simps) (auto simp: Let_def)
    then show ?thesis
      using Suc.hyps(1) [OF n Suc.prems, of ?next m] unfolding glyph_upd_skip [OF True i] by simp
  next
    case False
    have k: "0 < ?k" by (simp add: add_nonneg_pos)
    from draw_frag_paints [OF g y Suc.prems x k, of "uint (f (chr + 2))" "f (ptr + 1)" m f ?j "?frg + 2"]
    obtain y1 m1 y2 m2 u1 where fr:
      "(if dst_bg d \<noteq> 0 then fill_rows d (dst_w d) ?s (uint (f (chr + 2))) (uint (f (ptr + 1))) y ?pos m
        else (uint (f (ptr + 1)), ?pos + word_of_int (4 * ((uint (f (ptr + 1)) - y) * ?s)), m)) =
        (y1, pixel d (dst_x d) (dst_y d + y1), m1)"
      "draw_rows f d (dst_w d) ?s ?k ?j y1 (pixel d (dst_x d) (dst_y d + y1)) (?frg + 2) 1 m1 =
        (y2, pixel d (dst_x d) (dst_y d + y2), m2)"
      "0 \<le> y2" "paints d u1 m m2" "dst_bg d = 0 \<longrightarrow> u1 = rows_upd f d (?frg + 2) 0 ?k ?j (uint (f (ptr + 1)))"
      by auto
    from Suc.hyps(1) [OF n fr(3), of ?next m2] obtain y' m' u2 where r:
      "draw_frags f d (dst_w d) ?s chr (Suc i) ?next y2 (pixel d (dst_x d) (dst_y d + y2)) m2 =
        (y', pixel d (dst_x d) (dst_y d + y'), m')"
      "0 \<le> y'" "paints d u2 m2 m'" "dst_bg d = 0 \<longrightarrow> u2 = glyph_upd f d chr (Suc i) ?next" by auto
    have "draw_frags f d (dst_w d) ?s chr i ptr y ?pos m = (y', pixel d (dst_x d) (dst_y d + y'), m')"
      using i False r(1) by (subst draw_frags.simps) (simp only: Let_def fr(1,2) split if_True if_False de_Morgan_disj not_not, simp)
    moreover have "dst_bg d = 0 \<longrightarrow> u1 ++ u2 = glyph_upd f d chr i ptr"
      using fr(5) r(4) False i by (simp add: glyph_upd_frag)
    ultimately show ?thesis using r(2) paints_trans [OF fr(4) r(3)] by (intro exI) blast
  qed
qed


lemma ssfn_putc_frame:
  assumes "geometry_ok d" "0 \<le> dst_x d" "0 \<le> dst_y d"
  shows "case ssfn_putc unicode src (d, m) of (r, d', m') \<Rightarrow>
    (\<forall>a. a \<notin> screen_bytes d \<longrightarrow> m' a = m a) \<and>
    (if r = SSFN_OK
     then \<exists>f chr. src = Some f \<and> find_chr f unicode (ucast (characters_offs (ssfn_header f))) 0 = Some chr \<and>
       d' = d\<lparr>dst_x := dst_x d + uint (f (chr + 4)), dst_y := dst_y d + uint (f (chr + 5))\<rparr>
     else r \<in> {SSFN_ERR_INVINP, SSFN_ERR_NOGLYPH} \<and> d' = d \<and> m' = m)"
proof (cases src)
  case None
  then show ?thesis by (simp add: ssfn_putc_def SSFN_OK_def SSFN_ERR_INVINP_def)
next
  case (Some f)
  have w: "(if dst_w d < 0 then - dst_w d else dst_w d) = dst_w d" using assms(1) by (simp add: geometry_ok_def)
  show ?thesis
  proof (cases "f 0 \<noteq> 0x53 \<or> f 1 \<noteq> 0x46 \<or> f 2 \<noteq> 0x4E \<or> f 3 \<noteq> 0x32 \<or> dst_ptr d = 0 \<or> dst_p d = 0 \<or>
      find_chr f unicode (ucast (characters_offs (ssfn_header f))) 0 = None")
    case True
    then show ?thesis by (auto simp: ssfn_putc_def Some SSFN_OK_def SSFN_ERR_INVINP_def SSFN_ERR_NOGLYPH_def)
  next
    case False
    then obtain chr where chr: "find_chr f unicode (ucast (characters_offs (ssfn_header f))) 0 = Some chr" by auto
    let ?s = "int (unat (dst_p d) div 4)" and ?pos = "pixel d (dst_x d) (dst_y d)"
    obtain y' m1 u1 where dr: "draw_frags f d (dst_w d) ?s chr 0 (chr + 6) 0 ?pos m =
        (y', pixel d (dst_x d) (dst_y d + y'), m1)" "0 \<le> y'" "paints d u1 m m1"
      using draw_frags_paints [OF assms(1,3), of 0 f chr 0 "chr + 6" m] assms(2) by auto
    obtain y2 u2 m2 where fl: "fill_rows d (dst_w d) ?s (uint (f (chr + 2))) (uint (f (chr + 3))) y' (pixel d (dst_x d) (dst_y d + y')) m1 =
        (y2, pixel d (dst_x d) (dst_y d + y2), m2)" "paints d u2 m1 m2"
      using fill_rows_paints [OF assms(1,2), of y' "uint (f (chr + 2))" "uint (f (chr + 3))" m1] dr(2) assms(3) by auto
    have "ssfn_putc unicode src (d, m) = (SSFN_OK,
        d\<lparr>dst_x := dst_x d + uint (f (chr + 4)), dst_y := dst_y d + uint (f (chr + 5))\<rparr>,
        if dst_bg d \<noteq> 0 then m2 else m1)"
      using False dr(1) fl(1) by (simp add: ssfn_putc_def Some chr w Let_def pixel_def)
    moreover have "paints d (u1 ++ u2) m m2" by (rule paints_trans [OF dr(3) fl(2)])
    ultimately show ?thesis using dr(3) chr Some by (auto simp: paints_def)
  qed
qed

text \<open>
  Rendering a character touches nothing but the screen.  For a screen whose lines fit their
  pitch and a pen that is not left or above of it, ssfn_putc changes no byte outside the
  visible pixels, whatever the character and however far the glyph sticks out, and moves the
  pen by the advance stored with the glyph; with a bad font, no buffer or no glyph it returns
  the error code and changes nothing.
\<close>

theorem ssfn_putc_stays_on_screen:
  assumes "geometry_ok d" "0 \<le> dst_x d" "0 \<le> dst_y d"
  shows "case ssfn_putc unicode src (d, m) of (r, d', m') \<Rightarrow>
    (\<forall>a. a \<notin> screen_bytes d \<longrightarrow> m' a = m a) \<and>
    (if r = SSFN_OK
     then \<exists>f chr. src = Some f \<and> find_chr f unicode (ucast (characters_offs (ssfn_header f))) 0 = Some chr \<and>
       d' = d\<lparr>dst_x := dst_x d + uint (f (chr + 4)), dst_y := dst_y d + uint (f (chr + 5))\<rparr>
     else r \<in> {SSFN_ERR_INVINP, SSFN_ERR_NOGLYPH} \<and> d' = d \<and> m' = m)"
  using assms by (rule ssfn_putc_frame)

lemma ssfn_putc_draws:
  assumes "geometry_ok d" "0 \<le> dst_y d" "dst_bg d = 0" "dst_ptr d \<noteq> 0" "bytes_at f 0 4 = bytes_of ''SFN2''"
    and "find_chr f unicode (ucast (characters_offs (ssfn_header f))) 0 = Some chr"
  shows "screen d (snd (snd (ssfn_putc unicode (Some f) (d, m)))) = (\<lambda>(cx, cy).
    if on_screen d cx cy \<and> glyph_bit f chr 0 (chr + 6) (cx - dst_x d) (cy - dst_y d) then Some (dst_fg d)
    else screen d m (cx, cy))"
proof -
  have w: "(if dst_w d < 0 then - dst_w d else dst_w d) = dst_w d" "dst_p d \<noteq> 0"
    using assms(1) by (auto simp: geometry_ok_def)
  have mg: "f 0 = 0x53" "f 1 = 0x46" "f 2 = 0x4E" "f 3 = 0x32"
    using assms(5) by (simp_all add: bytes_at_Suc eval_nat_numeral bytes_of_def of_char_def bytes_at_def)
  obtain y' m1 where dr: "draw_frags f d (dst_w d) (int (unat (dst_p d) div 4)) chr 0 (chr + 6) 0 (pixel d (dst_x d) (dst_y d)) m =
      (y', pixel d (dst_x d) (dst_y d + y'), m1)" "paints d (glyph_upd f d chr 0 (chr + 6)) m m1"
    using draw_frags_paints [OF assms(1,2), of 0 f chr 0 "chr + 6" m] assms(3) by auto
  have m1: "snd (snd (ssfn_putc unicode (Some f) (d, m))) = m1"
    using dr(1) assms(3,4,6) w mg by (simp add: ssfn_putc_def Let_def pixel_def)
  have "screen d m1 = screen d m ++ glyph_upd f d chr 0 (chr + 6)" using dr(2) by (simp add: paints_def)
  then show ?thesis unfolding m1
    by (simp add: glyph_upd_def map_add_def fun_eq_iff split: option.split)
qed

text \<open>
  C12. What ssfn_putc draws.  Without a background colour (the kernel never sets one) the new
  picture is the old one with exactly those visible pixels in the foreground colour whose bit is
  set in one of the glyph's bitmap fragments.
\<close>

theorem ssfn_putc_picture:
  assumes "geometry_ok d" "0 \<le> dst_y d" "dst_bg d = 0" "dst_ptr d \<noteq> 0" "bytes_at f 0 4 = bytes_of ''SFN2''"
    and "find_chr f unicode (ucast (characters_offs (ssfn_header f))) 0 = Some chr"
  shows "screen d (snd (snd (ssfn_putc unicode (Some f) (d, m)))) = (\<lambda>(cx, cy).
    if on_screen d cx cy \<and> glyph_bit f chr 0 (chr + 6) (cx - dst_x d) (cy - dst_y d) then Some (dst_fg d)
    else screen d m (cx, cy))"
  by (rule ssfn_putc_draws [OF assms])

text \<open>A font of height 1 with one glyph, the letter A drawn as one line of eight pixels whose first and last are set.\<close>

definition tiny_font :: font where
  "tiny_font off = (let bs = bytes_of ''SFN2'' @ replicate 7 0 @ [1] @ replicate 4 0 @ [32, 0, 0, 0] @ replicate 12 0 @ [0xBF, 0x80] @
      [0, 1, 8, 1, 8, 0] @ [0, 0, 48, 0, 0] @ replicate 3 0 @ [0x80, 0, 0x81]
    in if unat off < length bs then bs ! unat off else 0)"

definition tiny_screen :: ssfn_buf_t where
  "tiny_screen = \<lparr>dst_ptr = 0x1000, dst_w = 8, dst_h = 2, dst_p = 32, dst_x = 0, dst_y = 0, dst_fg = 7, dst_bg = 0\<rparr>"

lemma tiny_ok: "geometry_ok tiny_screen" "dst_x tiny_screen = 0" "dst_y tiny_screen = 0" "dst_bg tiny_screen = 0"
  "dst_ptr tiny_screen \<noteq> 0" "dst_fg tiny_screen = 7"
  by (simp_all add: geometry_ok_def tiny_screen_def)

lemma tiny_glyph:
  "bytes_at tiny_font 0 4 = bytes_of ''SFN2''"
  "find_chr tiny_font 0x41 (ucast (characters_offs (ssfn_header tiny_font))) 0 = Some 34"
  "glyph_bit tiny_font 34 0 (34 + 6) 7 0" "\<not> glyph_bit tiny_font 34 0 (34 + 6) 6 0"
  by code_simp+


theorem ssfn_putc_stays_on_screen_witness:
  "{a. snd (snd (ssfn_putc 0x41 (Some tiny_font) (tiny_screen, \<lambda>_. 0))) a \<noteq> 0} \<subseteq> screen_bytes tiny_screen"
  using ssfn_putc_stays_on_screen [OF tiny_ok(1), where unicode = "0x41" and src = "Some tiny_font" and m = "\<lambda>_. 0"]
  by (auto simp: tiny_ok split: prod.splits)

theorem ssfn_putc_picture_witness:
  "screen tiny_screen (snd (snd (ssfn_putc 0x41 (Some tiny_font) (tiny_screen, \<lambda>_. 0)))) (7, 0) = Some 7 \<and>
   screen tiny_screen (snd (snd (ssfn_putc 0x41 (Some tiny_font) (tiny_screen, \<lambda>_. 0)))) (6, 0) = Some 0"
proof -
  have z: "load32 (\<lambda>_. 0) a = 0" for a by (rule bit_word_eqI) (simp add: bit_load32)
  have "on_screen tiny_screen 7 0" "on_screen tiny_screen 6 0" by (simp_all add: on_screen_def tiny_screen_def)
  then show ?thesis
    using ssfn_putc_picture [OF tiny_ok(1) _ tiny_ok(4,5) tiny_glyph(1,2), where m = "\<lambda>_. 0"] tiny_glyph(3,4)
    by (simp add: tiny_ok screen_def z)
qed

end
