(* ===== verification/Terminal.thy ===== *)
theory Terminal
  imports Stdio Ssfn_Screen
begin

text \<open>
  The terminal on the linear frame buffer (kernel/arch/x86_64/framebuffer/tty.c): the state is
  the pen and the colours in ssfn_dst, the font, the frame buffer the boot loader reported, and
  the memory.  terminal_initialize builds the state; the other operations run on it, so that the
  null pointers they would follow before it are not modelled.

  Heights and widths are below 2^31, where the int counters of the loops are exact; they are
  natural numbers here.  \<open>tty_ok\<close> is the invariant of the terminal.
\<close>

section \<open>State\<close>

record limine_framebuffer =
  fb_address :: u64
  fb_width :: u64
  fb_height :: u64
  fb_pitch :: u64
  fb_bpp :: u16
  fb_memory_model :: u8
  fb_red_mask_size :: u8
  fb_red_mask_shift :: u8
  fb_green_mask_size :: u8
  fb_green_mask_shift :: u8
  fb_blue_mask_size :: u8
  fb_blue_mask_shift :: u8
  fb_edid_size :: u64
  fb_edid :: u64
  fb_mode_count :: u64
  fb_modes :: u64

text \<open>The response to the frame buffer request: the count, and the frame buffers behind the pointers.\<close>

record limine_framebuffer_response =
  fbr_revision :: u64
  framebuffer_count :: u64
  framebuffers :: "limine_framebuffer list"

record tty =
  tty_mem :: mem
  tty_dst :: ssfn_buf_t
  tty_font :: font
  tty_fb :: limine_framebuffer
  tty_console :: "console_call list"

section \<open>Colours\<close>

definition terminal_set_text_color :: "u32 \<Rightarrow> tty \<Rightarrow> tty" where
  "terminal_set_text_color c t = t\<lparr>tty_dst := (tty_dst t)\<lparr>dst_fg := c\<rparr>\<rparr>"

definition terminal_reset_text_color :: "tty \<Rightarrow> tty" where
  "terminal_reset_text_color t = t\<lparr>tty_dst := (tty_dst t)\<lparr>dst_fg := COLORS_TEXT_FG\<rparr>\<rparr>"

definition terminal_set_background_color :: "u32 \<Rightarrow> tty \<Rightarrow> tty" where
  "terminal_set_background_color c t = t\<lparr>tty_dst := (tty_dst t)\<lparr>dst_bg := c\<rparr>\<rparr>"

definition terminal_reset_background_color :: "tty \<Rightarrow> tty" where
  "terminal_reset_background_color t = t\<lparr>tty_dst := (tty_dst t)\<lparr>dst_bg := COLORS_BG\<rparr>\<rparr>"

section \<open>Scrolling\<close>

text \<open>The loops that paint the lines from y on in the background colour, \<open>fb_ptr[x + y * width] = COLORS_BG\<close>.\<close>

function clear_line :: "mem \<Rightarrow> u64 \<Rightarrow> u64 \<Rightarrow> nat \<Rightarrow> nat \<Rightarrow> mem" where
  "clear_line m addr width y x =
     (if x < unat width
      then clear_line (store32 m (addr + 4 * (of_nat x + of_nat y * width)) COLORS_BG) addr width y (Suc x) else m)"
  by pat_completeness auto
termination by (relation "measure (\<lambda>(m, addr, width, y, x). unat width - x)") auto

function clear_lines :: "mem \<Rightarrow> u64 \<Rightarrow> u64 \<Rightarrow> u64 \<Rightarrow> nat \<Rightarrow> mem" where
  "clear_lines m addr width height y =
     (if y < unat height then clear_lines (clear_line m addr width y 0) addr width height (Suc y) else m)"
  by pat_completeness auto
termination by (relation "measure (\<lambda>(m, addr, width, height, y). unat height - y)") auto

declare clear_line.simps [simp del] clear_lines.simps [simp del]

definition cell_height :: "tty \<Rightarrow> u8" where
  "cell_height t = font_height (ssfn_header (tty_font t))"

definition terminal_scroll :: "tty \<Rightarrow> tty" where
  "terminal_scroll t =
     (let fb = tty_fb t;
          h = ucast (cell_height t) :: u64;
          src_ptr = fb_address fb + (h * (fb_pitch fb div 4) + 0) * 4;
          dst_ptr = fb_address fb + (0 * (fb_pitch fb div 4) + 0) * 4;
          total_size = fb_width fb * (fb_height fb - h) * 4;
          m1 = memmove (tty_mem t) dst_ptr src_ptr total_size;
          m2 = clear_lines m1 (fb_address fb) (fb_width fb) (fb_height fb) (unat (fb_height fb - h))
      in t\<lparr>tty_mem := m2,
          tty_dst := (tty_dst t)\<lparr>dst_x := 0, dst_y := dst_h (tty_dst t) - uint (cell_height t)\<rparr>\<rparr>)"

section \<open>Writing\<close>

definition terminal_putentryat :: "u32 \<Rightarrow> u32 \<Rightarrow> u64 \<Rightarrow> u64 \<Rightarrow> tty \<Rightarrow> tty" where
  "terminal_putentryat c color x y t =
     (let d = (tty_dst t)\<lparr>dst_fg := color, dst_x := sint (ucast x :: u32), dst_y := sint (ucast y :: u32)\<rparr>;
          (r, d', m') = ssfn_putc c (Some (tty_font t)) (d, tty_mem t)
      in t\<lparr>tty_dst := d', tty_mem := m'\<rparr>)"

definition terminal_putchar :: "u8 \<Rightarrow> tty \<Rightarrow> tty" where
  "terminal_putchar c t =
     (let h = uint (cell_height t);
          t1 = (if c = 0x0A then t\<lparr>tty_dst := (tty_dst t)\<lparr>dst_x := 0, dst_y := dst_y (tty_dst t) + h\<rparr>\<rparr>
                else
                  let (r, d, m) = ssfn_putc (ucast c) (Some (tty_font t)) (tty_dst t, tty_mem t);
                      d' = (if dst_x d \<ge> dst_w d then
                              let y' = dst_y d + h in d\<lparr>dst_x := 0, dst_y := (if y' = dst_h d then 0 else y')\<rparr>
                            else d)
                  in t\<lparr>tty_dst := d', tty_mem := m\<rparr>)
      in if dst_y (tty_dst t1) \<ge> dst_h (tty_dst t1) then terminal_scroll t1 else t1)"

definition terminal_write :: "u8 list \<Rightarrow> tty \<Rightarrow> tty" where
  "terminal_write data t = fold terminal_putchar data t"

text \<open>The string at a pointer; None when no NUL ends it.\<close>

definition terminal_writestring :: "u64 \<Rightarrow> tty \<Rightarrow> tty option" where
  "terminal_writestring data t =
     map_option (\<lambda>n. terminal_write (bytes_at (tty_mem t) data (unat n)) t) (strlen (tty_mem t) data)"

text \<open>The character output of the kernel's putchar: terminal_write of one byte.\<close>

definition terminal_write_char :: "u8 \<Rightarrow> tty \<Rightarrow> tty" where
  "terminal_write_char c = terminal_write [c]"

section \<open>Initialisation\<close>

definition title_card :: "string list" where
  \<open>title_card = [
     ''\<newline>'',
     ''       888      d8b                    .d88888b.   .d8888b.  \<newline>'',
     ''       888      Y8P                   d88P" "Y88b d88P  Y88b \<newline>'',
     ''       888                            888     888 Y88b.      \<newline>'',
     ''       88888b.  888 88888b.  88888b.  888     888  "Y888b.   \<newline>'',
     ''       888 "88b 888 888 "88b 888 "88b 888     888     "Y88b. \<newline>'',
     ''       888  888 888 888  888 888  888 888     888       "888 \<newline>'',
     ''       888  888 888 888 d88P 888 d88P Y88b. .d88P Y88b  d88P \<newline>'',
     ''       888  888 888 88888P"  88888P"   "Y88888P"   "Y8888P"  \<newline>'' @
     ''                     888      888                             \<newline>'',
     ''                     888      888                             \<newline>'',
     ''                     888      888                             \<newline>\<newline>'']\<close>

fun print_cards :: "nat \<Rightarrow> string list \<Rightarrow> tty \<Rightarrow> tty outcome" where
  "print_cards i [] t = Inr t"
| "print_cards i (line # rest) t =
     (let color = 0xff0000 + of_nat i * (0xffffff div 8) in
      rbind (printf (putchar_char terminal_write_char) (lit line) [] (terminal_set_text_color color t))
        (\<lambda>(n, t'). print_cards (Suc i) rest t'))"

text \<open>
  The font is the one linked into the kernel; the descriptor is the initial ssfn_dst, of which
  the background colour is kept.
\<close>

definition terminal_initialize :: "font \<Rightarrow> limine_framebuffer_response option \<Rightarrow> ssfn_buf_t \<Rightarrow> mem \<Rightarrow> tty outcome" where
  "terminal_initialize u_vga16 response d0 m =
     (case response of
        None \<Rightarrow> Inl Halts
      | Some r \<Rightarrow>
          if framebuffer_count r < 1 then Inl Halts
          else
            let fb = hd (framebuffers r);
                d = d0\<lparr>dst_ptr := fb_address fb, dst_w := sint (ucast (fb_width fb) :: u32),
                       dst_h := sint (ucast (fb_height fb) :: u32), dst_p := ucast (fb_pitch fb),
                       dst_x := 0, dst_y := 0\<rparr>;
                t = terminal_reset_text_color \<lparr>tty_mem = m, tty_dst = d, tty_font = u_vga16, tty_fb = fb, tty_console = []\<rparr>;
                t1 = t\<lparr>tty_mem := clear_lines m (fb_address fb) (fb_width fb) (fb_height fb) 0\<rparr>
            in rbind (print_cards 0 title_card t1)
                 (\<lambda>t2. Inr (t2\<lparr>tty_console := tty_console t2 @ [ULOG_INFO ''Success, Terminal initialized.'' []]\<rparr>)))"

end
