(* ===== verification/Screen_Contract.thy ===== *)
theory Screen_Contract
  imports Stdio
begin

text \<open>
  The interface between a terminal and the code that prints on it.  A terminal has an operation
  that puts one character, an invariant of its state, a part of the state that never changes
  (where the screen is, which font it has), its memory, and the addresses of its screen.  The
  contract of the one operation gives the contract of a write of many characters and of every
  call of printf.  The terminal on the frame buffer and the text screen of the i386 kernel are
  its two interpretations.
\<close>

locale char_screen =
  fixes put :: "u8 \<Rightarrow> 't \<Rightarrow> 't"
    and ok :: "'t \<Rightarrow> bool"
    and fixed :: "'t \<Rightarrow> 'f"
    and memory :: "'t \<Rightarrow> mem"
    and screen :: "'f \<Rightarrow> u64 set"
  assumes put_ok: "ok t \<Longrightarrow> ok (put c t)"
    and put_fixed: "ok t \<Longrightarrow> fixed (put c t) = fixed t"
    and put_frame: "ok t \<Longrightarrow> a \<notin> screen (fixed t) \<Longrightarrow> memory (put c t) a = memory t a"
begin

text \<open>What may happen to a terminal: the invariant stays, and only the screen changes.\<close>

definition drawn :: "'t \<Rightarrow> 't \<Rightarrow> bool" where
  "drawn t t' \<longleftrightarrow> ok t' \<and> fixed t' = fixed t \<and> (\<forall>a. a \<notin> screen (fixed t) \<longrightarrow> memory t' a = memory t a)"

lemma drawn_refl: "ok t \<Longrightarrow> drawn t t"
  by (simp add: drawn_def)

lemma drawn_trans [trans]: "drawn t t' \<Longrightarrow> drawn t' t'' \<Longrightarrow> drawn t t''"
  by (simp add: drawn_def)

lemma drawn_put: "ok t \<Longrightarrow> drawn t (put c t)"
  by (simp add: drawn_def put_ok put_fixed put_frame)

lemma drawn_write: "ok t \<Longrightarrow> drawn t (fold put cs t)"
proof (induction cs arbitrary: t)
  case (Cons c cs)
  have "drawn t (put c t)" by (rule drawn_put [OF Cons.prems])
  also have "drawn (put c t) (fold put cs (put c t))" by (rule Cons.IH [OF put_ok [OF Cons.prems]])
  finally show ?case by simp
qed (simp add: drawn_refl)

lemma drawn_printf:
  assumes "ok t" "printf put fmt va t = Inr (n, t')"
  shows "drawn t t'"
  using assms drawn_write [OF assms(1)] by (auto simp: printf_render rbind_Inr_iff)

text \<open>An operation that keeps the invariant, the fixed part and the memory, as a change of colour.\<close>

lemma drawn_quiet: "ok t' \<Longrightarrow> fixed t' = fixed t \<Longrightarrow> memory t' = memory t \<Longrightarrow> drawn t t'"
  by (simp add: drawn_def)

end

end
