(* ===== verification/Terminal_Screen.thy ===== *)
theory Terminal_Screen
  imports Terminal Screen_Contract
begin

text \<open>
  What the terminal does to the picture: scrolling, clearing, and the invariant that the pen
  stays on the screen and nothing outside the frame buffer is written.
\<close>

section \<open>The bytes of the frame buffer\<close>

definition fb_bytes :: "limine_framebuffer \<Rightarrow> u64 set" where
  "fb_bytes fb = {a. in_region a (fb_address fb) (unat (fb_height fb) * unat (fb_pitch fb))}"

text \<open>The descriptor describes the frame buffer, and the pen is on the screen.\<close>

definition describes :: "ssfn_buf_t \<Rightarrow> limine_framebuffer \<Rightarrow> bool" where
  "describes d fb \<longleftrightarrow> dst_ptr d = fb_address fb \<and> dst_w d = uint (fb_width fb) \<and> dst_h d = uint (fb_height fb) \<and>
     uint (dst_p d) = uint (fb_pitch fb)"

definition tty_ok :: "tty \<Rightarrow> bool" where
  "tty_ok t \<longleftrightarrow> geometry_ok (tty_dst t) \<and> describes (tty_dst t) (tty_fb t) \<and>
     no_wrap (fb_address (tty_fb t)) (unat (fb_height (tty_fb t)) * unat (fb_pitch (tty_fb t))) \<and>
     0 < cell_height t \<and> uint (cell_height t) \<le> dst_h (tty_dst t) \<and>
     0 \<le> dst_x (tty_dst t) \<and> dst_x (tty_dst t) < dst_w (tty_dst t) \<and>
     0 \<le> dst_y (tty_dst t) \<and> dst_y (tty_dst t) < dst_h (tty_dst t)"

lemma pixel_byte_offset:
  assumes "geometry_ok d" "on_screen d cx cy" "i < 4"
  shows "int (unat (pixel d cx cy + of_nat i - dst_ptr d)) = cy * uint (dst_p d) + 4 * cx + int i"
proof -
  let ?o = "cy * uint (dst_p d) + 4 * cx + int i"
  have "pixel d cx cy + of_nat i - dst_ptr d = word_of_int ?o" by (simp add: pixel_def)
  then have "uint (pixel d cx cy + of_nat i - dst_ptr d) = ?o"
    using pixel_offset [OF assms(1,2), of "int i"] assms(3) by (simp only: uint_word_of_int_eq) (simp add: take_bit_int_eq_self)
  then show ?thesis by simp
qed

lemma screen_bytes_offset:
  assumes "geometry_ok d" "a \<in> screen_bytes d"
  shows "int (unat (a - dst_ptr d)) < dst_h d * uint (dst_p d)"
proof -
  obtain cx cy where on: "on_screen d cx cy" "in_region a (pixel d cx cy) 4" using assms(2) by (auto simp: screen_bytes_def)
  obtain i where i: "i < 4" and a: "a = pixel d cx cy + of_nat i"
    using on(2) by (auto simp: in_region_iff)
  have "int (unat (a - dst_ptr d)) = cy * uint (dst_p d) + 4 * cx + int i"
    unfolding a by (rule pixel_byte_offset [OF assms(1) on(1) i])
  also have "\<dots> < cy * uint (dst_p d) + uint (dst_p d)"
    using assms(1) on(1) i by (auto simp: geometry_ok_def on_screen_def)
  also have "\<dots> = (cy + 1) * uint (dst_p d)" by (simp add: algebra_simps)
  also have "\<dots> \<le> dst_h d * uint (dst_p d)" using on(1) by (intro mult_right_mono) (simp_all add: on_screen_def)
  finally show ?thesis .
qed

lemma screen_in_fb:
  assumes "geometry_ok d" "describes d fb"
  shows "screen_bytes d \<subseteq> fb_bytes fb"
proof
  fix a assume "a \<in> screen_bytes d"
  from screen_bytes_offset [OF assms(1) this] assms(2)
  have "int (unat (a - fb_address fb)) < int (unat (fb_height fb) * unat (fb_pitch fb))"
    by (simp add: describes_def)
  then show "a \<in> fb_bytes fb" by (simp only: of_nat_less_iff fb_bytes_def in_region_def mem_Collect_eq)
qed

section \<open>Clearing lines\<close>

lemma uint_le_int: "unat w \<le> n \<Longrightarrow> uint w \<le> int n"
  by (simp only: uint_nat of_nat_le_iff)

lemma int_less_uint: "n < unat w \<Longrightarrow> int n < uint w"
  by (simp only: uint_nat of_nat_less_iff)

lemma clear_line_paints:
  assumes g: "geometry_ok d" and d: "dst_ptr d = addr" "dst_w d = uint width" "uint (dst_p d) = 4 * uint width"
    and y: "int y < dst_h d"
  shows "paints d (\<lambda>(cx, cy). if cy = int y \<and> int x \<le> cx \<and> on_screen d cx cy then Some COLORS_BG else None)
    m (clear_line m addr width y x)"
proof (induction "unat width - x" arbitrary: x m)
  case 0
  have "uint width \<le> int x" using 0 by (simp add: uint_le_int)
  then have "(\<lambda>(cx, cy). if cy = int y \<and> int x \<le> cx \<and> on_screen d cx cy then Some COLORS_BG else None) = Map.empty"
    using d(2) by (auto simp: on_screen_def fun_eq_iff)
  with 0 show ?case by (subst clear_line.simps) simp
next
  case (Suc n)
  have x: "x < unat width" and n: "n = unat width - Suc x" using Suc.hyps(2) by simp_all
  have on: "on_screen d (int x) (int y)" using int_less_uint [OF x] y d(2) by (simp add: on_screen_def)
  have "(4 :: u64) * (of_nat x + of_nat y * width) = word_of_int (int y * uint (dst_p d) + 4 * int x)"
    unfolding d(3) by (simp add: algebra_simps)
  then have a: "addr + 4 * (of_nat x + of_nat y * width) = pixel d (int x) (int y)"
    unfolding pixel_def d(1) by (simp only:)
  have "clear_line m addr width y x = clear_line (store32 m (pixel d (int x) (int y)) COLORS_BG) addr width y (Suc x)"
    using x by (subst clear_line.simps) (simp only: a if_True)
  moreover have "(\<lambda>(cx, cy). if cy = int y \<and> int x \<le> cx \<and> on_screen d cx cy then Some COLORS_BG else None) =
      [(int x, int y) \<mapsto> COLORS_BG] ++
      (\<lambda>(cx, cy). if cy = int y \<and> int (Suc x) \<le> cx \<and> on_screen d cx cy then Some COLORS_BG else None)"
    using on by (auto simp: fun_eq_iff map_add_def split: option.split)
  ultimately show ?case using paints_trans [OF store_pixel [OF g on] Suc.hyps(1) [OF n]] by simp
qed


lemma clear_lines_paints:
  assumes g: "geometry_ok d" and d: "dst_ptr d = addr" "dst_w d = uint width" "uint (dst_p d) = 4 * uint width"
    "dst_h d = uint height"
  shows "paints d (\<lambda>(cx, cy). if int y \<le> cy \<and> on_screen d cx cy then Some COLORS_BG else None)
    m (clear_lines m addr width height y)"
proof (induction "unat height - y" arbitrary: y m)
  case 0
  have "uint height \<le> int y" using 0 by (simp add: uint_le_int)
  then have "(\<lambda>(cx, cy). if int y \<le> cy \<and> on_screen d cx cy then Some COLORS_BG else None) = Map.empty"
    using d(4) by (auto simp: on_screen_def fun_eq_iff)
  with 0 show ?case by (subst clear_lines.simps) simp
next
  case (Suc n)
  have y: "y < unat height" and n: "n = unat height - Suc y" using Suc.hyps(2) by simp_all
  have "int y < int (unat height)" using y by (simp only: of_nat_less_iff)
  then have yh: "int y < dst_h d" using d(4) by simp
  have "(\<lambda>(cx, cy). if int y \<le> cy \<and> on_screen d cx cy then Some COLORS_BG else None) =
      (\<lambda>(cx, cy). if cy = int y \<and> int 0 \<le> cx \<and> on_screen d cx cy then Some COLORS_BG else None) ++
      (\<lambda>(cx, cy). if int (Suc y) \<le> cy \<and> on_screen d cx cy then Some COLORS_BG else None)"
    by (auto simp: fun_eq_iff map_add_def on_screen_def split: option.split)
  with paints_trans [OF clear_line_paints [OF g d(1-3) yh, of 0 m] Suc.hyps(1) [OF n]] y
  show ?case by (subst clear_lines.simps) simp
qed

text \<open>
  The loops index the frame buffer with the width, not the pitch: they treat it as if its lines
  were adjacent.  That keeps them inside the frame buffer.
\<close>

definition packed :: "ssfn_buf_t \<Rightarrow> ssfn_buf_t" where
  "packed d = d\<lparr>dst_p := word_of_int (4 * dst_w d)\<rparr>"

lemma packed_fields:
  "dst_ptr (packed d) = dst_ptr d" "dst_w (packed d) = dst_w d" "dst_h (packed d) = dst_h d"
  "dst_p (packed d) = word_of_int (4 * dst_w d)"
  by (simp_all add: packed_def)

lemma packed_pitch: "geometry_ok d \<Longrightarrow> uint (dst_p (packed d)) = 4 * dst_w d"
proof -
  assume g: "geometry_ok d"
  have k: "uint (word_of_int k :: u16) = k" if "0 \<le> k" "k < 65536" for k
    using that by (simp add: uint_word_of_int_eq take_bit_int_eq_self)
  have "uint (dst_p d) < 2 ^ LENGTH(16)" by (rule uint_lt2p)
  with g have "0 \<le> 4 * dst_w d" "4 * dst_w d < 65536" by (simp_all add: geometry_ok_def)
  from k [OF this] show ?thesis by (simp only: packed_fields)
qed

lemma packed_size: "geometry_ok d \<Longrightarrow> dst_h d * (4 * dst_w d) \<le> dst_h d * uint (dst_p d)"
  by (intro mult_left_mono) (simp_all add: geometry_ok_def)

lemma packed_ok: "geometry_ok d \<Longrightarrow> geometry_ok (packed d)"
proof -
  assume g: "geometry_ok d"
  then have "dst_h d * uint (dst_p d) \<le> 2 ^ 64" by (simp add: geometry_ok_def)
  with packed_size [OF g] have "dst_h d * (4 * dst_w d) \<le> 2 ^ 64" by (rule order_trans)
  then show ?thesis using g unfolding geometry_ok_def packed_pitch [OF g] packed_fields(2,3) by simp
qed

lemma clear_lines_in_fb:
  assumes "geometry_ok d" "describes d fb" "a \<notin> fb_bytes fb"
  shows "clear_lines m (fb_address fb) (fb_width fb) (fb_height fb) y a = m a"
proof -
  have "paints (packed d) (\<lambda>(cx, cy). if int y \<le> cy \<and> on_screen (packed d) cx cy then Some COLORS_BG else None)
      m (clear_lines m (fb_address fb) (fb_width fb) (fb_height fb) y)"
    using assms(2) packed_pitch [OF assms(1)]
    by (intro clear_lines_paints packed_ok [OF assms(1)]) (simp_all add: describes_def packed_def)
  moreover have "a \<notin> screen_bytes (packed d)"
  proof
    assume "a \<in> screen_bytes (packed d)"
    from screen_bytes_offset [OF packed_ok [OF assms(1)] this]
    have "int (unat (a - dst_ptr d)) < dst_h d * (4 * dst_w d)" by (simp add: packed_pitch [OF assms(1)]) (simp add: packed_def)
    also note packed_size [OF assms(1)]
    finally have "int (unat (a - fb_address fb)) < int (unat (fb_height fb) * unat (fb_pitch fb))"
      using assms(2) by (simp add: describes_def)
    then have "a \<in> fb_bytes fb" by (simp only: of_nat_less_iff fb_bytes_def in_region_def mem_Collect_eq)
    with assms(3) show False by simp
  qed
  ultimately show ?thesis by (simp add: paints_def)
qed


section \<open>Scrolling\<close>

lemma tty_ok_nat:
  assumes "tty_ok t"
  shows "0 < unat (cell_height t)" "unat (cell_height t) \<le> unat (fb_height (tty_fb t))"
    "4 * unat (fb_width (tty_fb t)) \<le> unat (fb_pitch (tty_fb t))" "4 dvd unat (fb_pitch (tty_fb t))"
    "unat (fb_address (tty_fb t)) + unat (fb_height (tty_fb t)) * unat (fb_pitch (tty_fb t)) \<le> 2 ^ 64"
    "0 < unat (fb_pitch (tty_fb t))"
proof -
  have g: "geometry_ok (tty_dst t)" "describes (tty_dst t) (tty_fb t)" "0 < cell_height t"
    "uint (cell_height t) \<le> dst_h (tty_dst t)"
    using assms by (simp_all add: tty_ok_def)
  show "0 < unat (cell_height t)" using g(3) by (simp add: word_less_nat_alt)
  have "int (unat (cell_height t)) \<le> int (unat (fb_height (tty_fb t)))"
    using g(2,4) by (simp add: describes_def)
  then show "unat (cell_height t) \<le> unat (fb_height (tty_fb t))" by (simp only: of_nat_le_iff)
  have "int (4 * unat (fb_width (tty_fb t))) \<le> int (unat (fb_pitch (tty_fb t)))"
    using g(1,2) by (simp add: describes_def geometry_ok_def)
  then show "4 * unat (fb_width (tty_fb t)) \<le> unat (fb_pitch (tty_fb t))" by (simp only: of_nat_le_iff)
  have "int 4 dvd int (unat (fb_pitch (tty_fb t)))"
    using g(1,2) by (simp add: describes_def geometry_ok_def)
  then show "4 dvd unat (fb_pitch (tty_fb t))" by (simp only: int_dvd_int_iff)
  show "unat (fb_address (tty_fb t)) + unat (fb_height (tty_fb t)) * unat (fb_pitch (tty_fb t)) \<le> 2 ^ 64"
    using assms by (simp add: tty_ok_def no_wrap_def)
  have "0 < uint (fb_pitch (tty_fb t))" using g(1,2) by (auto simp: describes_def geometry_ok_def)
  then show "0 < unat (fb_pitch (tty_fb t))" by (simp only: uint_nat of_nat_0_less_iff)
qed

text \<open>What the copy of terminal_scroll copies: as many bytes as the lines have pixels.\<close>

definition scroll_size :: "tty \<Rightarrow> nat" where
  "scroll_size t = 4 * unat (fb_width (tty_fb t)) * (unat (fb_height (tty_fb t)) - unat (cell_height t))"

lemma scroll_bound:
  assumes "tty_ok t"
  shows "unat (cell_height t) * unat (fb_pitch (tty_fb t)) + scroll_size t
    \<le> unat (fb_height (tty_fb t)) * unat (fb_pitch (tty_fb t))"
    and "scroll_size t < 2 ^ 64"
proof -
  note n = tty_ok_nat [OF assms]
  let ?c = "unat (cell_height t)" and ?P = "unat (fb_pitch (tty_fb t))" and ?H = "unat (fb_height (tty_fb t))"
  have "scroll_size t \<le> ?P * (?H - ?c)" unfolding scroll_size_def using n(3) by (rule mult_le_mono1)
  moreover have "?c * ?P + ?P * (?H - ?c) = ?H * ?P" using n(2)
    by (metis add_mult_distrib2 le_add_diff_inverse mult.commute)
  ultimately show le: "?c * ?P + scroll_size t \<le> ?H * ?P" by linarith
  have "0 < ?c * ?P" using n(1,6) by simp
  with le n(5) show "scroll_size t < 2 ^ 64" by linarith
qed

lemma scroll_words:
  assumes "tty_ok t"
  shows "unat (fb_height (tty_fb t) - ucast (cell_height t)) = unat (fb_height (tty_fb t)) - unat (cell_height t)"
    and "unat (fb_width (tty_fb t) * (fb_height (tty_fb t) - ucast (cell_height t)) * 4) = scroll_size t"
    and "(ucast (cell_height t) * (fb_pitch (tty_fb t) div 4) + 0) * 4 =
      of_nat (unat (cell_height t) * unat (fb_pitch (tty_fb t)))"
proof -
  note n = tty_ok_nat [OF assms]
  have "ucast (cell_height t) \<le> fb_height (tty_fb t)" using n(2) by (simp add: word_le_nat_alt)
  then show d: "unat (fb_height (tty_fb t) - ucast (cell_height t)) = unat (fb_height (tty_fb t)) - unat (cell_height t)"
    by (simp add: unat_sub)
  have "fb_width (tty_fb t) * (fb_height (tty_fb t) - ucast (cell_height t)) * 4 = of_nat (scroll_size t)"
    unfolding scroll_size_def d [symmetric] by (simp add: mult.commute mult.left_commute)
  then show "unat (fb_width (tty_fb t) * (fb_height (tty_fb t) - ucast (cell_height t)) * 4) = scroll_size t"
    using scroll_bound(2) [OF assms] by simp
  obtain q where q: "unat (fb_pitch (tty_fb t)) = 4 * q" using n(4) by blast
  have "unat (fb_pitch (tty_fb t) div 4) = q" using q by (simp add: unat_div_distrib)
  then have "fb_pitch (tty_fb t) div 4 = of_nat q" by (metis of_nat_unat ucast_id)
  then show "(ucast (cell_height t) * (fb_pitch (tty_fb t) div 4) + 0) * 4 =
      of_nat (unat (cell_height t) * unat (fb_pitch (tty_fb t)))"
    unfolding q by (simp add: mult.commute mult.left_commute)
qed


lemma scroll_copy:
  assumes "tty_ok t"
  defines "fb \<equiv> tty_fb t"
  shows "memmove m (fb_address fb + (0 * (fb_pitch fb div 4) + 0) * 4)
      (fb_address fb + (ucast (cell_height t) * (fb_pitch fb div 4) + 0) * 4)
      (fb_width fb * (fb_height fb - ucast (cell_height t)) * 4) a =
    (if in_region a (fb_address fb) (scroll_size t)
     then m (a + of_nat (unat (cell_height t) * unat (fb_pitch fb))) else m a)"
proof -
  note n = tty_ok_nat [OF assms(1), folded fb_def] and b = scroll_bound [OF assms(1), folded fb_def]
    and w = scroll_words [OF assms(1), folded fb_def]
  let ?k = "unat (cell_height t) * unat (fb_pitch fb)"
  have nw1: "no_wrap (fb_address fb) (scroll_size t)" using n(5) b(1) unfolding no_wrap_def by simp
  have nw2: "no_wrap (fb_address fb + of_nat ?k) (scroll_size t)"
  proof (cases "scroll_size t = 0")
    case True
    then show ?thesis by (simp add: no_wrap_def less_imp_le)
  next
    case False
    then have "?k < unat (fb_height fb) * unat (fb_pitch fb)" using b(1) by linarith
    moreover have "no_wrap (fb_address fb) (unat (fb_height fb) * unat (fb_pitch fb))" using n(5) by (simp add: no_wrap_def)
    ultimately have "unat (fb_address fb + of_nat ?k) = unat (fb_address fb) + ?k" by (metis no_wrap_unat)
    with n(5) b(1) show ?thesis unfolding no_wrap_def by simp
  qed
  have dst: "fb_address fb + (0 * (fb_pitch fb div 4) + 0) * 4 = fb_address fb" by simp
  have "memmove m (fb_address fb) (fb_address fb + of_nat ?k) sz a =
      (if in_region a (fb_address fb) (scroll_size t) then m (a + of_nat ?k) else m a)" if "unat sz = scroll_size t" for sz
    using memmove_region [of "fb_address fb" sz "fb_address fb + of_nat ?k" m a] nw1 nw2 unfolding that
    by (simp add: algebra_simps)
  from this [OF w(2)] show ?thesis unfolding dst w(3) .
qed

lemma scroll_mem:
  "tty_mem (terminal_scroll t) = clear_lines
    (memmove (tty_mem t) (fb_address (tty_fb t) + (0 * (fb_pitch (tty_fb t) div 4) + 0) * 4)
      (fb_address (tty_fb t) + (ucast (cell_height t) * (fb_pitch (tty_fb t) div 4) + 0) * 4)
      (fb_width (tty_fb t) * (fb_height (tty_fb t) - ucast (cell_height t)) * 4))
    (fb_address (tty_fb t)) (fb_width (tty_fb t)) (fb_height (tty_fb t))
    (unat (fb_height (tty_fb t) - ucast (cell_height t)))"
  by (simp add: terminal_scroll_def Let_def)

text \<open>Scrolling writes nothing outside the frame buffer, and puts the pen at the start of the last line.\<close>

lemma terminal_scroll_frame:
  assumes "tty_ok t"
  shows "a \<notin> fb_bytes (tty_fb t) \<Longrightarrow> tty_mem (terminal_scroll t) a = tty_mem t a"
    and "tty_ok (terminal_scroll t)"
    and "tty_fb (terminal_scroll t) = tty_fb t"
proof -
  show "tty_mem (terminal_scroll t) a = tty_mem t a" if a: "a \<notin> fb_bytes (tty_fb t)"
  proof -
    have "\<not> in_region a (fb_address (tty_fb t)) (scroll_size t)"
      using a scroll_bound(1) [OF assms] by (simp add: fb_bytes_def in_region_def)
    moreover have "geometry_ok (tty_dst t)" "describes (tty_dst t) (tty_fb t)" using assms by (simp_all add: tty_ok_def)
    ultimately show ?thesis unfolding scroll_mem
      by (simp only: clear_lines_in_fb [OF _ _ a] scroll_copy [OF assms] if_False)
  qed
  show "tty_ok (terminal_scroll t)"
    using assms by (auto simp: terminal_scroll_def Let_def tty_ok_def geometry_ok_def describes_def cell_height_def
        word_less_alt)
  show "tty_fb (terminal_scroll t) = tty_fb t" by (simp add: terminal_scroll_def Let_def)
qed


lemma load32_cong:
  assumes "\<And>i. i < 4 \<Longrightarrow> m (a + of_nat i) = m' (b + of_nat i)"
  shows "load32 m a = load32 m' b"
  by (rule bit_word_eqI) (simp add: bit_load32 assms less_mult_imp_div_less)

lemma scroll_copy_pixel:
  assumes ok: "tty_ok t" and packed: "unat (fb_pitch (tty_fb t)) = 4 * unat (fb_width (tty_fb t))"
    and on: "on_screen (tty_dst t) cx cy" and cy: "cy < dst_h (tty_dst t) - uint (cell_height t)"
    and m1: "\<And>a. m1 a = (if in_region a (fb_address (tty_fb t)) (scroll_size t)
     then m (a + of_nat (unat (cell_height t) * unat (fb_pitch (tty_fb t)))) else m a)"
  shows "load32 m1 (pixel (tty_dst t) cx cy) = load32 m (pixel (tty_dst t) cx (cy + uint (cell_height t)))"
proof (rule load32_cong)
  fix i :: nat assume i: "i < 4"
  let ?d = "tty_dst t" and ?fb = "tty_fb t"
  let ?a = "pixel ?d cx cy + of_nat i"
  have g: "geometry_ok ?d" "describes ?d ?fb" using ok by (simp_all add: tty_ok_def)
  then have addr: "dst_ptr ?d = fb_address ?fb" and p: "uint (dst_p ?d) = int (unat (fb_pitch ?fb))"
    and h: "dst_h ?d = int (unat (fb_height ?fb))"
    by (simp_all add: describes_def)
  have "int (unat (?a - fb_address ?fb)) = cy * uint (dst_p ?d) + 4 * cx + int i"
    using pixel_byte_offset [OF g(1) on i] addr by simp
  also have "\<dots> < cy * uint (dst_p ?d) + uint (dst_p ?d)" using g(1) on i by (auto simp: geometry_ok_def on_screen_def)
  also have "\<dots> = (cy + 1) * uint (dst_p ?d)" by (simp add: algebra_simps)
  also have "\<dots> \<le> (dst_h ?d - uint (cell_height t)) * uint (dst_p ?d)" using cy by (intro mult_right_mono) simp_all
  also have "\<dots> = int (unat (fb_height ?fb) - unat (cell_height t)) * int (unat (fb_pitch ?fb))"
    using tty_ok_nat(2) [OF ok] unfolding p h by (simp add: of_nat_diff)
  also have "\<dots> = int (scroll_size t)" unfolding scroll_size_def packed by simp
  finally have "in_region ?a (fb_address ?fb) (scroll_size t)" unfolding in_region_def by (simp only: of_nat_less_iff)
  moreover have "(of_nat (unat (cell_height t) * unat (fb_pitch ?fb)) :: u64) = word_of_int (uint (cell_height t) * uint (dst_p ?d))"
    unfolding p by (simp only: of_int_of_nat_eq uint_nat flip: of_nat_mult)
  ultimately have "m1 ?a = m (?a + word_of_int (uint (cell_height t) * uint (dst_p ?d)))" by (simp only: m1 if_True)
  moreover have "?a + word_of_int (uint (cell_height t) * uint (dst_p ?d)) = pixel ?d cx (cy + uint (cell_height t)) + of_nat i"
    by (simp add: pixel_def algebra_simps)
  ultimately show "m1 ?a = m (pixel ?d cx (cy + uint (cell_height t)) + of_nat i)" by (simp only:)
qed

text \<open>
  C37. Scrolling, when the lines of the frame buffer are adjacent (the pitch is four times the
  width): every line takes the place of the one a character height above it, the lines this
  leaves free at the bottom get the background colour, and the pen goes to the first column of
  the last line.
\<close>

theorem terminal_scroll_picture:
  assumes "tty_ok t" "unat (fb_pitch (tty_fb t)) = 4 * unat (fb_width (tty_fb t))"
  shows "screen (tty_dst t) (tty_mem (terminal_scroll t)) = (\<lambda>(cx, cy).
      if \<not> on_screen (tty_dst t) cx cy then None
      else if cy < dst_h (tty_dst t) - uint (cell_height t)
      then screen (tty_dst t) (tty_mem t) (cx, cy + uint (cell_height t))
      else Some COLORS_BG)
    \<and> dst_x (tty_dst (terminal_scroll t)) = 0
    \<and> dst_y (tty_dst (terminal_scroll t)) = dst_h (tty_dst t) - uint (cell_height t)"
proof (intro conjI)
  let ?d = "tty_dst t" and ?fb = "tty_fb t" and ?c = "uint (cell_height t)"
  have g: "geometry_ok ?d" "describes ?d ?fb" using assms(1) by (simp_all add: tty_ok_def)
  let ?y = "unat (fb_height ?fb - ucast (cell_height t))"
  have y: "int ?y = dst_h ?d - ?c"
    using tty_ok_nat(2) [OF assms(1)] g(2) unfolding scroll_words(1) [OF assms(1)]
    by (simp add: of_nat_diff describes_def)
  define m1 where "m1 = memmove (tty_mem t) (fb_address ?fb + (0 * (fb_pitch ?fb div 4) + 0) * 4)
      (fb_address ?fb + (ucast (cell_height t) * (fb_pitch ?fb div 4) + 0) * 4)
      (fb_width ?fb * (fb_height ?fb - ucast (cell_height t)) * 4)"
  have cp: "load32 m1 (pixel ?d cx cy) = load32 (tty_mem t) (pixel ?d cx (cy + ?c))"
    if "on_screen ?d cx cy" "cy < dst_h ?d - ?c" for cx cy
    by (rule scroll_copy_pixel [OF assms that]) (simp only: m1_def scroll_copy [OF assms(1)])
  have "int (unat (fb_pitch ?fb)) = int (4 * unat (fb_width ?fb))" by (simp only: assms(2))
  then have "uint (dst_p ?d) = 4 * uint (fb_width ?fb)" using g(2) by (simp add: describes_def)
  then have "paints ?d (\<lambda>(cx, cy). if int ?y \<le> cy \<and> on_screen ?d cx cy then Some COLORS_BG else None)
      m1 (tty_mem (terminal_scroll t))"
    unfolding scroll_mem m1_def using g(2) by (intro clear_lines_paints [OF g(1)]) (simp_all add: describes_def)
  then have sc: "screen ?d (tty_mem (terminal_scroll t)) = screen ?d m1 ++
      (\<lambda>(cx, cy). if dst_h ?d - ?c \<le> cy \<and> on_screen ?d cx cy then Some COLORS_BG else None)"
    unfolding y by (simp add: paints_def)
  have on: "on_screen ?d cx (cy + ?c)" if "on_screen ?d cx cy" "cy < dst_h ?d - ?c" for cx cy
    using that by (simp add: on_screen_def)
  show "screen ?d (tty_mem (terminal_scroll t)) = (\<lambda>(cx, cy).
      if \<not> on_screen ?d cx cy then None
      else if cy < dst_h ?d - ?c then screen ?d (tty_mem t) (cx, cy + ?c) else Some COLORS_BG)"
    unfolding sc using cp on by (auto simp: fun_eq_iff screen_def map_add_def split: option.split)
qed (simp_all add: terminal_scroll_def Let_def)


section \<open>The invariant\<close>

lemma cell_height_cong: "tty_font t' = tty_font t \<Longrightarrow> cell_height t' = cell_height t"
  by (simp add: cell_height_def)

text \<open>One character: the state before the check for the bottom of the screen.\<close>

definition put_step :: "u8 \<Rightarrow> tty \<Rightarrow> tty" where
  "put_step c t =
     (let h = uint (cell_height t) in
      if c = 0x0A then t\<lparr>tty_dst := (tty_dst t)\<lparr>dst_x := 0, dst_y := dst_y (tty_dst t) + h\<rparr>\<rparr>
      else
        let (r, d, m) = ssfn_putc (ucast c) (Some (tty_font t)) (tty_dst t, tty_mem t);
            d' = (if dst_x d \<ge> dst_w d then
                    let y' = dst_y d + h in d\<lparr>dst_x := 0, dst_y := (if y' = dst_h d then 0 else y')\<rparr>
                  else d)
        in t\<lparr>tty_dst := d', tty_mem := m\<rparr>)"

lemma terminal_putchar_step:
  "terminal_putchar c t = (let t1 = put_step c t in if dst_y (tty_dst t1) \<ge> dst_h (tty_dst t1) then terminal_scroll t1 else t1)"
  by (simp add: terminal_putchar_def put_step_def Let_def)

text \<open>What put_step keeps: all of the invariant but the lower bound of the screen.\<close>

lemma put_step_keeps:
  fixes c :: u8
  assumes ok: "tty_ok t"
  defines "d \<equiv> tty_dst t" and "d' \<equiv> tty_dst (put_step c t)"
  shows "d' = d\<lparr>dst_x := dst_x d', dst_y := dst_y d'\<rparr>" "0 \<le> dst_x d'" "dst_x d' < dst_w d" "0 \<le> dst_y d'"
    and "tty_fb (put_step c t) = tty_fb t" "tty_font (put_step c t) = tty_font t"
    and "a \<notin> screen_bytes d \<Longrightarrow> tty_mem (put_step c t) a = tty_mem t a"
proof -
  have g: "geometry_ok d" "0 \<le> dst_x d" "0 \<le> dst_y d" "dst_x d < dst_w d" using ok by (simp_all add: tty_ok_def d_def)
  obtain r e m where put: "ssfn_putc (ucast c) (Some (tty_font t)) (d, tty_mem t) = (r, e, m)" by (metis prod_cases3)
  note fr = ssfn_putc_frame [OF g(1-3), where unicode = "ucast c" and src = "Some (tty_font t)" and m = "tty_mem t", unfolded put split]
  have "e = d\<lparr>dst_x := dst_x e, dst_y := dst_y e\<rparr>" "0 \<le> dst_x e" "0 \<le> dst_y e"
    using fr g by (auto split: if_splits)
  then obtain ex ey where e: "e = d\<lparr>dst_x := ex, dst_y := ey\<rparr>" "0 \<le> ex" "0 \<le> ey" by metis
  have w0: "0 < dst_w d" using g(1) by (simp add: geometry_ok_def)
  have h0: "0 \<le> uint (cell_height t)" by simp
  show "tty_fb (put_step c t) = tty_fb t" "tty_font (put_step c t) = tty_font t"
    unfolding put_step_def Let_def put [unfolded d_def] split by simp_all
  show "tty_mem (put_step c t) a = tty_mem t a" if "a \<notin> screen_bytes d"
    using fr that unfolding put_step_def Let_def put [unfolded d_def] split by simp
  show "d' = d\<lparr>dst_x := dst_x d', dst_y := dst_y d'\<rparr>"
    unfolding d'_def put_step_def Let_def put [unfolded d_def] split by (cases "c = 0x0A") (simp_all add: e(1) d_def)
  show "0 \<le> dst_x d'" "dst_x d' < dst_w d" "0 \<le> dst_y d'"
    unfolding d'_def put_step_def Let_def put [unfolded d_def] split
    using e(2,3) w0 h0 g by (auto simp: e(1) d_def [symmetric])
qed

lemma terminal_putchar_ok:
  assumes ok: "tty_ok t"
  shows "tty_ok (terminal_putchar c t)" "tty_fb (terminal_putchar c t) = tty_fb t"
    "tty_font (terminal_putchar c t) = tty_font t"
    and "a \<notin> fb_bytes (tty_fb t) \<Longrightarrow> tty_mem (terminal_putchar c t) a = tty_mem t a"
proof -
  let ?t1 = "put_step c t"
  note k = put_step_keeps [OF ok, where c = c]
  have f: "dst_ptr (tty_dst ?t1) = dst_ptr (tty_dst t)" "dst_w (tty_dst ?t1) = dst_w (tty_dst t)"
    "dst_h (tty_dst ?t1) = dst_h (tty_dst t)" "dst_p (tty_dst ?t1) = dst_p (tty_dst t)"
    by (subst k(1), simp)+
  have "screen_bytes (tty_dst t) \<subseteq> fb_bytes (tty_fb t)" using ok by (simp add: tty_ok_def screen_in_fb)
  then have mem1: "tty_mem ?t1 a = tty_mem t a" if "a \<notin> fb_bytes (tty_fb t)" for a using k(7) that by blast
  show "tty_fb (terminal_putchar c t) = tty_fb t" "tty_font (terminal_putchar c t) = tty_font t"
    using k(5,6) by (simp_all add: terminal_putchar_step Let_def terminal_scroll_def)
  have "tty_ok (terminal_putchar c t) \<and> (a \<notin> fb_bytes (tty_fb t) \<longrightarrow> tty_mem (terminal_putchar c t) a = tty_mem t a)"
  proof (cases "dst_y (tty_dst ?t1) \<ge> dst_h (tty_dst ?t1)")
    case False
    then have "tty_ok ?t1" using ok k(2-6) f cell_height_cong [OF k(6)]
      by (auto simp: tty_ok_def geometry_ok_def describes_def)
    with False mem1 show ?thesis by (simp add: terminal_putchar_step Let_def)
  next
    case True
    let ?t2 = "?t1\<lparr>tty_dst := (tty_dst ?t1)\<lparr>dst_y := 0\<rparr>\<rparr>"
    have "0 < dst_h (tty_dst t)" using ok by (simp add: tty_ok_def geometry_ok_def)
    then have ok2: "tty_ok ?t2" using ok k(2-6) f cell_height_cong [of ?t2 t]
      by (auto simp: tty_ok_def geometry_ok_def describes_def)
    have same: "terminal_scroll ?t2 = terminal_scroll ?t1" by (simp add: terminal_scroll_def Let_def cell_height_def)
    have "tty_ok (terminal_scroll ?t1)" using terminal_scroll_frame(2) [OF ok2] unfolding same .
    moreover have "tty_mem (terminal_scroll ?t1) a = tty_mem t a" if "a \<notin> fb_bytes (tty_fb t)"
      using terminal_scroll_frame(1) [OF ok2, unfolded same, of a] that k(5) mem1 by simp
    ultimately show ?thesis using True by (simp add: terminal_putchar_step Let_def)
  qed
  then show "tty_ok (terminal_putchar c t)"
    "a \<notin> fb_bytes (tty_fb t) \<Longrightarrow> tty_mem (terminal_putchar c t) a = tty_mem t a" by simp_all
qed

text \<open>So the terminal keeps the contract of a screen, for every write and every call of printf.\<close>

interpretation fbtty: char_screen terminal_putchar tty_ok "\<lambda>t. (tty_fb t, tty_font t)" tty_mem "\<lambda>f. fb_bytes (fst f)"
  by unfold_locales (simp_all add: terminal_putchar_ok)

lemma terminal_write_ok:
  "tty_ok t \<Longrightarrow> tty_ok (terminal_write bs t) \<and> tty_fb (terminal_write bs t) = tty_fb t \<and>
    tty_font (terminal_write bs t) = tty_font t \<and> (\<forall>a. a \<notin> fb_bytes (tty_fb t) \<longrightarrow> tty_mem (terminal_write bs t) a = tty_mem t a)"
  using fbtty.drawn_write [of t bs] by (simp add: terminal_write_def fbtty.drawn_def)

lemma terminal_out_char: "putchar_char terminal_write_char = terminal_putchar"
  by (simp add: fun_eq_iff putchar_char_id terminal_write_char_def terminal_write_def)

lemma terminal_char_write: "fold (putchar_char terminal_write_char) cs t = terminal_write cs t"
  by (simp add: terminal_out_char terminal_write_def)

lemma title_card_plain: "\<forall>line\<in>set title_card. \<forall>c\<in>set (bytes_of line). c \<noteq> 0 \<and> c \<noteq> 0x25"
  by code_simp


lemma set_text_color_ok: "tty_ok t \<Longrightarrow> tty_ok (terminal_set_text_color c t)"
  by (auto simp: tty_ok_def terminal_set_text_color_def geometry_ok_def describes_def cell_height_def)

lemma print_cards_ok:
  assumes "\<forall>line\<in>set ls. \<forall>c\<in>set (bytes_of line). c \<noteq> 0 \<and> c \<noteq> 0x25"
  shows "tty_ok t \<Longrightarrow> \<exists>t'. print_cards i ls t = Inr t' \<and> tty_ok t' \<and> tty_fb t' = tty_fb t \<and> tty_font t' = tty_font t \<and>
    (\<forall>a. a \<notin> fb_bytes (tty_fb t) \<longrightarrow> tty_mem t' a = tty_mem t a)"
  using assms
proof (induction ls arbitrary: i t)
  case (Cons line ls)
  let ?t1 = "terminal_set_text_color (0xff0000 + of_nat i * (0xffffff div 8)) t"
  let ?t2 = "terminal_write (bytes_of line) ?t1"
  have ok1: "tty_ok ?t1" by (rule set_text_color_ok [OF Cons.prems(1)])
  have same: "tty_fb ?t1 = tty_fb t" "tty_font ?t1 = tty_font t" "tty_mem ?t1 = tty_mem t"
    by (simp_all add: terminal_set_text_color_def)
  note w = terminal_write_ok [OF ok1, of "bytes_of line", unfolded same]
  have p: "printf (putchar_char terminal_write_char) (lit line) [] ?t1 = Inr (ucast (of_nat (length (bytes_of line)) :: u64), ?t2)"
    unfolding lit_def terminal_char_write [symmetric] using Cons.prems(2) by (intro printf_plain) simp
  obtain t' where "print_cards (Suc i) ls ?t2 = Inr t' \<and> tty_ok t' \<and> tty_fb t' = tty_fb ?t2 \<and> tty_font t' = tty_font ?t2 \<and>
      (\<forall>a. a \<notin> fb_bytes (tty_fb ?t2) \<longrightarrow> tty_mem t' a = tty_mem ?t2 a)"
    using Cons.IH [of ?t2 "Suc i"] Cons.prems(2) w by auto
  with w p show ?case by (intro exI [of _ t']) (simp add: Let_def)
qed simp

lemma terminal_putchar_console [simp]: "tty_console (terminal_putchar c t) = tty_console t"
  by (simp add: terminal_putchar_def terminal_scroll_def Let_def split: prod.split)

lemma terminal_write_console [simp]: "tty_console (terminal_write bs t) = tty_console t"
  by (induction bs arbitrary: t) (simp_all add: terminal_write_def)

lemma print_cards_console: "print_cards i ls t = Inr t' \<Longrightarrow> tty_console t' = tty_console t"
proof (induction ls arbitrary: i t)
  case (Cons line ls)
  let ?t1 = "terminal_set_text_color (0xff0000 + of_nat i * (0xffffff div 8)) t"
  obtain n t2 where t2: "printf (putchar_char terminal_write_char) (lit line) [] ?t1 = Inr (n, t2)" "print_cards (Suc i) ls t2 = Inr t'"
    using Cons.prems by (auto simp: Let_def rbind_Inr_iff)
  then have "tty_console t2 = tty_console ?t1" by (auto simp: printf_render rbind_Inr_iff terminal_char_write)
  with Cons.IH [OF t2(2)] show ?case by (simp add: terminal_set_text_color_def)
qed simp

text \<open>A frame buffer the terminal can use, with a font whose characters are lower than it.\<close>

definition fb_usable :: "limine_framebuffer \<Rightarrow> font \<Rightarrow> bool" where
  "fb_usable fb f \<longleftrightarrow> 0 < fb_width fb \<and> fb_width fb < 0x80000000 \<and> fb_height fb < 0x80000000 \<and>
     4 * unat (fb_width fb) \<le> unat (fb_pitch fb) \<and> unat (fb_pitch fb) < 0x10000 \<and> 4 dvd unat (fb_pitch fb) \<and>
     unat (fb_address fb) + unat (fb_height fb) * unat (fb_pitch fb) \<le> 2 ^ 64 \<and>
     0 < font_height (ssfn_header f) \<and> unat (font_height (ssfn_header f)) \<le> unat (fb_height fb)"

lemma small_int: "unat (w :: u64) < 0x80000000 \<Longrightarrow> sint (ucast w :: u32) = int (unat w)"
proof -
  assume w: "unat w < 0x80000000"
  then have u: "unat (ucast w :: u32) = unat w" by (simp add: unsigned_ucast_eq take_bit_nat_eq_self)
  have "int (unat (ucast w :: u32)) = int (unat w)" by (simp only: u)
  then have "uint (ucast w :: u32) = uint w" by simp
  moreover have "int (unat w) < int 0x80000000" using w by (simp only: of_nat_less_iff)
  moreover have "- (2 ^ 31) \<le> uint w" by (rule order_trans [of _ 0]) simp_all
  ultimately show ?thesis by (simp add: sint_uint signed_take_bit_int_eq_self)
qed

lemma terminal_start_ok:
  fixes d0 :: ssfn_buf_t
  assumes "fb_usable fb f"
  defines "d \<equiv> d0\<lparr>dst_ptr := fb_address fb, dst_w := sint (ucast (fb_width fb) :: u32),
      dst_h := sint (ucast (fb_height fb) :: u32), dst_p := ucast (fb_pitch fb), dst_x := 0, dst_y := 0\<rparr>"
  shows "tty_ok (terminal_reset_text_color \<lparr>tty_mem = m, tty_dst = d, tty_font = f, tty_fb = fb, tty_console = c\<rparr>)"
proof -
  let ?W = "unat (fb_width fb)" and ?H = "unat (fb_height fb)" and ?P = "unat (fb_pitch fb)"
  have u: "0 < ?W" "?W < 0x80000000" "?H < 0x80000000" "4 * ?W \<le> ?P" "?P < 0x10000" "4 dvd ?P"
    "unat (fb_address fb) + ?H * ?P \<le> 2 ^ 64" "0 < unat (font_height (ssfn_header f))"
    "unat (font_height (ssfn_header f)) \<le> ?H"
    using assms(1) by (auto simp: fb_usable_def word_less_nat_alt unat_gt_0)
  have p: "unat (ucast (fb_pitch fb) :: u16) = ?P" using u(5) by (simp add: unsigned_ucast_eq take_bit_nat_eq_self)
  have up: "uint (ucast (fb_pitch fb) :: u16) = int ?P" by (simp only: uint_nat p)
  have ints: "int 0 < int ?W" "int 0 < int ?H" "4 * int ?W \<le> int ?P" "int 4 dvd int ?P" "int ?H * int ?P \<le> 2 ^ 64"
    "int (unat (font_height (ssfn_header f))) \<le> int ?H"
  proof -
    have "?H * ?P \<le> 2 ^ 64" using u(7) by linarith
    then have "int (?H * ?P) \<le> int (2 ^ 64)" by (simp only: of_nat_le_iff)
    then show "int ?H * int ?P \<le> 2 ^ 64" by (simp only: of_nat_mult of_nat_power of_nat_numeral)
    show "int 4 dvd int ?P" using u(6) by (simp only: int_dvd_int_iff)
    show "4 * int ?W \<le> int ?P" using u(4) by linarith
  qed (use u in \<open>simp_all only: of_nat_less_iff of_nat_le_iff\<close>, linarith?)
  have "no_wrap (fb_address fb) (?H * ?P)" using u(7) by (simp add: no_wrap_def)
  moreover have "0 < font_height (ssfn_header f)" using u(8) by (simp add: word_less_nat_alt)
  ultimately show ?thesis
    using ints by (simp add: tty_ok_def geometry_ok_def describes_def terminal_reset_text_color_def d_def cell_height_def
        small_int [OF u(2)] small_int [OF u(3)] up)
qed


lemma terminal_initialize_starts:
  assumes "framebuffer_count r \<noteq> 0" "fb_usable (hd (framebuffers r)) f"
  shows "\<exists>t. terminal_initialize f (Some r) d m = Inr t \<and> tty_ok t \<and> tty_fb t = hd (framebuffers r) \<and> tty_font t = f \<and>
      {a. tty_mem t a \<noteq> m a} \<subseteq> fb_bytes (hd (framebuffers r)) \<and> tty_console t = [ULOG_INFO ''Success, Terminal initialized.'' []]"
proof -
  let ?fb = "hd (framebuffers r)"
  let ?d = "d\<lparr>dst_ptr := fb_address ?fb, dst_w := sint (ucast (fb_width ?fb) :: u32),
      dst_h := sint (ucast (fb_height ?fb) :: u32), dst_p := ucast (fb_pitch ?fb), dst_x := 0, dst_y := 0\<rparr>"
  let ?t0 = "terminal_reset_text_color \<lparr>tty_mem = m, tty_dst = ?d, tty_font = f, tty_fb = ?fb, tty_console = []\<rparr>"
  let ?t1 = "?t0\<lparr>tty_mem := clear_lines m (fb_address ?fb) (fb_width ?fb) (fb_height ?fb) 0\<rparr>"
  have ok0: "tty_ok ?t0" by (rule terminal_start_ok [OF assms(2)])
  then have ok1: "tty_ok ?t1" by (simp add: tty_ok_def cell_height_def)
  have f1: "tty_fb ?t1 = ?fb" "tty_font ?t1 = f" "tty_mem ?t0 = m" "tty_fb ?t0 = ?fb"
    by (simp_all add: terminal_reset_text_color_def)
  have m1: "tty_mem ?t1 a = m a" if "a \<notin> fb_bytes ?fb" for a
    using ok0 that f1(4) clear_lines_in_fb [of "tty_dst ?t0" ?fb a m 0] by (simp add: tty_ok_def)
  obtain t2 where t2: "print_cards 0 title_card ?t1 = Inr t2" "tty_ok t2" "tty_fb t2 = ?fb" "tty_font t2 = f"
    "\<forall>a. a \<notin> fb_bytes ?fb \<longrightarrow> tty_mem t2 a = tty_mem ?t1 a"
    using print_cards_ok [OF title_card_plain ok1, of 0] f1 by auto
  let ?t = "t2\<lparr>tty_console := tty_console t2 @ [ULOG_INFO ''Success, Terminal initialized.'' []]\<rparr>"
  have "\<not> framebuffer_count r < 1" using assms(1) by (metis word_less_1)
  then have "terminal_initialize f (Some r) d m = Inr ?t" using t2(1) by (simp add: terminal_initialize_def Let_def)
  moreover have "tty_ok ?t" using t2(2) by (simp add: tty_ok_def cell_height_def)
  moreover have "{a. tty_mem ?t a \<noteq> m a} \<subseteq> fb_bytes ?fb" using t2(5) m1 by auto
  moreover have cons: "tty_console t2 = []"
    using print_cards_console [OF t2(1)] by (simp add: terminal_reset_text_color_def)
  ultimately show "\<exists>t. terminal_initialize f (Some r) d m = Inr t \<and> tty_ok t \<and> tty_fb t = ?fb \<and> tty_font t = f \<and>
      {a. tty_mem t a \<noteq> m a} \<subseteq> fb_bytes ?fb \<and> tty_console t = [ULOG_INFO ''Success, Terminal initialized.'' []]"
    using t2(3,4) cons by (intro exI [of _ ?t]) simp
qed

section \<open>Properties\<close>

text \<open>
  The start of the terminal.  Without a frame buffer the kernel halts.  With a usable one
  terminal_initialize returns, having printed the title card: the terminal is in a state where
  the pen is on the screen (the invariant of everything it does later), and no byte outside the
  frame buffer was written.
\<close>

theorem terminal_initialize_ok:
  assumes "framebuffer_count r \<noteq> 0" "fb_usable (hd (framebuffers r)) f"
  shows "terminal_initialize f None d m = Inl Halts \<and>
    (\<exists>t. terminal_initialize f (Some r) d m = Inr t \<and> tty_ok t \<and> tty_fb t = hd (framebuffers r) \<and> tty_font t = f \<and>
      {a. tty_mem t a \<noteq> m a} \<subseteq> fb_bytes (hd (framebuffers r)))"
  using terminal_initialize_starts [OF assms, of d m] by (auto simp: terminal_initialize_def [of f None])

text \<open>
  C11. The invariant of the terminal: whatever bytes are written, the pen stays on the screen, the
  terminal goes on describing the same frame buffer and font, and nothing outside the frame
  buffer changes.
\<close>

theorem terminal_write_invariant:
  assumes "tty_ok t"
  shows "tty_ok (terminal_write bs t) \<and> tty_fb (terminal_write bs t) = tty_fb t \<and>
    {a. tty_mem (terminal_write bs t) a \<noteq> tty_mem t a} \<subseteq> fb_bytes (tty_fb t)"
  using terminal_write_ok [OF assms, of bs] by auto

text \<open>
  The end of the last line.  When a character reaches the right edge in the last line of a
  screen of whole lines, the pen goes to the top left corner and nothing is scrolled: the memory
  is what ssfn_putc left.  A newline there would have scrolled.
\<close>

theorem terminal_wraps_to_top:
  assumes "tty_ok t" "c \<noteq> 0x0A" "dst_y (tty_dst t) + uint (cell_height t) = dst_h (tty_dst t)"
    and "ssfn_putc (ucast c) (Some (tty_font t)) (tty_dst t, tty_mem t) = (SSFN_OK, d, m)"
    and "dst_w (tty_dst t) \<le> dst_x d" "dst_y d = dst_y (tty_dst t)"
  shows "dst_x (tty_dst (terminal_putchar c t)) = 0 \<and> dst_y (tty_dst (terminal_putchar c t)) = 0 \<and>
    tty_mem (terminal_putchar c t) = m \<and>
    terminal_putchar 0x0A t = terminal_scroll (t\<lparr>tty_dst := (tty_dst t)\<lparr>dst_x := 0, dst_y := dst_h (tty_dst t)\<rparr>\<rparr>)"
proof -
  have g: "geometry_ok (tty_dst t)" "0 \<le> dst_x (tty_dst t)" "0 \<le> dst_y (tty_dst t)" using assms(1) by (simp_all add: tty_ok_def)
  have "dst_w d = dst_w (tty_dst t)" "dst_h d = dst_h (tty_dst t)"
    using ssfn_putc_frame [OF g, where unicode = "ucast c" and src = "Some (tty_font t)" and m = "tty_mem t"] by (auto simp: assms(4))
  moreover have "0 < dst_h (tty_dst t)" using g(1) by (simp add: geometry_ok_def)
  ultimately show ?thesis using assms(2-6) by (simp add: terminal_putchar_def Let_def)
qed

section \<open>A small terminal\<close>

definition tiny_fb :: limine_framebuffer where
  "tiny_fb = \<lparr>fb_address = 0x1000, fb_width = 8, fb_height = 2, fb_pitch = 32, fb_bpp = 32, fb_memory_model = 1,
     fb_red_mask_size = 8, fb_red_mask_shift = 16, fb_green_mask_size = 8, fb_green_mask_shift = 8,
     fb_blue_mask_size = 8, fb_blue_mask_shift = 0, fb_edid_size = 0, fb_edid = 0, fb_mode_count = 0, fb_modes = 0\<rparr>"

definition tiny_tty :: tty where
  "tiny_tty = \<lparr>tty_mem = (\<lambda>_. 0), tty_dst = tiny_screen, tty_font = tiny_font, tty_fb = tiny_fb, tty_console = []\<rparr>"

lemma tiny_height: "font_height (ssfn_header tiny_font) = 1"
  by code_simp

lemma tiny_tty_ok: "tty_ok tiny_tty"
  using tiny_ok(1) by (simp add: tty_ok_def tiny_tty_def cell_height_def tiny_height describes_def tiny_fb_def no_wrap_def)
    (simp add: tiny_screen_def)

theorem terminal_initialize_ok_witness:
  "\<exists>t. terminal_initialize tiny_font (Some \<lparr>fbr_revision = 0, framebuffer_count = 1, framebuffers = [tiny_fb]\<rparr>)
    tiny_screen (\<lambda>_. 0) = Inr t \<and> tty_ok t"
proof -
  have "fb_usable tiny_fb tiny_font" by (simp add: fb_usable_def tiny_fb_def tiny_height)
  with terminal_initialize_ok [of "\<lparr>fbr_revision = 0, framebuffer_count = 1, framebuffers = [tiny_fb]\<rparr>"
    tiny_font tiny_screen "\<lambda>_. 0"] show ?thesis by auto
qed

theorem terminal_write_invariant_witness: "tty_ok (terminal_write (bytes_of ''Hello'') tiny_tty)"
  using terminal_write_invariant [OF tiny_tty_ok] by blast

theorem terminal_scroll_picture_witness:
  "screen tiny_screen (tty_mem (terminal_scroll tiny_tty)) (3, 1) = Some COLORS_BG \<and>
   screen tiny_screen (tty_mem (terminal_scroll tiny_tty)) (3, 0) = Some 0"
proof -
  have z: "load32 (\<lambda>_. 0) a = 0" for a by (rule bit_word_eqI) (simp add: bit_load32)
  have p: "unat (fb_pitch (tty_fb tiny_tty)) = 4 * unat (fb_width (tty_fb tiny_tty))" by (simp add: tiny_tty_def tiny_fb_def)
  have "on_screen tiny_screen 3 1" "on_screen tiny_screen 3 0" by (simp_all add: on_screen_def tiny_screen_def)
  moreover have "dst_h tiny_screen = 2" by (simp add: tiny_screen_def)
  ultimately show ?thesis using terminal_scroll_picture [OF tiny_tty_ok p]
    by (simp add: tiny_tty_def cell_height_def tiny_height screen_def z)
qed


theorem terminal_wraps_to_top_witness:
  "let t = tiny_tty\<lparr>tty_dst := tiny_screen\<lparr>dst_y := 1\<rparr>\<rparr> in
   dst_x (tty_dst (terminal_putchar 0x41 t)) = 0 \<and> dst_y (tty_dst (terminal_putchar 0x41 t)) = 0"
proof -
  let ?t = "tiny_tty\<lparr>tty_dst := tiny_screen\<lparr>dst_y := 1\<rparr>\<rparr>"
  have ok: "tty_ok ?t" using tiny_tty_ok
    by (auto simp: tty_ok_def tiny_tty_def cell_height_def geometry_ok_def describes_def tiny_screen_def)
  have magic: "tiny_font 0 = 0x53" "tiny_font 1 = 0x46" "tiny_font 2 = 0x4E" "tiny_font 3 = 0x32"
    and adv: "tiny_font 38 = 8" "tiny_font 39 = 0" by code_simp+
  have "\<exists>m. ssfn_putc (ucast (0x41 :: u8)) (Some tiny_font) (tty_dst ?t, tty_mem ?t) =
      (SSFN_OK, (tty_dst ?t)\<lparr>dst_x := 8, dst_y := 1\<rparr>, m)"
    using tiny_glyph(2) by (simp add: ssfn_putc_def magic adv Let_def tiny_screen_def split: prod.split)
  then obtain m where m: "ssfn_putc (ucast (0x41 :: u8)) (Some tiny_font) (tty_dst ?t, tty_mem ?t) =
      (SSFN_OK, (tty_dst ?t)\<lparr>dst_x := 8, dst_y := 1\<rparr>, m)" ..
  show ?thesis
    using terminal_wraps_to_top [OF ok, of "0x41"] m
    by (simp add: tiny_tty_def cell_height_def tiny_height tiny_screen_def)
qed

end
