(* ===== verification/Klog.thy ===== *)
theory Klog
  imports Ulog Serial Terminal_Screen
begin

text \<open>
  The two subscribers of the kernel's log (kernel/arch/x86_64/log/klog.c) and the state they
  write to: the terminal on the frame buffer and the first serial port.  Together with the table
  of theory Ulog they are the log the other components call; here the calls of theory Console
  get their meaning.

  serial_buf is a local array: it lies at an address of the stack, whose former contents are a
  parameter, and is dead when serial_log returns.  s_message is the static buffer of ulog.c.
\<close>

section \<open>State\<close>

datatype log_function = Kernel_Log | Serial_Log

record kernel =
  k_tty :: tty
  k_serial :: serial
  k_subscribers :: "log_function subscriber_t list"
  k_log_mem :: mem

record log_env =
  env_dev :: device
  env_stack :: mem
  serial_buf :: u64
  s_message :: u64

section \<open>Operations\<close>

definition SERIAL_LOG_BUF_SIZE :: nat where [simp]: "SERIAL_LOG_BUF_SIZE = 256"

definition serial_log :: "log_env \<Rightarrow> ulog_level_t \<Rightarrow> u8 list \<Rightarrow> kernel \<Rightarrow> kernel outcome" where
  "serial_log env severity msg k =
     (if \<not> is_serial_initialized (k_serial k) then Inr k
      else
        rbind (snprintf (serial_buf env) (of_nat SERIAL_LOG_BUF_SIZE) (lit ''[%s]: %s\<newline>'')
                 [Str (lit (ulog_level_name severity)), Str msg] (env_stack env)) (\<lambda>(n, m).
        rbind (serial_write (env_dev env) (array_at m (serial_buf env) SERIAL_LOG_BUF_SIZE) SERIAL_COM1 (io (k_serial k)))
          (\<lambda>p. Inr (k\<lparr>k_serial := (k_serial k)\<lparr>io := p\<rparr>\<rparr>))))"

definition kernel_log :: "ulog_level_t \<Rightarrow> u8 list \<Rightarrow> kernel \<Rightarrow> kernel outcome" where
  "kernel_log severity msg k =
     (let t = k_tty k;
          t1 = (if severity = ULOG_INFO_LEVEL then terminal_set_text_color COLORS_GREEN t
                else if severity = ULOG_WARNING_LEVEL then terminal_set_text_color COLORS_YELLOW t
                else if severity = ULOG_DEBUG_LEVEL then terminal_set_text_color COLORS_BLUE t
                else if severity = ULOG_CRITICAL_LEVEL then terminal_set_text_color COLORS_RED t
                else t)
      in rbind (printf (putchar_char terminal_write_char) (lit ''[%s]: '') [Str (lit (ulog_level_name severity))] t1) (\<lambda>(n, t2).
         rbind (printf (putchar_char terminal_write_char) (lit ''%s\<newline>'') [Str msg] t2) (\<lambda>(n, t3).
           Inr (k\<lparr>k_tty := terminal_reset_text_color t3\<rparr>))))"

text \<open>A call through the table.\<close>

fun call_subscriber :: "log_env \<Rightarrow> log_function \<Rightarrow> ulog_level_t \<Rightarrow> u8 list \<Rightarrow> kernel \<Rightarrow> kernel outcome" where
  "call_subscriber env Kernel_Log severity msg k = kernel_log severity msg k"
| "call_subscriber env Serial_Log severity msg k = serial_log env severity msg k"

definition log_initialize :: "kernel \<Rightarrow> kernel" where
  "log_initialize k =
     (let s0 = ulog_init;
          s1 = snd (ulog_subscribe (Some Kernel_Log) ULOG_INFO_LEVEL s0);
          s2 = snd (ulog_subscribe (Some Serial_Log) ULOG_DEBUG_LEVEL s1)
      in k\<lparr>k_subscribers := s2\<rparr>)"

text \<open>ulog_message on the state of the kernel; the subscribers do not touch the table or its buffer.\<close>

definition log_message :: "log_env \<Rightarrow> ulog_level_t \<Rightarrow> u8 list \<Rightarrow> varg list \<Rightarrow> kernel \<Rightarrow> kernel outcome" where
  "log_message env severity fmt va k =
     rbind (ulog_message (call_subscriber env) (s_message env) severity fmt va (k_subscribers k) (k_log_mem k) k)
       (\<lambda>(m, k'). Inr (k'\<lparr>k_log_mem := m\<rparr>))"

section \<open>The line of a message\<close>

definition log_line :: "ulog_level_t \<Rightarrow> u8 list \<Rightarrow> u8 list" where
  "log_line severity text = bytes_of ''['' @ bytes_of (ulog_level_name severity) @ bytes_of '']: '' @ text @ [0x0A]"

definition severity_color :: "ulog_level_t \<Rightarrow> tty \<Rightarrow> tty" where
  "severity_color severity t =
     (case map_of [(ULOG_DEBUG_LEVEL, COLORS_BLUE), (ULOG_INFO_LEVEL, COLORS_GREEN),
         (ULOG_WARNING_LEVEL, COLORS_YELLOW), (ULOG_CRITICAL_LEVEL, COLORS_RED)] severity of
        None \<Rightarrow> t | Some c \<Rightarrow> terminal_set_text_color c t)"

text \<open>What the subscribers read of a text: the buffer takes 119 characters, and a NUL among them ends it.\<close>

definition log_text :: "u8 list \<Rightarrow> u8 list" where
  "log_text t = takeWhile (\<lambda>c. c \<noteq> 0) (take 119 t)"

lemma log_text_no_nul: "0 \<notin> set (log_text t)"
  by (auto simp: log_text_def dest: set_takeWhileD)

lemma log_text_short: "length (log_text t) < 120"
  using length_takeWhile_le [of "\<lambda>c. c \<noteq> 0" "take 119 t"] by (simp add: log_text_def)

lemma log_text_plain: "0 \<notin> set t \<Longrightarrow> log_text t = take 119 t"
  by (metis (mono_tags, lifting) in_set_takeD log_text_def takeWhile_eq_all_conv)

lemma message_array: "\<exists>r. array_at (stored b 120 t m) b 120 = log_text t @ 0 # r"
proof -
  let ?u = "take 119 t"
  obtain r where r: "array_at (stored b 120 t m) b 120 = ?u @ 0 # r"
    using array_at_stored_cut [of 120 b t m] by auto
  show ?thesis
  proof (cases "0 \<in> set ?u")
    case True
    then obtain x y where u: "?u = x @ 0 # y" "0 \<notin> set x" by (metis split_list_first)
    then have "log_text t = x" by (auto simp: log_text_def takeWhile_tail)
    with u r show ?thesis by simp
  next
    case False
    then have "log_text t = ?u" unfolding log_text_def by (metis (mono_tags, lifting) takeWhile_eq_all_conv)
    with r show ?thesis by simp
  qed
qed

lemma level_name_no_nul: "0 \<notin> set (bytes_of (ulog_level_name severity))"
  by (simp add: ulog_level_name_def bytes_of_def of_char_def)

lemma level_name_short: "length (bytes_of (ulog_level_name severity)) \<le> 8"
  by (simp add: ulog_level_name_def bytes_of_def)

lemma log_line_no_nul: "0 \<notin> set text \<Longrightarrow> 0 \<notin> set (log_line severity text)"
  using level_name_no_nul [of severity] by (simp add: log_line_def bytes_of_def of_char_def)

text \<open>A string directive in a format.\<close>

lemma render_string:
  assumes "0 \<notin> set str"
  shows "render (0x25 # 0x73 # fmt) (Str (str @ 0 # r) # va) = rbind (render fmt va) (\<lambda>t. Inr (str @ t))"
  by (cases "render fmt va") (simp_all add: directive_string [OF assms])

lemma render_header:
  "render (lit ''[%s]: '') [Str (lit (ulog_level_name severity))] =
     Inr (bytes_of ''['' @ bytes_of (ulog_level_name severity) @ bytes_of '']: '')"
proof -
  have l: "lit ''[%s]: '' = [0x5B, 0x25, 0x73, 0x5D, 0x3A, 0x20, 0]" by (simp add: lit_def bytes_of_def of_char_def)
  have n: "lit (ulog_level_name severity) = bytes_of (ulog_level_name severity) @ 0 # []" by (simp add: lit_def)
  have tl: "render [0x5D, 0x3A, 0x20, 0] [] = Inr [0x5D, 0x3A, 0x20]" by simp
  have "render [0x25, 0x73, 0x5D, 0x3A, 0x20, 0] [Str (lit (ulog_level_name severity))] =
      Inr (bytes_of (ulog_level_name severity) @ [0x5D, 0x3A, 0x20])"
    unfolding n render_string [OF level_name_no_nul] tl by simp
  then show ?thesis unfolding l by (subst render.simps) (simp add: bytes_of_def of_char_def)
qed

lemma render_line:
  assumes "0 \<notin> set text"
  shows "render (lit ''%s\<newline>'') [Str (text @ 0 # r)] = Inr (text @ [0x0A])"
proof -
  have l: "lit ''%s\<newline>'' = [0x25, 0x73, 0x0A, 0]" by (simp add: lit_def bytes_of_def of_char_def)
  have tl: "render [0x0A, 0] [] = Inr [0x0A]" by simp
  show ?thesis unfolding l render_string [OF assms] tl by simp
qed

lemma render_log_line:
  assumes "0 \<notin> set text"
  shows "render (lit ''[%s]: %s\<newline>'') [Str (lit (ulog_level_name severity)), Str (text @ 0 # r)] =
    Inr (log_line severity text)"
proof -
  have l: "lit ''[%s]: %s\<newline>'' = [0x5B, 0x25, 0x73, 0x5D, 0x3A, 0x20] @ lit ''%s\<newline>''"
    by (simp add: lit_def bytes_of_def of_char_def)
  have n: "lit (ulog_level_name severity) = bytes_of (ulog_level_name severity) @ 0 # []" by (simp add: lit_def)
  have tl: "render ([0x5D, 0x3A, 0x20] @ lit ''%s\<newline>'') [Str (text @ 0 # r)] = Inr ([0x5D, 0x3A, 0x20] @ text @ [0x0A])"
    by (subst render_plain) (simp_all add: render_line [OF assms])
  have "render (0x25 # 0x73 # ([0x5D, 0x3A, 0x20] @ lit ''%s\<newline>'')) [Str (lit (ulog_level_name severity)), Str (text @ 0 # r)] =
      Inr (bytes_of (ulog_level_name severity) @ [0x5D, 0x3A, 0x20] @ text @ [0x0A])"
    unfolding n render_string [OF level_name_no_nul] tl by simp
  then have "render ([0x5B] @ (0x25 # 0x73 # ([0x5D, 0x3A, 0x20] @ lit ''%s\<newline>''))) [Str (lit (ulog_level_name severity)), Str (text @ 0 # r)] =
      Inr ([0x5B] @ bytes_of (ulog_level_name severity) @ [0x5D, 0x3A, 0x20] @ text @ [0x0A])"
    by (subst render_plain) simp_all
  then show ?thesis unfolding l by (simp add: log_line_def bytes_of_def of_char_def)
qed

section \<open>The two subscribers\<close>

lemma printf_terminal:
  assumes "render fmt va = Inr t" "0 \<notin> set t"
  shows "printf (putchar_char terminal_write_char) fmt va s = Inr (ucast (of_nat (length t) :: u64), terminal_write t s)"
  using assms by (simp add: printf_render filter_nonzero terminal_char_write)

lemma terminal_write_append: "terminal_write (a @ b) t = terminal_write b (terminal_write a t)"
  by (simp add: terminal_write_def)

lemma kernel_log_writes:
  assumes "0 \<notin> set text"
  shows "kernel_log severity (text @ 0 # r) k =
    Inr (k\<lparr>k_tty := terminal_reset_text_color (terminal_write (log_line severity text) (severity_color severity (k_tty k)))\<rparr>)"
proof -
  have "0 \<notin> set (bytes_of ''['' @ bytes_of (ulog_level_name severity) @ bytes_of '']: '')"
    using level_name_no_nul [of severity] by (simp add: bytes_of_def of_char_def)
  note h = printf_terminal [OF render_header [of severity] this]
  have "0 \<notin> set (text @ [0x0A])" using assms by simp
  note l = printf_terminal [OF render_line [OF assms, of r] this]
  show ?thesis
    by (auto simp: kernel_log_def Let_def h l severity_color_def log_line_def terminal_write_append)
qed

lemma serial_log_sends:
  assumes "0 \<notin> set text" "length text < 120" "serial_buf env \<noteq> 0" "is_serial_initialized (k_serial k)"
  shows "\<exists>rest. serial_log env severity (text @ 0 # r) k =
    rbind (serial_write (env_dev env) (log_line severity text @ 0 # rest) SERIAL_COM1 (io (k_serial k)))
      (\<lambda>p. Inr (k\<lparr>k_serial := (k_serial k)\<lparr>io := p\<rparr>\<rparr>))"
proof -
  have len: "length (log_line severity text) < 256"
    using level_name_short [of severity] assms(2) by (simp add: log_line_def bytes_of_def)
  obtain rest where "array_at (stored (serial_buf env) (of_nat 256) (log_line severity text) (env_stack env)) (serial_buf env) 256
      = log_line severity text @ 0 # rest"
    using array_at_stored_cut [of 256 "serial_buf env" "log_line severity text" "env_stack env"] len by auto
  with snprintf_stored [OF render_log_line [OF assms(1), of severity r] _ assms(3), where count = 256 and m = "env_stack env"] len assms(4)
  show ?thesis by (intro exI [of _ rest]) (simp add: serial_log_def)
qed

section \<open>The table\<close>

lemma log_initialize_table:
  "k_subscribers (log_initialize k) = replicate 4 \<lparr>fn = None, threshold = 0\<rparr> @
     [\<lparr>fn = Some Serial_Log, threshold = ULOG_DEBUG_LEVEL\<rparr>, \<lparr>fn = Some Kernel_Log, threshold = ULOG_INFO_LEVEL\<rparr>]"
  by (simp add: log_initialize_def ulog_subscribe_def ulog_init_def subscribe_loop.simps eval_nat_numeral)

lemma log_initialize_fields [simp]:
  "k_tty (log_initialize k) = k_tty k" "k_serial (log_initialize k) = k_serial k" "k_log_mem (log_initialize k) = k_log_mem k"
  by (simp_all add: log_initialize_def Let_def)

text \<open>Serial_Log stands first: of several free slots the search takes the last.\<close>

lemma log_recipients:
  "recipients severity (k_subscribers (log_initialize k)) =
     (if severity \<ge> ULOG_DEBUG_LEVEL then [Serial_Log] else []) @ (if severity \<ge> ULOG_INFO_LEVEL then [Kernel_Log] else [])"
  by (simp add: log_initialize_table recipients_def)

lemma info_is_debug: "(102 :: u32) \<le> severity \<Longrightarrow> 101 \<le> severity"
  by (erule order_trans [rotated]) simp

section \<open>Properties\<close>

lemma log_message_deliver:
  assumes "render fmt va = Inr t" "length t < 18446744073709551616"
    and "s_message env \<noteq> 0" "serial_buf env \<noteq> 0" "port_works (env_dev env) SERIAL_COM1"
    and "k_subscribers k = k_subscribers (log_initialize k0)"
  shows "\<exists>q. log_message env severity fmt va k =
      Inr (k\<lparr>k_log_mem := stored (s_message env) 120 t (k_log_mem k),
             k_serial := (k_serial k)\<lparr>io := io (k_serial k) @ q\<rparr>,
             k_tty := (if severity \<ge> ULOG_INFO_LEVEL
                       then terminal_reset_text_color
                              (terminal_write (log_line severity (log_text t)) (severity_color severity (k_tty k)))
                       else k_tty k)\<rparr>) \<and>
    written SERIAL_COM1 q =
      (if severity \<ge> ULOG_DEBUG_LEVEL \<and> is_serial_initialized (k_serial k) then log_line severity (log_text t) else [])"
proof -
  let ?m = "stored (s_message env) 120 t (k_log_mem k)" and ?u = "log_text t"
  let ?msg = "array_at ?m (s_message env) 120"
  obtain r where msg: "?msg = ?u @ 0 # r"
    using message_array by blast
  note u = log_text_no_nul [of t]
  have d: "log_message env severity fmt va k = rbind (deliver (\<lambda>f. call_subscriber env f severity ?msg)
      (recipients severity (k_subscribers (log_initialize k0))) k) (\<lambda>k'. Inr (k'\<lparr>k_log_mem := ?m\<rparr>))"
    using ulog_message_deliver [OF assms(1-3), of "call_subscriber env" severity "k_subscribers k" "k_log_mem k" k] assms(6)
    by (simp add: log_message_def rbind_assoc)
  note kl = kernel_log_writes [OF u, of severity r]
  show ?thesis
  proof (cases "severity \<ge> ULOG_DEBUG_LEVEL \<and> is_serial_initialized (k_serial k)")
    case True
    obtain rest where sl: "serial_log env severity ?msg k =
        rbind (serial_write (env_dev env) (log_line severity ?u @ 0 # rest) SERIAL_COM1 (io (k_serial k)))
          (\<lambda>p. Inr (k\<lparr>k_serial := (k_serial k)\<lparr>io := p\<rparr>\<rparr>))"
      unfolding msg using serial_log_sends [OF u log_text_short assms(4)] True by fastforce
    obtain q where q: "serial_write (env_dev env) (log_line severity ?u @ 0 # rest) SERIAL_COM1 (io (k_serial k)) =
        Inr (io (k_serial k) @ q)" "written SERIAL_COM1 q = log_line severity ?u"
      using serial_write_sends [OF assms(5) log_line_no_nul [OF u]] by blast
    from True show ?thesis
      by (intro exI [of _ q]) (auto simp: d log_recipients sl [simplified] q [simplified] kl [folded msg])
  next
    case False
    then show ?thesis
      using info_is_debug [of severity]
      by (intro exI [of _ "[]"]) (auto simp: d log_recipients serial_log_def kl [folded msg])
  qed
qed

lemma serial_write_stuck:
  assumes "c \<noteq> 0" "\<forall>n. \<not> ready dev com (polled dev com n p)"
  shows "serial_write dev (c # s) com p = Inl Diverges"
  using assms by (simp add: wait_transmit_eq)

text \<open>
  C13. A message after log_initialize.  When the serial port works, a message of severity INFO or
  above is written once on the terminal, as "[LEVEL]: text" and a newline in the colour of its
  severity, after which the default colour is back; a message of severity DEBUG or above is sent,
  as the same line, over the serial port if that is initialised; the text is cut to 119
  characters and ends at its first NUL.  Nothing else of the terminal or the port changes.
\<close>

theorem log_message_reaches_both:
  assumes "render fmt va = Inr t" "length t < 18446744073709551616"
    and "s_message env \<noteq> 0" "serial_buf env \<noteq> 0" "port_works (env_dev env) SERIAL_COM1"
  shows "\<exists>q. log_message env severity fmt va (log_initialize k) =
      Inr ((log_initialize k)\<lparr>k_log_mem := stored (s_message env) 120 t (k_log_mem k),
             k_serial := (k_serial k)\<lparr>io := io (k_serial k) @ q\<rparr>,
             k_tty := (if severity \<ge> ULOG_INFO_LEVEL
                       then terminal_reset_text_color
                              (terminal_write (log_line severity (log_text t)) (severity_color severity (k_tty k)))
                       else k_tty k)\<rparr>) \<and>
    written SERIAL_COM1 q =
      (if severity \<ge> ULOG_DEBUG_LEVEL \<and> is_serial_initialized (k_serial k) then log_line severity (log_text t) else [])"
  using log_message_deliver [OF assms, of "log_initialize k" k severity, unfolded log_initialize_fields] by simp

text \<open>
  A serial port that never gets ready takes the terminal down with it: serial_log stands
  before kernel_log in the table, so that a message of severity DEBUG or above never returns,
  and nothing of it reaches the screen.
\<close>

theorem log_message_stuck_port:
  assumes "render fmt va = Inr t" "length t < 18446744073709551616"
    and "s_message env \<noteq> 0" "serial_buf env \<noteq> 0" "is_serial_initialized (k_serial k)"
    and "\<forall>n. \<not> ready (env_dev env) SERIAL_COM1 (polled (env_dev env) SERIAL_COM1 n (io (k_serial k)))"
    and "severity \<ge> ULOG_DEBUG_LEVEL"
  shows "log_message env severity fmt va (log_initialize k) = Inl Diverges"
proof -
  let ?m = "stored (s_message env) 120 t (k_log_mem k)" and ?u = "log_text t"
  let ?k = "log_initialize k"
  obtain r where msg: "array_at ?m (s_message env) 120 = ?u @ 0 # r"
    using message_array by blast
  note u = log_text_no_nul [of t]
  have "\<exists>rest. serial_log env severity (?u @ 0 # r) ?k =
      rbind (serial_write (env_dev env) (log_line severity ?u @ 0 # rest) SERIAL_COM1 (io (k_serial ?k)))
        (\<lambda>p. Inr (?k\<lparr>k_serial := (k_serial ?k)\<lparr>io := p\<rparr>\<rparr>))"
    using assms(5) by (intro serial_log_sends [OF u log_text_short assms(4)]) simp_all
  moreover have "serial_write (env_dev env) (log_line severity ?u @ 0 # rest) SERIAL_COM1 (io (k_serial k)) = Inl Diverges" for rest
    using serial_write_stuck [OF _ assms(6)] by (simp add: log_line_def bytes_of_def of_char_def)
  ultimately have "serial_log env severity (?u @ 0 # r) ?k = Inl Diverges" by auto
  then show ?thesis
    using ulog_message_deliver [OF assms(1-3), of "call_subscriber env" severity "k_subscribers ?k" "k_log_mem ?k" ?k] assms(7)
    by (simp add: log_message_def log_recipients msg)
qed

section \<open>Instances\<close>

definition tiny_kernel :: kernel where
  "tiny_kernel = \<lparr>k_tty = tiny_tty, k_serial = \<lparr>io = [], is_initialized = True, serial_console = []\<rparr>,
     k_subscribers = [], k_log_mem = (\<lambda>_. 0)\<rparr>"

definition tiny_env :: "device \<Rightarrow> log_env" where
  "tiny_env dev = \<lparr>env_dev = dev, env_stack = (\<lambda>_. 0), serial_buf = 0x8000, s_message = 0x2000\<rparr>"

lemma render_go: "render (lit ''go'') [] = Inr (bytes_of ''go'')"
  by (simp add: lit_def bytes_of_def of_char_def)

theorem log_message_reaches_both_witness:
  "\<exists>k' q. log_message (tiny_env busy_once) ULOG_INFO_LEVEL (lit ''go'') [] (log_initialize tiny_kernel) = Inr k' \<and>
     io (k_serial k') = q \<and> written SERIAL_COM1 q = bytes_of ''[INFO]: go\<newline>''"
  using log_message_reaches_both [OF render_go, of "tiny_env busy_once" ULOG_INFO_LEVEL tiny_kernel] busy_once_works
  by (fastforce simp: tiny_env_def tiny_kernel_def is_serial_initialized_def log_line_def ulog_level_name_def bytes_of_def of_char_def log_text_def)

theorem log_message_stuck_port_witness:
  "log_message (tiny_env (\<lambda>h port. 0)) ULOG_INFO_LEVEL (lit ''go'') [] (log_initialize tiny_kernel) = Inl Diverges"
  by (rule log_message_stuck_port [OF render_go])
    (simp_all add: tiny_env_def tiny_kernel_def is_serial_initialized_def ready_def bytes_of_def of_char_def)

end
