(* ===== verification/Printf_Shape.thy ===== *)
theory Printf_Shape
  imports Stdio
begin

text \<open>
  Which calls of printf are well formed.  Whether a call succeeds, and with which error it fails,
  depends on its format and on the kinds of its arguments, never on the values of the integers
  or the contents of the (terminated) strings.  A format with its kinds can so be checked by
  evaluation once, for all arguments: \<open>fmt_ok\<close>.  \<open>printed\<close> is the text a list of console calls
  puts on the terminal by printf.
\<close>

section \<open>Kinds of arguments\<close>

text \<open>Two arguments of the same kind: integers, or strings with a NUL.\<close>

fun same_kind :: "varg \<Rightarrow> varg \<Rightarrow> bool" where
  "same_kind (Word a) (Word b) = True"
| "same_kind (Str s) (Str t) = (0 \<in> set s \<and> 0 \<in> set t)"
| "same_kind _ _ = False"

abbreviation same_kinds :: "varg list \<Rightarrow> varg list \<Rightarrow> bool" where
  "same_kinds \<equiv> list_all2 same_kind"

text \<open>Two results that fail alike, or succeed with related values.\<close>

lemma rel_rbind:
  "rel_sum (=) R r r' \<Longrightarrow> (\<And>a b. R a b \<Longrightarrow> rel_sum (=) S (f a) (g b)) \<Longrightarrow> rel_sum (=) S (rbind r f) (rbind r' g)"
  by (cases r; cases r') simp_all

lemma rel_rbind_same:
  "(\<And>a. r = Inr a \<Longrightarrow> rel_sum (=) S (f a) (g a)) \<Longrightarrow> rel_sum (=) S (rbind r f) (rbind r g)"
  by (cases r) simp_all

lemma va_word_kinds:
  "same_kinds va va' \<Longrightarrow> rel_sum (=) (\<lambda>(a, r) (b, r'). same_kinds r r') (va_word va) (va_word va')"
  by (induction rule: list_all2_induct) (auto elim: same_kind.elims)

lemma va_str_kinds:
  "same_kinds va va' \<Longrightarrow>
    rel_sum (=) (\<lambda>(a, r) (b, r'). 0 \<in> set a \<and> 0 \<in> set b \<and> same_kinds r r') (va_str va) (va_str va')"
  by (induction rule: list_all2_induct) (auto elim: same_kind.elims)

lemma va_dbl_kinds:
  "same_kinds va va' \<Longrightarrow> va_dbl va = Inl Bad_Vararg \<and> va_dbl va' = Inl Bad_Vararg"
  by (induction rule: list_all2_induct) (auto elim: same_kind.elims)

section \<open>Parsing\<close>

lemma parse_width_kinds:
  assumes "same_kinds va va'"
  shows "rel_sum (=) (\<lambda>(w, f, fmt1, r) (w', f', fmt2, r'). fmt1 = fmt2 \<and> same_kinds r r')
    (parse_width fmt va flags) (parse_width fmt va' flags)"
  unfolding parse_width_def
proof (rule rel_rbind_same, goal_cases)
  case (1 c)
  show ?case using assms va_word_kinds [OF assms]
    by (auto simp: Let_def intro!: rel_rbind_same rel_rbind [of "\<lambda>(a, r) (b, r'). same_kinds r r'"])
qed

lemma parse_precision_kinds:
  assumes "same_kinds va va'"
  shows "rel_sum (=) (\<lambda>(w, f, fmt1, r) (w', f', fmt2, r'). fmt1 = fmt2 \<and> same_kinds r r')
    (parse_precision fmt va flags) (parse_precision fmt va' flags')"
  unfolding parse_precision_def
proof (rule rel_rbind_same, goal_cases)
  case (1 c)
  show ?case using assms va_word_kinds [OF assms]
    by (auto simp: Let_def intro!: rel_rbind_same rel_rbind [of "\<lambda>(a, r) (b, r'). same_kinds r r'"])
qed

lemma parse_length_kinds:
  "rel_sum (=) (\<lambda>(f, fmt1) (f', fmt2). fmt1 = fmt2) (parse_length fmt flags) (parse_length fmt flags')"
  unfolding parse_length_def by (rule rel_rbind_same) (auto intro!: rel_rbind_same)

lemma parse_spec_kinds:
  assumes "same_kinds va va'"
  shows "rel_sum (=) (\<lambda>(f, w, p, fmt1, r) (f', w', p', fmt2, r'). fmt1 = fmt2 \<and> same_kinds r r')
    (parse_spec fmt va) (parse_spec fmt va')"
  unfolding parse_spec_def
proof (rule rel_rbind_same, clarify, rule rel_rbind [OF parse_width_kinds [OF assms]], clarify)
  fix fl fmt1 w f fmt2 r w' f' r'
  assume r: "same_kinds r r'"
  show "rel_sum (=) (\<lambda>(f, w, p, fmt1, r) (f', w', p', fmt2, r'). fmt1 = fmt2 \<and> same_kinds r r')
    (rbind (parse_precision fmt2 r f) (\<lambda>(precision, flags, fmt, va).
       rbind (parse_length fmt flags) (\<lambda>(flags, fmt). Inr (flags, w, precision, fmt, va))))
    (rbind (parse_precision fmt2 r' f') (\<lambda>(precision, flags, fmt, va).
       rbind (parse_length fmt flags) (\<lambda>(flags, fmt). Inr (flags, w', precision, fmt, va))))"
    by (rule rel_rbind [OF parse_precision_kinds [OF r]])
      (auto intro!: rel_rbind [OF parse_length_kinds])
qed

section \<open>Converting\<close>

lemma strnlen_loop_terminated: "0 \<in> set s \<Longrightarrow> \<exists>k. strnlen_loop s m n = Inr k"
  by (induction s arbitrary: m n) auto

lemma string_text_terminated: "0 \<in> set s \<Longrightarrow> \<exists>t. string_text s f p = Inr t"
proof (induction s arbitrary: p)
  case (Cons c s)
  show ?case
  proof (cases "c \<noteq> 0 \<and> (\<not> has f FLAGS_PRECISION \<or> p \<noteq> 0)")
    case True
    with Cons.prems have "0 \<in> set s" by auto
    from Cons.IH [OF this, of "if has f FLAGS_PRECISION then p - 1 else p"] True show ?thesis by auto
  qed auto
qed simp

lemma convert_text_kinds:
  assumes "same_kinds va va'"
  shows "rel_sum (=) (\<lambda>(r, t) (r', t'). same_kinds r r') (convert_text c f w p va) (convert_text c f' w' p' va')"
proof -
  have str: "rel_sum (=) (\<lambda>(r, t) (r', t'). same_kinds r r')
     (rbind (strnlen_s s n) (\<lambda>l. rbind (string_text s f p) (\<lambda>t. Inr (r, h l t))))
     (rbind (strnlen_s s' n') (\<lambda>l. rbind (string_text s' f' p') (\<lambda>t. Inr (r', h' l t))))"
    if "0 \<in> set s" "0 \<in> set s'" "same_kinds r r'" for s s' r r' n n' and h h' :: "u32 \<Rightarrow> u8 list \<Rightarrow> u8 list"
  proof -
    note h = that
    obtain k k' where "strnlen_loop s n 0 = Inr k" "strnlen_loop s' n' 0 = Inr k'"
      using strnlen_loop_terminated [OF h(1), of n 0] strnlen_loop_terminated [OF h(2), of n' 0] by blast
    moreover obtain t t' where "string_text s f p = Inr t" "string_text s' f' p' = Inr t'"
      using string_text_terminated [OF h(1), of f p] string_text_terminated [OF h(2), of f' p'] by blast
    ultimately show ?thesis using h(3) by (simp add: strnlen_s_def)
  qed
  have w: "rel_sum (=) (\<lambda>(r, t) (r', t'). same_kinds r r')
     (rbind (va_word va) (\<lambda>(a, va'). Inr (va', h a))) (rbind (va_word va') (\<lambda>(a, va'). Inr (va', h' a)))"
    for h h' :: "u64 \<Rightarrow> u8 list"
    by (rule rel_rbind [OF va_word_kinds [OF assms]]) auto
  have s: "rel_sum (=) (\<lambda>(r, t) (r', t'). same_kinds r r')
     (rbind (va_str va) (\<lambda>(q, r). rbind (strnlen_s q n) (\<lambda>l. rbind (string_text q f p) (\<lambda>t. Inr (r, h l t)))))
     (rbind (va_str va') (\<lambda>(q, r). rbind (strnlen_s q n') (\<lambda>l. rbind (string_text q f' p') (\<lambda>t. Inr (r, h' l t)))))"
    for n n' and h h' :: "u32 \<Rightarrow> u8 list \<Rightarrow> u8 list"
    by (rule rel_rbind [OF va_str_kinds [OF assms]]) (auto intro: str)
  show ?thesis
    using va_dbl_kinds [OF assms] assms by (simp add: convert_text_def w s)
qed

lemma directive_text_kinds:
  assumes "same_kinds va va'"
  shows "rel_sum (=) (\<lambda>(fmt1, r, t) (fmt2, r', t'). fmt1 = fmt2 \<and> same_kinds r r')
    (directive_text fmt va) (directive_text fmt va')"
  unfolding directive_text_def
  by (rule rel_rbind [OF parse_spec_kinds [OF assms]])
    (auto intro!: rel_rbind_same rel_rbind [OF convert_text_kinds])

lemma render_kinds:
  "same_kinds va va' \<Longrightarrow> rel_sum (=) (\<lambda>t t'. True) (render fmt va) (render fmt va')"
proof (induction fmt va arbitrary: va' rule: render.induct)
  case (2 c fmt va)
  consider "c = 0" | "c \<noteq> 0" "c \<noteq> 0x25" | "c \<noteq> 0" "c = 0x25" by blast
  then show ?case
  proof cases
    case 2
    then show ?thesis using "2.IH"(1) [OF _ _ "2.prems"] by (auto intro!: rel_rbind [of "\<lambda>t t'. True"])
  next
    case 3
    have "rel_sum (=) (\<lambda>x y. (\<lambda>(fmt1, r, t) (fmt2, r', t'). fmt1 = fmt2 \<and> same_kinds r r') x y \<and> directive_text fmt va = Inr x)
        (directive_text fmt va) (directive_text fmt va')"
      using directive_text_kinds [OF "2.prems", of fmt] by (cases "directive_text fmt va"; cases "directive_text fmt va'") auto
    then show ?thesis using 3 "2.IH"(2) by (auto elim!: rel_rbind intro!: rel_rbind [of "\<lambda>t t'. True"])
  qed simp
qed simp

section \<open>Checking a format\<close>

datatype arg_kind = Int_arg | Str_arg

fun kind_rep :: "arg_kind \<Rightarrow> varg" where
  "kind_rep Int_arg = Word 0"
| "kind_rep Str_arg = Str [0]"

fun has_kind :: "varg \<Rightarrow> arg_kind \<Rightarrow> bool" where
  "has_kind (Word a) Int_arg = True"
| "has_kind (Str s) Str_arg = (0 \<in> set s)"
| "has_kind _ _ = False"

lemma same_kind_rep: "has_kind a k \<Longrightarrow> same_kind a (kind_rep k)"
  by (induction a k rule: has_kind.induct) simp_all

lemma same_kinds_rep: "list_all2 has_kind va ks \<Longrightarrow> same_kinds va (map kind_rep ks)"
  by (simp add: list.rel_map) (auto elim: list_all2_mono intro: same_kind_rep)

text \<open>The format succeeds with arguments of these kinds.\<close>

definition fmt_ok :: "string \<Rightarrow> arg_kind list \<Rightarrow> bool" where
  "fmt_ok f ks \<longleftrightarrow> \<not> isl (render (lit f) (map kind_rep ks))"

lemma fmt_ok_render:
  assumes "fmt_ok f ks" "list_all2 has_kind va ks"
  shows "\<exists>t. render (lit f) va = Inr t"
proof -
  have "rel_sum (=) (\<lambda>t t'. True) (render (lit f) va) (render (lit f) (map kind_rep ks))"
    by (rule render_kinds [OF same_kinds_rep [OF assms(2)]])
  with assms(1) show ?thesis unfolding fmt_ok_def by (cases "render (lit f) va"; cases "render (lit f) (map kind_rep ks)") auto
qed

lemma fmt_ok_plain:
  assumes "list_all (\<lambda>c. c \<noteq> 0 \<and> c \<noteq> 0x25) (bytes_of f)"
  shows "fmt_ok f []"
  using render_plain [of "bytes_of f" "[0]" "[]"] assms by (simp add: fmt_ok_def lit_def list_all_iff)

section \<open>What a list of calls prints\<close>

fun call_text :: "console_call \<Rightarrow> u8 list outcome" where
  "call_text (Printf f va) = rbind (render (lit f) va) (\<lambda>t. Inr (filter (\<lambda>c. c \<noteq> 0) t))"
| "call_text _ = Inr []"

fun printed :: "console_call list \<Rightarrow> u8 list outcome" where
  "printed [] = Inr []"
| "printed (c # cs) = rbind (call_text c) (\<lambda>t. rbind (printed cs) (\<lambda>t'. Inr (t @ t')))"

lemma printed_append: "printed (cs @ ds) = rbind (printed cs) (\<lambda>t. rbind (printed ds) (\<lambda>t'. Inr (t @ t')))"
  by (induction cs) (simp_all add: rbind_assoc, cases "printed ds", simp_all)

text \<open>A call is well formed when its text exists.\<close>

fun call_ok :: "console_call \<Rightarrow> bool" where
  "call_ok (Printf f va) = (\<exists>t. render (lit f) va = Inr t)"
| "call_ok (Ulog s f va) = (\<exists>t. render (lit f) va = Inr t)"
| "call_ok _ = True"

lemma call_ok_text: "call_ok c \<Longrightarrow> \<exists>t. call_text c = Inr t"
  by (cases c) auto

lemma printed_ok: "list_all call_ok cs \<Longrightarrow> \<exists>t. printed cs = Inr t"
  by (induction cs) (auto dest: call_ok_text)

section \<open>Properties\<close>

text \<open>
  C27. The kinds of the arguments decide whether printf succeeds: two calls with the same format
  whose arguments are, place by place, both integers or both terminated strings either both
  return or both fail, and fail with the same error, whatever the values are.
\<close>

theorem printf_kinds:
  assumes "same_kinds va va'"
  shows "rel_sum (=) (\<lambda>r r'. True) (printf pc fmt va s) (printf pc' fmt va' s')"
  using render_kinds [OF assms, of fmt]
  by (cases "render fmt va"; cases "render fmt va'") (simp_all add: printf_render)

theorem printf_kinds_witness:
  "isl (printf (\<lambda>c s. s @ [c]) (lit ''%d %s'') [Word 7] []) = isl (printf (\<lambda>c s. s @ [c]) (lit ''%d %s'') [Word 12345] [])"
proof -
  have "rel_sum (=) (\<lambda>r r'. True) (printf (\<lambda>c s. s @ [c]) (lit ''%d %s'') [Word 7] [])
     (printf (\<lambda>c s. s @ [c]) (lit ''%d %s'') [Word 12345] ([] :: u8 list))"
    by (rule printf_kinds) simp
  then show ?thesis
    by (cases "printf (\<lambda>c s. s @ [c]) (lit ''%d %s'') [Word 7] ([] :: u8 list)";
        cases "printf (\<lambda>c s. s @ [c]) (lit ''%d %s'') [Word 12345] ([] :: u8 list)") simp_all
qed

end
