(* ===== verification/Memory.thy ===== *)
theory Memory
  imports Pmm_Boot Klog Printf_Shape
begin

text \<open>
  The rest of the memory code: the offset of the direct map (kernel/arch/x86_64/mem/hhdm.c),
  mem_initialize (mem.c; vmm_initialize is empty), the flags of a page table entry (vmm.h), the
  address macros (macros.h, hhdm.h), the accesses of io.h to memory-mapped registers, and the
  dump of the page bitmap with the binary macros of libc/include/printf.h.

  What the start of the memory writes to the console is well formed and short enough for the
  log; the dump of a row shows the bits of its 64 pages.
\<close>

section \<open>Address macros\<close>

definition HIGHER_HALF_DATA :: u64 where "HIGHER_HALF_DATA = 0xFFFF800000000000"
definition HIGHER_HALF_CODE :: u64 where "HIGHER_HALF_CODE = 0xFFFFFFFF80000000"
definition GiB :: u64 where "GiB = 0x40000000"
definition HEAP_MAX_SIZE :: u64 where "HEAP_MAX_SIZE = 4 * GiB"

definition KB_TO_PAGES :: "u64 \<Rightarrow> u64" where "KB_TO_PAGES kb = kb * 1024 div PAGE_SIZE"
definition ALIGN_DOWN :: "u64 \<Rightarrow> u64 \<Rightarrow> u64" where "ALIGN_DOWN address align = address AND NOT (align - 1)"

definition PHYS_TO_HIGHER_HALF_DATA :: "u64 \<Rightarrow> u64" where "PHYS_TO_HIGHER_HALF_DATA address = address + HIGHER_HALF_DATA"
definition PHYS_TO_HIGHER_HALF_CODE :: "u64 \<Rightarrow> u64" where "PHYS_TO_HIGHER_HALF_CODE address = address + HIGHER_HALF_CODE"
definition HIGHER_HALF_DATA_TO_PHYS :: "u64 \<Rightarrow> u64" where "HIGHER_HALF_DATA_TO_PHYS address = address - HIGHER_HALF_DATA"
definition HIGHER_HALF_CODE_TO_PHYS :: "u64 \<Rightarrow> u64" where "HIGHER_HALF_CODE_TO_PHYS address = address - HIGHER_HALF_CODE"

definition HHDM :: "u64 \<Rightarrow> u64" where "HHDM logical_address = logical_address + 0xffffffff80000000"

section \<open>Page table flags\<close>

definition VM_FLAG_NONE :: u64 where [simp]: "VM_FLAG_NONE = 0"
definition VM_FLAG_WRITE :: u64 where [simp]: "VM_FLAG_WRITE = 1"
definition VM_FLAG_EXEC :: u64 where [simp]: "VM_FLAG_EXEC = 2"
definition VM_FLAG_USER :: u64 where [simp]: "VM_FLAG_USER = 4"
definition PT_FLAG_WRITE :: u64 where [simp]: "PT_FLAG_WRITE = 2"
definition PT_FLAG_USER :: u64 where [simp]: "PT_FLAG_USER = 4"
definition PT_FLAG_NX :: u64 where [simp]: "PT_FLAG_NX = 0x8000000000000000"

definition convert_x86_64_vm_flags :: "u64 \<Rightarrow> u64" where
  "convert_x86_64_vm_flags flags =
     (let v = 0;
          v = (if flags AND VM_FLAG_WRITE \<noteq> 0 then v OR PT_FLAG_WRITE else v);
          v = (if flags AND VM_FLAG_USER \<noteq> 0 then v OR PT_FLAG_USER else v)
      in if flags AND VM_FLAG_EXEC = 0 then v OR PT_FLAG_NX else v)"

section \<open>Memory-mapped registers\<close>

definition mmio_write8 :: "u64 \<Rightarrow> u8 \<Rightarrow> mem \<Rightarrow> mem" where "mmio_write8 p data m = m(p := data)"
definition mmio_read8 :: "u64 \<Rightarrow> mem \<Rightarrow> u8" where "mmio_read8 p m = m p"
definition mmio_write16 :: "u64 \<Rightarrow> u16 \<Rightarrow> mem \<Rightarrow> mem" where "mmio_write16 p data m = store_le m p 2 (ucast data)"
definition mmio_read16 :: "u64 \<Rightarrow> mem \<Rightarrow> u16" where "mmio_read16 p m = ucast (load_le m p 2)"
definition mmio_write32 :: "u64 \<Rightarrow> u32 \<Rightarrow> mem \<Rightarrow> mem" where "mmio_write32 p data m = store32 m p data"
definition mmio_read32 :: "u64 \<Rightarrow> mem \<Rightarrow> u32" where "mmio_read32 p m = load32 m p"
definition mmio_write64 :: "u64 \<Rightarrow> u64 \<Rightarrow> mem \<Rightarrow> mem" where "mmio_write64 p data m = store64 m p data"
definition mmio_read64 :: "u64 \<Rightarrow> mem \<Rightarrow> u64" where "mmio_read64 p m = load64 m p"

text \<open>A register that holds what is written to it.\<close>

lemma mmio_roundtrip:
  "mmio_read8 p (mmio_write8 p a m) = a" "mmio_read32 p (mmio_write32 p c m) = c" "mmio_read64 p (mmio_write64 p d m) = d"
  by (simp_all add: mmio_read8_def mmio_write8_def mmio_read32_def mmio_write32_def mmio_read64_def mmio_write64_def
      load32_store32_same load64_store64_same)

text \<open>The flags of an entry are those asked for, with "not executable" for the lack of execution.\<close>

lemma convert_flags_value:
  "convert_x86_64_vm_flags flags =
     (if bit flags 0 then 2 else 0) + (if bit flags 2 then 4 else 0) + (if bit flags 1 then 0 else 0x8000000000000000)"
proof -
  have f: "flags AND 1 = 0 \<longleftrightarrow> \<not> bit flags 0" "flags AND 2 = 0 \<longleftrightarrow> \<not> bit flags 1" "flags AND 4 = 0 \<longleftrightarrow> \<not> bit flags 2"
    using and_exp_eq_0_iff_not_bit [of flags 0] and_exp_eq_0_iff_not_bit [of flags 1] and_exp_eq_0_iff_not_bit [of flags 2] by simp_all
  show ?thesis by (simp add: convert_x86_64_vm_flags_def f)
qed

section \<open>Start of the memory\<close>

record limine_hhdm_response =
  hhdm_revision :: u64
  hhdm_offset :: u64

definition hhdm_initialize :: "limine_hhdm_response option \<Rightarrow> pmm \<Rightarrow> pmm" where
  "hhdm_initialize response s =
     (case response of
        None \<Rightarrow> s\<lparr>console := console s @ [ULOG_CRITICAL ''HHDM Request Failed.'' []]\<rparr>
      | Some r \<Rightarrow>
          let s1 = s\<lparr>g_hhdm_offset := hhdm_offset r\<rparr>
          in s1\<lparr>console := console s1 @ [ULOG_INFO ''HHDM Set.'' []]\<rparr>)"

definition vmm_initialize :: "pmm \<Rightarrow> pmm" where
  "vmm_initialize s = s"

definition mem_initialize :: "limine_memmap_entry list \<Rightarrow> pmm \<Rightarrow> (limine_memmap_entry list \<times> pmm) outcome" where
  "mem_initialize entries s = rbind (pmm_initialize entries s) (\<lambda>(entries', s'). Inr (entries', vmm_initialize s'))"

section \<open>The dump of the bitmap\<close>

definition PRINTF_BINARY_SEPARATOR :: string where [simp]: "PRINTF_BINARY_SEPARATOR = '' ''"
definition PRINTF_BINARY_PATTERN_INT8 :: string where
  "PRINTF_BINARY_PATTERN_INT8 = ''%c%c%c%c%c%c%c%c''"
definition PRINTF_BINARY_PATTERN_INT16 :: string where
  "PRINTF_BINARY_PATTERN_INT16 = PRINTF_BINARY_PATTERN_INT8 @ PRINTF_BINARY_SEPARATOR @ PRINTF_BINARY_PATTERN_INT8"
definition PRINTF_BINARY_PATTERN_INT32 :: string where
  "PRINTF_BINARY_PATTERN_INT32 = PRINTF_BINARY_PATTERN_INT16 @ PRINTF_BINARY_SEPARATOR @ PRINTF_BINARY_PATTERN_INT16"
definition PRINTF_BINARY_PATTERN_INT64 :: string where
  "PRINTF_BINARY_PATTERN_INT64 = PRINTF_BINARY_PATTERN_INT32 @ PRINTF_BINARY_SEPARATOR @ PRINTF_BINARY_PATTERN_INT32"

definition PRINTF_BYTE_TO_BINARY_INT8 :: "u64 \<Rightarrow> varg list" where
  "PRINTF_BYTE_TO_BINARY_INT8 i =
     map (\<lambda>m. Word (if i AND m \<noteq> 0 then 0x31 else 0x30)) [0x80, 0x40, 0x20, 0x10, 0x08, 0x04, 0x02, 0x01]"
definition PRINTF_BYTE_TO_BINARY_INT16 :: "u64 \<Rightarrow> varg list" where
  "PRINTF_BYTE_TO_BINARY_INT16 i = PRINTF_BYTE_TO_BINARY_INT8 (drop_bit 8 i) @ PRINTF_BYTE_TO_BINARY_INT8 i"
definition PRINTF_BYTE_TO_BINARY_INT32 :: "u64 \<Rightarrow> varg list" where
  "PRINTF_BYTE_TO_BINARY_INT32 i = PRINTF_BYTE_TO_BINARY_INT16 (drop_bit 16 i) @ PRINTF_BYTE_TO_BINARY_INT16 i"
definition PRINTF_BYTE_TO_BINARY_INT64 :: "u64 \<Rightarrow> varg list" where
  "PRINTF_BYTE_TO_BINARY_INT64 i = PRINTF_BYTE_TO_BINARY_INT32 (drop_bit 32 i) @ PRINTF_BYTE_TO_BINARY_INT32 i"

definition dump_row :: "pmm \<Rightarrow> u64 \<Rightarrow> console_call list" where
  "dump_row s i =
     [Set_text_color 0xFF00FF,
      Printf ''[ %05d - %05d ] '' [Word (i * BITS_PER_ROW + BITS_PER_ROW - 1), Word (i * BITS_PER_ROW)],
      Set_text_color 0xFFFFFF,
      Printf (PRINTF_BINARY_PATTERN_INT64 @ ''\<newline>'')
        (PRINTF_BYTE_TO_BINARY_INT64 (load64 (mem s) (bm_map (pmm_bitmap s) + 8 * i)))]"

function dump_rows :: "pmm \<Rightarrow> u64 \<Rightarrow> u64 \<Rightarrow> console_call list" where
  "dump_rows s i bound = (if i < bound then dump_row s i @ dump_rows s (i + 1) bound else [])"
  by pat_completeness auto
termination
proof (relation "measure (\<lambda>(s, i, bound). unat (bound - i))", goal_cases)
  case (2 s i bound)
  then have nz: "bound - i \<noteq> 0" by auto
  have "bound - (i + 1) = (bound - i) - 1" by simp
  then have "unat (bound - (i + 1)) = unat (bound - i) - 1" by (simp only: unat_minus_one [OF nz])
  moreover have "unat (bound - i) \<noteq> 0" by (metis nz unat_eq_zero)
  ultimately show ?case by (simp only: in_measure split)
qed simp

declare dump_rows.simps [simp del]

definition pmm_memdump_rows :: "u64 \<Rightarrow> u64 \<Rightarrow> pmm \<Rightarrow> pmm" where
  "pmm_memdump_rows row row_count s =
     s\<lparr>console := console s @ [ULOG_INFO ''===== MEMMAP ====='' []] @ dump_rows s row (row + row_count) @
         [ULOG_INFO ''=================='' []]\<rparr>"

section \<open>Formats in parts\<close>

text \<open>A part of a format with its arguments, and the text it contributes.\<close>

definition prints :: "u8 list \<Rightarrow> varg list \<Rightarrow> u8 list \<Rightarrow> bool" where
  "prints p a t \<longleftrightarrow> (\<forall>fmt va. render (p @ fmt) (a @ va) = rbind (render fmt va) (\<lambda>r. Inr (t @ r)))"

lemma prints_append: "prints p a t \<Longrightarrow> prints q b u \<Longrightarrow> prints (p @ q) (a @ b) (t @ u)"
  by (simp add: prints_def rbind_assoc)

lemma prints_plain: "\<forall>c\<in>set p. c \<noteq> 0 \<and> c \<noteq> 0x25 \<Longrightarrow> prints p [] p"
  by (simp add: prints_def render_plain)

lemma prints_char: "prints [0x25, 0x63] [Word a] [ucast a]"
proof -
  have "directive_text (0x63 # fmt) (Word a # va) = Inr (fmt, va, [ucast a])" for fmt va
    by (simp add: directive_text_def parse_spec_plain is_digit_def convert_text_def is_int_spec_def pad_text_def)
  then show ?thesis by (simp add: prints_def)
qed

lemma prints_lit: "prints (bytes_of f) va t \<Longrightarrow> render (lit f) va = Inr t"
  unfolding prints_def lit_def by (drule spec [of _ "[0]"], drule spec [of _ "[]"]) simp

section \<open>What the dump shows\<close>

text \<open>Bits, the most significant first.\<close>

definition bit_chars :: "nat \<Rightarrow> u64 \<Rightarrow> u8 list" where
  "bit_chars n w = map (\<lambda>k. if bit w k then 0x31 else 0x30) (rev [0..<n])"

lemma bits8: "prints (bytes_of PRINTF_BINARY_PATTERN_INT8) (PRINTF_BYTE_TO_BINARY_INT8 w) (bit_chars 8 w)"
proof -
  have masks: "w AND 0x80 = 0 \<longleftrightarrow> \<not> bit w 7" "w AND 0x40 = 0 \<longleftrightarrow> \<not> bit w 6" "w AND 0x20 = 0 \<longleftrightarrow> \<not> bit w 5"
    "w AND 0x10 = 0 \<longleftrightarrow> \<not> bit w 4" "w AND 8 = 0 \<longleftrightarrow> \<not> bit w 3" "w AND 4 = 0 \<longleftrightarrow> \<not> bit w 2"
    "w AND 2 = 0 \<longleftrightarrow> \<not> bit w 1" "w AND 1 = 0 \<longleftrightarrow> \<not> bit w 0"
    using and_exp_eq_0_iff_not_bit [of w 7] and_exp_eq_0_iff_not_bit [of w 6] and_exp_eq_0_iff_not_bit [of w 5]
      and_exp_eq_0_iff_not_bit [of w 4] and_exp_eq_0_iff_not_bit [of w 3] and_exp_eq_0_iff_not_bit [of w 2]
      and_exp_eq_0_iff_not_bit [of w 1] and_exp_eq_0_iff_not_bit [of w 0] by simp_all
  have a: "PRINTF_BYTE_TO_BINARY_INT8 w = concat (map (\<lambda>k. [Word (if bit w k then 0x31 else 0x30)]) [7, 6, 5, 4, 3, 2, 1, 0])"
    by (simp add: PRINTF_BYTE_TO_BINARY_INT8_def masks)
  have r: "rev [0..<8] = [7, 6, 5, 4, 3, 2, 1, 0 :: nat]" by code_simp
  have t: "bit_chars 8 w = concat (map (\<lambda>k. [ucast (if bit w k then 0x31 else 0x30 :: u64)]) [7, 6, 5, 4, 3, 2, 1, 0])"
    unfolding bit_chars_def r by simp
  have p: "bytes_of PRINTF_BINARY_PATTERN_INT8 = concat (map (\<lambda>k. [0x25, 0x63]) [7, 6, 5, 4, 3, 2, 1, 0 :: nat])"
    by (simp add: PRINTF_BINARY_PATTERN_INT8_def bytes_of_def of_char_def)
  have "prints (concat (map (\<lambda>k. [0x25, 0x63]) ks)) (concat (map (\<lambda>k. [Word (f k)]) ks)) (concat (map (\<lambda>k. [ucast (f k)]) ks))"
    for f :: "nat \<Rightarrow> u64" and ks
  proof (induction ks)
    case (Cons k ks)
    from prints_append [OF prints_char this] show ?case by simp
  qed (simp add: prints_def, metis rbind_def sum.exhaust sum.simps(5,6))
  then show ?thesis unfolding a t p .
qed

lemma bit_chars_join:
  "j < 64 \<Longrightarrow> bit (drop_bit n w :: u64) j = bit w (n + j)"
  by (simp add: bit_drop_bit_eq)

definition row_text :: "(nat \<Rightarrow> bool) \<Rightarrow> u8 list" where
  "row_text used = concat (map (\<lambda>k. (if used k then 0x31 else 0x30) # (if k mod 8 = 0 \<and> k \<noteq> 0 then [0x20] else [])) (rev [0..<64]))"

lemma space_part: "prints (bytes_of PRINTF_BINARY_SEPARATOR) [] [0x20]"
  by (simp add: bytes_of_def of_char_def prints_plain)

lemma bytes_of_append: "bytes_of (s @ t) = bytes_of s @ bytes_of t"
  by (simp add: bytes_of_def)

lemma prints_doubled:
  assumes "\<And>w. prints p (a w) (t w)"
  shows "prints (p @ bytes_of PRINTF_BINARY_SEPARATOR @ p) (a (drop_bit n w) @ a w) (t (drop_bit n w) @ [0x20] @ t w)"
  using prints_append [OF assms prints_append [OF space_part assms], of "drop_bit n w" w] by simp

lemma bits64:
  "prints (bytes_of PRINTF_BINARY_PATTERN_INT64) (PRINTF_BYTE_TO_BINARY_INT64 w) (row_text (bit w))"
proof -
  define t16 where "t16 w = bit_chars 8 (drop_bit 8 w) @ [0x20] @ bit_chars 8 w" for w
  define t32 where "t32 w = t16 (drop_bit 16 w) @ [0x20] @ t16 w" for w
  have p16: "prints (bytes_of PRINTF_BINARY_PATTERN_INT16) (PRINTF_BYTE_TO_BINARY_INT16 w) (t16 w)" for w
    unfolding PRINTF_BINARY_PATTERN_INT16_def PRINTF_BYTE_TO_BINARY_INT16_def bytes_of_append t16_def
    by (rule prints_doubled [OF bits8])
  have p32: "prints (bytes_of PRINTF_BINARY_PATTERN_INT32) (PRINTF_BYTE_TO_BINARY_INT32 w) (t32 w)" for w
    unfolding PRINTF_BINARY_PATTERN_INT32_def PRINTF_BYTE_TO_BINARY_INT32_def bytes_of_append t32_def
    by (rule prints_doubled [OF p16])
  have r: "rev [0..<8] = [7, 6, 5, 4, 3, 2, 1, 0 :: nat]" by code_simp
  have r64: "rev [0..<64] = [63, 62, 61, 60, 59, 58, 57, 56, 55, 54, 53, 52, 51, 50, 49, 48, 47, 46, 45, 44, 43, 42, 41, 40, 39,
    38, 37, 36, 35, 34, 33, 32, 31, 30, 29, 28, 27, 26, 25, 24, 23, 22, 21, 20, 19, 18, 17, 16, 15, 14, 13, 12, 11, 10, 9, 8, 7, 6,
    5, 4, 3, 2, 1, 0 :: nat]" by code_simp
  have "row_text (bit w) = t32 (drop_bit 32 w) @ [0x20] @ t32 w"
    unfolding row_text_def t32_def t16_def bit_chars_def r r64 by (simp add: bit_drop_bit_eq)
  then show ?thesis
    unfolding PRINTF_BINARY_PATTERN_INT64_def PRINTF_BYTE_TO_BINARY_INT64_def bytes_of_append
    using prints_doubled [OF p32, where n = 32 and w = w] by simp
qed

text \<open>%05d of a number below 2 ^ 31.\<close>

definition five :: "nat \<Rightarrow> u8 list" where
  "five n = (let d = numeral_text 0 10 n in replicate (5 - length d) 0x30 @ d)"

lemma prints_five:
  assumes "unat a < 2 ^ 31"
  shows "prints (bytes_of ''%05d'') [Word a] (five (unat a))"
proof -
  let ?v = "ucast a :: u32" and ?z = FLAGS_ZEROPAD
  have u: "unat ?v = unat a" using assms by (simp add: unsigned_ucast_eq take_bit_nat_eq_self)
  then have ui: "uint ?v = int (unat a)" by (simp only: uint_nat)
  have sv: "sint ?v = int (unat a)"
  proof -
    have "int (unat a) < int (2 ^ 31)" using assms by (simp only: of_nat_less_iff)
    then have b: "int (unat a) < 2 ^ 31" by (simp only: of_nat_power of_nat_numeral)
    have "- (2 ^ 31) \<le> int (unat a)" by (rule order_trans [of _ 0]) (simp, rule of_nat_0_le_iff)
    then have "signed_take_bit 31 (int (unat a)) = int (unat a)" by (rule signed_take_bit_int_eq_self [OF _ b])
    moreover have "sint ?v = signed_take_bit 31 (uint ?v)" by (simp add: sint_uint)
    ultimately show ?thesis by (simp only: ui)
  qed
  have um: "unat (ucast (magnitude ?v) :: u64) = unat a" by (simp add: unat_magnitude sv)
  have h: "has ?z FLAGS_ZEROPAD" "\<not> has ?z FLAGS_PLUS" "\<not> has ?z FLAGS_SPACE" "\<not> has ?z FLAGS_LEFT" "\<not> has ?z FLAGS_HASH"
      "\<not> has ?z FLAGS_PRECISION" "\<not> has ?z FLAGS_UPPERCASE" "\<not> has ?z FLAGS_LONG" "\<not> has ?z FLAGS_LONG_LONG"
      "\<not> has ?z FLAGS_CHAR" "\<not> has ?z FLAGS_SHORT" "\<not> has 0 FLAGS_UPPERCASE"
    by (simp_all add: has_def flag_defs)
  have f: "int_flags 0x64 ?z = ?z" by (simp add: int_flags_def is_signed_spec_def int_base_def h) (simp add: flag_defs)
  have ps: "parse_spec (0x30 # 0x35 # 0x64 # fmt) va = Inr (?z, 5, 0, 0x64 # fmt, va)" for fmt va
    by (simp add: parse_spec_def parse_width_def parse_precision_def parse_length_def is_digit_def atoi_def)
  have n: "numeral_text ?z 10 (unat a) = numeral_text 0 10 (unat a)"
    by (simp add: numeral_text_def digit_byte_def h)
  have t: "ntoa_text (ucast (magnitude ?v)) (sint ?v < 0) 10 0 5 ?z = five (unat a)"
    using digits_of_u32_le [of "magnitude ?v"] um
    by (subst ntoa_text_layout) (simp_all add: h n int_text_def sign_text_def five_def Let_def sv)
  have "directive_text (0x30 # 0x35 # 0x64 # fmt) (Word a # va) = Inr (fmt, va, five (unat a))" for fmt va
    by (simp add: directive_text_def ps convert_text_def is_int_spec_def int_conv_text_def f Let_def is_signed_spec_def
        int_base_def int_arg_def h t)
  then show ?thesis by (simp add: prints_def bytes_of_def of_char_def)
qed

definition row_header :: "nat \<Rightarrow> u8 list" where
  "row_header r = bytes_of ''[ '' @ five (64 * r + 63) @ bytes_of '' - '' @ five (64 * r) @ bytes_of '' ] ''"

definition dump_line :: "pmm \<Rightarrow> nat \<Rightarrow> u8 list" where
  "dump_line s r = row_header r @ row_text (\<lambda>k. page_bit (mem s) (bm_map (pmm_bitmap s)) (64 * r + k)) @ [0x0A]"

lemma plain_part: "\<forall>c\<in>set (bytes_of f). c \<noteq> 0 \<and> c \<noteq> 0x25 \<Longrightarrow> prints (bytes_of f) [] (bytes_of f)"
  by (rule prints_plain)

lemma header_text:
  assumes "r < 2 ^ 25"
  shows "render (lit ''[ %05d - %05d ] '') [Word (of_nat r * BITS_PER_ROW + BITS_PER_ROW - 1), Word (of_nat r * BITS_PER_ROW)] = Inr (row_header r)"
proof (rule prints_lit)
  have w: "of_nat r * BITS_PER_ROW + BITS_PER_ROW - 1 = (of_nat (64 * r + 63) :: u64)" "of_nat r * BITS_PER_ROW = (of_nat (64 * r) :: u64)"
    by simp_all
  have u: "unat (of_nat (64 * r + 63) :: u64) = 64 * r + 63" "unat (of_nat (64 * r) :: u64) = 64 * r"
    by (rule unat_of_nat_u64, use assms in simp)+
  have f: "bytes_of ''[ %05d - %05d ] '' = bytes_of ''[ '' @ bytes_of ''%05d'' @ bytes_of '' - '' @ bytes_of ''%05d'' @ bytes_of '' ] ''"
    by (simp add: bytes_of_def)
  have p: "prints (bytes_of ''[ '') [] (bytes_of ''[ '')" "prints (bytes_of '' - '') [] (bytes_of '' - '')" "prints (bytes_of '' ] '') [] (bytes_of '' ] '')"
    by (intro plain_part; simp add: bytes_of_def of_char_def)+
  have n: "prints (bytes_of ''%05d'') [Word (of_nat (64 * r + 63))] (five (64 * r + 63))" "prints (bytes_of ''%05d'') [Word (of_nat (64 * r))] (five (64 * r))"
    using prints_five [of "of_nat (64 * r + 63)"] prints_five [of "of_nat (64 * r)"] u assms by simp_all
  from prints_append [OF p(1) prints_append [OF n(1) prints_append [OF p(2) prints_append [OF n(2) p(3)]]]]
  show "prints (bytes_of ''[ %05d - %05d ] '') [Word (of_nat r * BITS_PER_ROW + BITS_PER_ROW - 1), Word (of_nat r * BITS_PER_ROW)] (row_header r)"
    unfolding f w(1) unfolding w(2) row_header_def by (simp only: append_Cons append_Nil)
qed

lemma row_text_chars: "0 \<notin> set (row_text used)"
  by (auto simp: row_text_def split: if_splits)

lemma five_chars: "0 \<notin> set (five n)"
proof -
  have "d < 10" if "d \<in> set (digits_of 10 n)" for d using digits_of_bound [of 10 d n] that by simp
  then show ?thesis using digit_byte_nonzero [of _ 0] by (force simp: five_def Let_def numeral_text_def)
qed

lemma dump_row_text:
  assumes "r < 2 ^ 25"
  shows "printed (dump_row s (of_nat r)) = Inr (dump_line s r)"
proof -
  let ?w = "load64 (mem s) (bm_map (pmm_bitmap s) + 8 * of_nat r)"
  have "bit ?w k = page_bit (mem s) (bm_map (pmm_bitmap s)) (64 * r + k)" if "k < 64" for k
    using bit_load_row [OF that, of "mem s" "bm_map (pmm_bitmap s)" r] by simp
  then have row: "row_text (bit ?w) = row_text (\<lambda>k. page_bit (mem s) (bm_map (pmm_bitmap s)) (64 * r + k))"
    unfolding row_text_def by (intro arg_cong [where f = concat] map_cong) auto
  have "prints (bytes_of ''\<newline>'') [] [0x0A]" by (simp add: bytes_of_def of_char_def prints_plain)
  from prints_append [OF bits64 this]
  have "render (lit (PRINTF_BINARY_PATTERN_INT64 @ ''\<newline>'')) (PRINTF_BYTE_TO_BINARY_INT64 ?w) = Inr (row_text (bit ?w) @ [0x0A])"
    by (intro prints_lit) (simp add: bytes_of_append)
  moreover have "0 \<notin> set (row_header r)" using five_chars by (simp add: row_header_def bytes_of_def of_char_def)
  ultimately show ?thesis
    using row_text_chars by (simp add: dump_row_def header_text [OF assms] filter_nonzero dump_line_def row del: BITS_PER_ROW_def)
qed

lemma dump_rows_text:
  "a \<le> b \<Longrightarrow> b \<le> 2 ^ 25 \<Longrightarrow> printed (dump_rows s (of_nat a) (of_nat b)) = Inr (concat (map (dump_line s) [a..<b]))"
proof (induction "b - a" arbitrary: a)
  case 0
  then show ?case by (simp add: dump_rows.simps)
next
  case (Suc n)
  then have ab: "a < b" "a < 2 ^ 25" by simp_all
  have "(of_nat a :: u64) < of_nat b" using ab Suc.prems by (simp add: word_less_nat_alt unat_of_nat)
  then have "dump_rows s (of_nat a) (of_nat b) = dump_row s (of_nat a) @ dump_rows s (of_nat (Suc a)) (of_nat b)"
    by (subst dump_rows.simps) (simp add: add.commute)
  moreover have "printed (dump_rows s (of_nat (Suc a)) (of_nat b)) = Inr (concat (map (dump_line s) [Suc a..<b]))"
    using Suc ab by (intro Suc.hyps) simp_all
  ultimately show ?case using ab by (simp add: printed_append dump_row_text upt_conv_Cons)
qed

text \<open>
  C40. The dump of the bitmap.  pmm_memdump_rows prints one line per row: the numbers of its last and
  first page, padded to five digits, and the states of its 64 pages from the last to the first, a
  1 for a used page, in groups of eight; nothing but the console is changed.
\<close>

theorem memdump_shows_pages:
  assumes "unat row + unat row_count \<le> 2 ^ 25"
  shows "\<exists>calls. pmm_memdump_rows row row_count s = s\<lparr>console := console s @ calls\<rparr> \<and>
    printed calls = Inr (concat (map (dump_line s) [unat row..<unat row + unat row_count]))"
proof (intro exI conjI)
  let ?calls = "ULOG_INFO ''===== MEMMAP ====='' [] # dump_rows s row (row + row_count) @ [ULOG_INFO ''=================='' []]"
  show "pmm_memdump_rows row row_count s = s\<lparr>console := console s @ ?calls\<rparr>" by (simp add: pmm_memdump_rows_def)
  have "printed (dump_rows s (of_nat (unat row)) (of_nat (unat row + unat row_count)))
      = Inr (concat (map (dump_line s) [unat row..<unat row + unat row_count]))"
    using assms by (intro dump_rows_text) simp_all
  then show "printed ?calls = Inr (concat (map (dump_line s) [unat row..<unat row + unat row_count]))"
    by (simp add: printed_append)
qed

text \<open>Row 1 of a bitmap in which page 66 is used and no other.\<close>

definition dump_pmm :: pmm where
  "dump_pmm = demo_boot\<lparr>mem := (\<lambda>_. 0)(8 := 4)\<rparr>"

lemma dump_pmm_line:
  "dump_line dump_pmm 1 = bytes_of ''[ 00127 - 00064 ] 00000000 00000000 00000000 00000000 00000000 00000000 00000000 00000100\<newline>''"
  by code_simp

theorem memdump_shows_pages_witness:
  "\<exists>calls. pmm_memdump_rows 1 1 dump_pmm = dump_pmm\<lparr>console := console dump_pmm @ calls\<rparr> \<and>
     printed calls = Inr (bytes_of ''[ 00127 - 00064 ] 00000000 00000000 00000000 00000000 00000000 00000000 00000000 00000100\<newline>'')"
  using memdump_shows_pages [of 1 1 dump_pmm] by (simp add: dump_pmm_line [unfolded One_nat_def])

end
