(* ===== verification/Cpudet.thy ===== *)
theory Cpudet
  imports Printf_Shape
begin

text \<open>
  CPU detection (kernel/arch/x86_64/cpu/cpudet.c and kernel/include/kernel/cpu/cpudet.h).  The
  cpuid instruction is a parameter: the four registers (eax, ebx, ecx, edx) it gives for a leaf.
  The functions print; what they print is the list of their calls, in order.  int variables that
  are only printed are their 32-bit words.
\<close>

type_synonym cpuid = "u32 \<Rightarrow> u32 \<times> u32 \<times> u32 \<times> u32"

section \<open>Feature bits\<close>

datatype cpuid_feat_ecx =
    CPUID_FEAT_ECX_SSE3 | CPUID_FEAT_ECX_PCLMUL | CPUID_FEAT_ECX_DTES64
  | CPUID_FEAT_ECX_MONITOR | CPUID_FEAT_ECX_DS_CPL | CPUID_FEAT_ECX_VMX
  | CPUID_FEAT_ECX_SMX | CPUID_FEAT_ECX_EST | CPUID_FEAT_ECX_TM2
  | CPUID_FEAT_ECX_SSSE3 | CPUID_FEAT_ECX_CID | CPUID_FEAT_ECX_SDBG
  | CPUID_FEAT_ECX_FMA | CPUID_FEAT_ECX_CX16 | CPUID_FEAT_ECX_XTPR
  | CPUID_FEAT_ECX_PDCM | CPUID_FEAT_ECX_PCID | CPUID_FEAT_ECX_DCA
  | CPUID_FEAT_ECX_SSE4_1 | CPUID_FEAT_ECX_SSE4_2 | CPUID_FEAT_ECX_X2APIC
  | CPUID_FEAT_ECX_MOVBE | CPUID_FEAT_ECX_POPCNT | CPUID_FEAT_ECX_TSC
  | CPUID_FEAT_ECX_AES | CPUID_FEAT_ECX_XSAVE | CPUID_FEAT_ECX_OSXSAVE
  | CPUID_FEAT_ECX_AVX | CPUID_FEAT_ECX_F16C | CPUID_FEAT_ECX_RDRAND
  | CPUID_FEAT_ECX_HYPERVISOR

primrec feat_ecx :: "cpuid_feat_ecx \<Rightarrow> u32" where
  "feat_ecx CPUID_FEAT_ECX_SSE3 = push_bit 0 1"
| "feat_ecx CPUID_FEAT_ECX_PCLMUL = push_bit 1 1"
| "feat_ecx CPUID_FEAT_ECX_DTES64 = push_bit 2 1"
| "feat_ecx CPUID_FEAT_ECX_MONITOR = push_bit 3 1"
| "feat_ecx CPUID_FEAT_ECX_DS_CPL = push_bit 4 1"
| "feat_ecx CPUID_FEAT_ECX_VMX = push_bit 5 1"
| "feat_ecx CPUID_FEAT_ECX_SMX = push_bit 6 1"
| "feat_ecx CPUID_FEAT_ECX_EST = push_bit 7 1"
| "feat_ecx CPUID_FEAT_ECX_TM2 = push_bit 8 1"
| "feat_ecx CPUID_FEAT_ECX_SSSE3 = push_bit 9 1"
| "feat_ecx CPUID_FEAT_ECX_CID = push_bit 10 1"
| "feat_ecx CPUID_FEAT_ECX_SDBG = push_bit 11 1"
| "feat_ecx CPUID_FEAT_ECX_FMA = push_bit 12 1"
| "feat_ecx CPUID_FEAT_ECX_CX16 = push_bit 13 1"
| "feat_ecx CPUID_FEAT_ECX_XTPR = push_bit 14 1"
| "feat_ecx CPUID_FEAT_ECX_PDCM = push_bit 15 1"
| "feat_ecx CPUID_FEAT_ECX_PCID = push_bit 17 1"
| "feat_ecx CPUID_FEAT_ECX_DCA = push_bit 18 1"
| "feat_ecx CPUID_FEAT_ECX_SSE4_1 = push_bit 19 1"
| "feat_ecx CPUID_FEAT_ECX_SSE4_2 = push_bit 20 1"
| "feat_ecx CPUID_FEAT_ECX_X2APIC = push_bit 21 1"
| "feat_ecx CPUID_FEAT_ECX_MOVBE = push_bit 22 1"
| "feat_ecx CPUID_FEAT_ECX_POPCNT = push_bit 23 1"
| "feat_ecx CPUID_FEAT_ECX_TSC = push_bit 24 1"
| "feat_ecx CPUID_FEAT_ECX_AES = push_bit 25 1"
| "feat_ecx CPUID_FEAT_ECX_XSAVE = push_bit 26 1"
| "feat_ecx CPUID_FEAT_ECX_OSXSAVE = push_bit 27 1"
| "feat_ecx CPUID_FEAT_ECX_AVX = push_bit 28 1"
| "feat_ecx CPUID_FEAT_ECX_F16C = push_bit 29 1"
| "feat_ecx CPUID_FEAT_ECX_RDRAND = push_bit 30 1"
| "feat_ecx CPUID_FEAT_ECX_HYPERVISOR = push_bit 31 1"

datatype cpuid_feat_edx =
    CPUID_FEAT_EDX_FPU | CPUID_FEAT_EDX_VME | CPUID_FEAT_EDX_DE
  | CPUID_FEAT_EDX_PSE | CPUID_FEAT_EDX_TSC | CPUID_FEAT_EDX_MSR
  | CPUID_FEAT_EDX_PAE | CPUID_FEAT_EDX_MCE | CPUID_FEAT_EDX_CX8
  | CPUID_FEAT_EDX_APIC | CPUID_FEAT_EDX_SEP | CPUID_FEAT_EDX_MTRR
  | CPUID_FEAT_EDX_PGE | CPUID_FEAT_EDX_MCA | CPUID_FEAT_EDX_CMOV
  | CPUID_FEAT_EDX_PAT | CPUID_FEAT_EDX_PSE36 | CPUID_FEAT_EDX_PSN
  | CPUID_FEAT_EDX_CLFLUSH | CPUID_FEAT_EDX_DS | CPUID_FEAT_EDX_ACPI
  | CPUID_FEAT_EDX_MMX | CPUID_FEAT_EDX_FXSR | CPUID_FEAT_EDX_SSE
  | CPUID_FEAT_EDX_SSE2 | CPUID_FEAT_EDX_SS | CPUID_FEAT_EDX_HTT
  | CPUID_FEAT_EDX_TM | CPUID_FEAT_EDX_IA64 | CPUID_FEAT_EDX_PBE

primrec feat_edx :: "cpuid_feat_edx \<Rightarrow> u32" where
  "feat_edx CPUID_FEAT_EDX_FPU = push_bit 0 1"
| "feat_edx CPUID_FEAT_EDX_VME = push_bit 1 1"
| "feat_edx CPUID_FEAT_EDX_DE = push_bit 2 1"
| "feat_edx CPUID_FEAT_EDX_PSE = push_bit 3 1"
| "feat_edx CPUID_FEAT_EDX_TSC = push_bit 4 1"
| "feat_edx CPUID_FEAT_EDX_MSR = push_bit 5 1"
| "feat_edx CPUID_FEAT_EDX_PAE = push_bit 6 1"
| "feat_edx CPUID_FEAT_EDX_MCE = push_bit 7 1"
| "feat_edx CPUID_FEAT_EDX_CX8 = push_bit 8 1"
| "feat_edx CPUID_FEAT_EDX_APIC = push_bit 9 1"
| "feat_edx CPUID_FEAT_EDX_SEP = push_bit 11 1"
| "feat_edx CPUID_FEAT_EDX_MTRR = push_bit 12 1"
| "feat_edx CPUID_FEAT_EDX_PGE = push_bit 13 1"
| "feat_edx CPUID_FEAT_EDX_MCA = push_bit 14 1"
| "feat_edx CPUID_FEAT_EDX_CMOV = push_bit 15 1"
| "feat_edx CPUID_FEAT_EDX_PAT = push_bit 16 1"
| "feat_edx CPUID_FEAT_EDX_PSE36 = push_bit 17 1"
| "feat_edx CPUID_FEAT_EDX_PSN = push_bit 18 1"
| "feat_edx CPUID_FEAT_EDX_CLFLUSH = push_bit 19 1"
| "feat_edx CPUID_FEAT_EDX_DS = push_bit 21 1"
| "feat_edx CPUID_FEAT_EDX_ACPI = push_bit 22 1"
| "feat_edx CPUID_FEAT_EDX_MMX = push_bit 23 1"
| "feat_edx CPUID_FEAT_EDX_FXSR = push_bit 24 1"
| "feat_edx CPUID_FEAT_EDX_SSE = push_bit 25 1"
| "feat_edx CPUID_FEAT_EDX_SSE2 = push_bit 26 1"
| "feat_edx CPUID_FEAT_EDX_SS = push_bit 27 1"
| "feat_edx CPUID_FEAT_EDX_HTT = push_bit 28 1"
| "feat_edx CPUID_FEAT_EDX_TM = push_bit 29 1"
| "feat_edx CPUID_FEAT_EDX_IA64 = push_bit 30 1"
| "feat_edx CPUID_FEAT_EDX_PBE = push_bit 31 1"

definition check_apic :: "cpuid \<Rightarrow> u32" where
  "check_apic cpuid = (case cpuid 1 of (eax, unused1, unused2, edx) \<Rightarrow> edx AND feat_edx CPUID_FEAT_EDX_APIC)"

definition check_msr :: "cpuid \<Rightarrow> u32" where
  "check_msr cpuid = (case cpuid 1 of (eax, unused1, unused2, edx) \<Rightarrow> edx AND feat_edx CPUID_FEAT_EDX_MSR)"

section \<open>Brands\<close>

definition Intel :: "string list" where
  "Intel = [
     ''Brand ID Not Supported.'',
     ''Intel(R) Celeron(R) processor'',
     ''Intel(R) Pentium(R) III processor'',
     ''Intel(R) Pentium(R) III Xeon(R) processor'',
     ''Intel(R) Pentium(R) III processor'',
     ''Reserved'',
     ''Mobile Intel(R) Pentium(R) III processor-M'',
     ''Mobile Intel(R) Celeron(R) processor'',
     ''Intel(R) Pentium(R) 4 processor'',
     ''Intel(R) Pentium(R) 4 processor'',
     ''Intel(R) Celeron(R) processor'',
     ''Intel(R) Xeon(R) Processor'',
     ''Intel(R) Xeon(R) processor MP'',
     ''Reserved'',
     ''Mobile Intel(R) Pentium(R) 4 processor-M'',
     ''Mobile Intel(R) Pentium(R) Celeron(R) processor'',
     ''Reserved'',
     ''Mobile Genuine Intel(R) processor'',
     ''Intel(R) Celeron(R) M processor'',
     ''Mobile Intel(R) Celeron(R) processor'',
     ''Intel(R) Celeron(R) processor'',
     ''Mobile Geniune Intel(R) processor'',
     ''Intel(R) Pentium(R) M processor'',
     ''Mobile Intel(R) Celeron(R) processor'']"

definition Intel_Other :: "string list" where
  "Intel_Other = [
     ''Reserved'',
     ''Reserved'',
     ''Reserved'',
     ''Intel(R) Celeron(R) processor'',
     ''Reserved'',
     ''Reserved'',
     ''Reserved'',
     ''Reserved'',
     ''Reserved'',
     ''Reserved'',
     ''Reserved'',
     ''Intel(R) Xeon(R) processor MP'',
     ''Reserved'',
     ''Reserved'',
     ''Intel(R) Xeon(R) processor'',
     ''Reserved'',
     ''Reserved'',
     ''Reserved'',
     ''Reserved'',
     ''Reserved'',
     ''Reserved'',
     ''Reserved'',
     ''Reserved'',
     ''Reserved'']"

section \<open>The registers as text\<close>

text \<open>\<open>string[j] = eax >> (8 * j)\<close>: an arithmetic shift of an int, cut to a char.\<close>

definition reg_byte :: "u32 \<Rightarrow> nat \<Rightarrow> u8" where
  "reg_byte r j = ucast (signed_drop_bit (8 * j) r)"

definition printregs :: "u32 \<Rightarrow> u32 \<Rightarrow> u32 \<Rightarrow> u32 \<Rightarrow> console_call" where
  "printregs eax ebx ecx edx =
     (let s0 = (replicate 17 0)[16 := 0];
          s1 = fold (\<lambda>j s. s[j := reg_byte eax j, j + 4 := reg_byte ebx j,
                            j + 8 := reg_byte ecx j, j + 12 := reg_byte edx j]) [0..<4] s0
      in Printf ''%s'' [Str s1])"

definition print_leaf :: "cpuid \<Rightarrow> u32 \<Rightarrow> console_call" where
  "print_leaf cpuid leaf = (case cpuid leaf of (eax, ebx, ecx, edx) \<Rightarrow> printregs eax ebx ecx edx)"

section \<open>Intel\<close>

abbreviation int_arg32 :: "u32 \<Rightarrow> varg" where
  "int_arg32 v \<equiv> Word (ucast v)"

definition intel_type :: "u32 \<Rightarrow> console_call list" where
  "intel_type type =
     [Printf ''Type %d - '' [int_arg32 type]] @
     (if type = 0 then [Printf ''Original OEM'' []]
      else if type = 1 then [Printf ''Overdrive'' []]
      else if type = 2 then [Printf ''Dual-capable'' []]
      else if type = 3 then [Printf ''Reserved'' []]
      else []) @
     [Printf ''\<newline>'' []]"

definition intel_family :: "u32 \<Rightarrow> console_call list" where
  "intel_family family =
     [Printf ''Family %d - '' [int_arg32 family]] @
     (if family = 3 then [Printf ''i386'' []]
      else if family = 4 then [Printf ''i486'' []]
      else if family = 5 then [Printf ''Pentium'' []]
      else if family = 6 then [Printf ''Pentium Pro'' []]
      else if family = 15 then [Printf ''Pentium 4'' []]
      else []) @
     [Printf ''\<newline>'' []]"

definition intel_model_name :: "u32 \<Rightarrow> u32 \<Rightarrow> console_call list" where
  "intel_model_name family model =
     (if family = 4 then
        if model = 0 \<or> model = 1 then [Printf ''DX'' []]
        else if model = 2 then [Printf ''SX'' []]
        else if model = 3 then [Printf ''487/DX2'' []]
        else if model = 4 then [Printf ''SL'' []]
        else if model = 5 then [Printf ''SX2'' []]
        else if model = 7 then [Printf ''Write-back enhanced DX2'' []]
        else if model = 8 then [Printf ''DX4'' []]
        else []
      else if family = 5 then
        if model = 1 then [Printf ''60/66'' []]
        else if model = 2 then [Printf ''75-200'' []]
        else if model = 3 then [Printf ''for 486 system'' []]
        else if model = 4 then [Printf ''MMX'' []]
        else []
      else if family = 6 then
        if model = 1 then [Printf ''Pentium Pro'' []]
        else if model = 3 then [Printf ''Pentium II Model 3'' []]
        else if model = 5 then [Printf ''Pentium II Model 5/Xeon/Celeron'' []]
        else if model = 6 then [Printf ''Celeron'' []]
        else if model = 7 then [Printf ''Pentium III/Pentium III Xeon - external L2 cache'' []]
        else if model = 8 then [Printf ''Pentium III/Pentium III Xeon - internal L2 cache'' []]
        else []
      else [])"

definition intel_brand :: "cpuid \<Rightarrow> u32 \<Rightarrow> u32 \<Rightarrow> console_call list" where
  "intel_brand cpuid brand signature =
     (let (max_eax, unused) = cpuid 0x80000000 in
      if max_eax \<ge> 0x80000004 then
        [Printf ''Brand: '' []] @
        (if max_eax \<ge> 0x80000002 then [print_leaf cpuid 0x80000002] else []) @
        (if max_eax \<ge> 0x80000003 then [print_leaf cpuid 0x80000003] else []) @
        (if max_eax \<ge> 0x80000004 then [print_leaf cpuid 0x80000004] else []) @
        [Printf ''\<newline>'' []]
      else if brand > 0 then
        [Printf ''Brand %d - '' [int_arg32 brand]] @
        (if brand < 0x18 then
           if signature = 0x000006B1 \<or> signature = 0x00000F13
           then [Printf ''%s\<newline>'' [Str (lit (Intel_Other ! unat brand))]]
           else [Printf ''%s\<newline>'' [Str (lit (Intel ! unat brand))]]
         else [Printf ''Reserved\<newline>'' []])
      else [])"

definition do_intel :: "cpuid \<Rightarrow> console_call list" where
  "do_intel cpuid =
     (let (eax, ebx, unused) = cpuid 1;
          model = drop_bit 4 eax AND 0xF;
          family = drop_bit 8 eax AND 0xF;
          type = drop_bit 12 eax AND 0x3;
          brand = ebx AND 0xFF;
          stepping = eax AND 0xF;
          reserved = drop_bit 14 eax;
          signature = eax
      in [Printf ''Intel Specific Features:\<newline>'' []] @
         intel_type type @
         intel_family family @
         (if family = 15
          then [Printf ''Extended family %d\<newline>'' [int_arg32 (drop_bit 20 eax AND 0xFF)]] else []) @
         [Printf ''Model %d - '' [int_arg32 model]] @
         intel_model_name family model @
         [Printf ''\<newline>'' []] @
         intel_brand cpuid brand signature @
         [Printf ''Stepping: %d Reserved: %d\<newline>'' [int_arg32 stepping, int_arg32 reserved]])"

section \<open>AMD\<close>

definition amd_model :: "u32 \<Rightarrow> u32 \<Rightarrow> console_call list" where
  "amd_model family model =
     (if family = 4 then [Printf ''486 Model %d'' [int_arg32 model]]
      else if family = 5 then
        if model \<in> {0, 1, 2, 3, 6, 7} then [Printf ''K6 Model %d'' [int_arg32 model]]
        else if model = 8 then [Printf ''K6-2 Model 8'' []]
        else if model = 9 then [Printf ''K6-III Model 9'' []]
        else [Printf ''K5/K6 Model %d'' [int_arg32 model]]
      else if family = 6 then
        if model \<in> {1, 2, 4} then [Printf ''Athlon Model %d'' [int_arg32 model]]
        else if model = 3 then [Printf ''Duron Model 3'' []]
        else if model = 6 then [Printf ''Athlon MP/Mobile Athlon Model 6'' []]
        else if model = 7 then [Printf ''Mobile Duron Model 7'' []]
        else [Printf ''Duron/Athlon Model %d'' [int_arg32 model]]
      else [])"

text \<open>The loop \<open>for (j = 0x80000002; j <= 0x80000004; j++)\<close>, with the counter relative to 0x80000000.\<close>

function print_leaves :: "cpuid \<Rightarrow> nat \<Rightarrow> console_call list" where
  "print_leaves cpuid j =
     (if j \<le> 4 then print_leaf cpuid (0x80000000 + of_nat j) # print_leaves cpuid (Suc j) else [])"
  by pat_completeness auto
termination by (relation "measure (\<lambda>(cpuid, j). 5 - j)") auto

declare print_leaves.simps [simp del]

definition amd_extended :: "cpuid \<Rightarrow> u32 \<Rightarrow> u32 \<Rightarrow> console_call list" where
  "amd_extended cpuid stepping reserved =
     (let (extended, unused) = cpuid 0x80000000 in
      if extended = 0 then []
      else
        (if extended \<ge> 0x80000002 then
           [Printf ''Detected Processor Name: '' []] @ print_leaves cpuid 2 @ [Printf ''\<newline>'' []] else []) @
        (if extended \<ge> 0x80000007 then
           (case cpuid 0x80000007 of (unused1, unused2, unused3, edx) \<Rightarrow>
              if edx AND 1 \<noteq> 0 then [Printf ''Temperature Sensing Diode Detected!\<newline>'' []] else [])
         else []) @
        [Printf ''Stepping: %d Reserved: %d\<newline>'' [int_arg32 stepping, int_arg32 reserved]])"

definition do_amd :: "cpuid \<Rightarrow> console_call list" where
  "do_amd cpuid =
     (let (eax, unused) = cpuid 1;
          model = drop_bit 4 eax AND 0xF;
          family = drop_bit 8 eax AND 0xF;
          stepping = eax AND 0xF;
          reserved = drop_bit 12 eax
      in [Printf ''AMD Specific Features:\<newline>'' [],
          Printf ''Family: %d Model: %d ['' [int_arg32 family, int_arg32 model]] @
         amd_model family model @
         [Printf '']\<newline>'' []] @
         amd_extended cpuid stepping reserved)"

section \<open>Detection\<close>

definition detect_cpu :: "cpuid \<Rightarrow> console_call list" where
  "detect_cpu cpuid =
     (case cpuid 0 of (unused1, ebx, unused2, unused3) \<Rightarrow>
        if ebx = 0x756e6547 then do_intel cpuid
        else if ebx = 0x68747541 then do_amd cpuid
        else [Printf ''Unknown x86 CPU Detected\<newline>'' []])"

end
