(* ===== verification/Cpudet_Text.thy ===== *)
theory Cpudet_Text
  imports Cpudet
begin

text \<open>
  What the CPU detection prints: it never fails, whatever cpuid answers, and the brand string
  the processor keeps in three leaves appears in the output as it is.
\<close>

section \<open>Formats\<close>

text \<open>The formats with directives, checked once.\<close>

lemma cpu_formats:
  "fmt_ok ''%s'' [Str_arg]" "fmt_ok ''%s\<newline>'' [Str_arg]" "fmt_ok ''Type %d - '' [Int_arg]" "fmt_ok ''Family %d - '' [Int_arg]"
  "fmt_ok ''Extended family %d\<newline>'' [Int_arg]" "fmt_ok ''Model %d - '' [Int_arg]" "fmt_ok ''Brand %d - '' [Int_arg]"
  "fmt_ok ''Stepping: %d Reserved: %d\<newline>'' [Int_arg, Int_arg]" "fmt_ok ''Family: %d Model: %d ['' [Int_arg, Int_arg]"
  "fmt_ok ''486 Model %d'' [Int_arg]" "fmt_ok ''K6 Model %d'' [Int_arg]" "fmt_ok ''K5/K6 Model %d'' [Int_arg]"
  "fmt_ok ''Athlon Model %d'' [Int_arg]" "fmt_ok ''Duron/Athlon Model %d'' [Int_arg]"
  by code_simp+

lemma plain_call: "list_all (\<lambda>c. c \<noteq> 0 \<and> c \<noteq> 0x25) (bytes_of f) \<Longrightarrow> call_ok (Printf f [])"
  using fmt_ok_render [OF fmt_ok_plain, of f "[]"] by simp

lemma int_call: "fmt_ok f [Int_arg] \<Longrightarrow> call_ok (Printf f [Word a])"
  using fmt_ok_render [of f "[Int_arg]" "[Word a]"] by simp

lemma int2_call: "fmt_ok f [Int_arg, Int_arg] \<Longrightarrow> call_ok (Printf f [Word a, Word b])"
  using fmt_ok_render [of f "[Int_arg, Int_arg]" "[Word a, Word b]"] by simp

lemma str_call: "fmt_ok f [Str_arg] \<Longrightarrow> 0 \<in> set s \<Longrightarrow> call_ok (Printf f [Str s])"
  using fmt_ok_render [of f "[Str_arg]" "[Str s]"] by simp

lemma zero_in_lit: "0 \<in> set (lit s)"
  by (simp add: lit_def)

section \<open>The registers as text\<close>

text \<open>The bytes of a register, lowest first.\<close>

definition le_bytes :: "u32 \<Rightarrow> u8 list" where
  "le_bytes r = map (\<lambda>j. ucast (drop_bit (8 * j) r)) [0..<4]"

definition leaf_bytes :: "u32 \<times> u32 \<times> u32 \<times> u32 \<Rightarrow> u8 list" where
  "leaf_bytes leaf = (case leaf of (eax, ebx, ecx, edx) \<Rightarrow> le_bytes eax @ le_bytes ebx @ le_bytes ecx @ le_bytes edx)"

lemma reg_byte_drop:
  assumes "j < 4" shows "reg_byte r j = ucast (drop_bit (8 * j) r)"
proof (rule bit_word_eqI)
  fix k assume "k < LENGTH(8)"
  then have "8 * j + k < 32" using assms by simp
  then show "bit (reg_byte r j) k = bit (ucast (drop_bit (8 * j) r) :: u8) k"
    using \<open>k < LENGTH(8)\<close> by (auto simp: reg_byte_def bit_ucast_iff bit_signed_drop_bit_iff bit_drop_bit_eq)
qed

lemma printregs_leaf:
  "printregs eax ebx ecx edx = Printf ''%s'' [Str (leaf_bytes (eax, ebx, ecx, edx) @ [0])]"
proof -
  have up: "[0..<4] = [0, 1, 2, 3 :: nat]" by (simp add: upt_rec)
  have r: "replicate 17 (0 :: u8) = [0,0,0,0,0,0,0,0,0,0,0,0,0,0,0,0,0]" by (simp add: eval_nat_numeral)
  show ?thesis
    unfolding printregs_def Let_def leaf_bytes_def le_bytes_def up r by (simp add: reg_byte_drop)
qed

lemma print_leaf_eq: "print_leaf cpuid l = Printf ''%s'' [Str (leaf_bytes (cpuid l) @ [0])]"
  by (cases "cpuid l") (simp add: print_leaf_def printregs_leaf)

lemma print_leaf_ok: "call_ok (print_leaf cpuid l)"
  unfolding print_leaf_eq by (rule str_call [OF cpu_formats(1)]) simp

text \<open>Printed up to the first NUL.\<close>

definition c_text :: "u8 list \<Rightarrow> u8 list" where
  "c_text s = takeWhile (\<lambda>c. c \<noteq> 0) s"

lemma print_leaf_text: "call_text (print_leaf cpuid l) = Inr (c_text (leaf_bytes (cpuid l)))"
proof -
  let ?s = "leaf_bytes (cpuid l) @ [0]"
  have "\<exists>r. ?s = c_text (leaf_bytes (cpuid l)) @ 0 # r"
  proof (cases "0 \<in> set (leaf_bytes (cpuid l))")
    case True
    then obtain a b where ab: "leaf_bytes (cpuid l) = a @ 0 # b" "0 \<notin> set a" by (metis split_list_first)
    then have "c_text (leaf_bytes (cpuid l)) = a" by (auto simp: c_text_def takeWhile_tail)
    with ab show ?thesis by simp
  next
    case False
    then have "c_text (leaf_bytes (cpuid l)) = leaf_bytes (cpuid l)"
      unfolding c_text_def by (subst takeWhile_eq_all_conv) auto
    then show ?thesis by simp
  qed
  then obtain r where s: "?s = c_text (leaf_bytes (cpuid l)) @ 0 # r" by blast
  have nz: "0 \<notin> set (c_text (leaf_bytes (cpuid l)))" by (auto simp: c_text_def dest: set_takeWhileD)
  have l: "lit ''%s'' = [0x25, 0x73, 0]" by (simp add: lit_def bytes_of_def of_char_def)
  have "render (lit ''%s'') [Str ?s] = Inr (c_text (leaf_bytes (cpuid l)))"
    unfolding s l by (simp add: directive_string [OF nz])
  then show ?thesis using nz by (simp add: print_leaf_eq filter_nonzero)
qed

section \<open>Nothing fails\<close>

lemma plain_bytes: "list_all P (bytes_of []) = True" "list_all P (bytes_of (c # cs)) = (P (of_char c) \<and> list_all P (bytes_of cs))"
  by (simp_all add: bytes_of_def)

lemmas call_rules = plain_call int_call int2_call str_call cpu_formats zero_in_lit print_leaf_ok

lemma intel_type_ok: "list_all call_ok (intel_type type)"
  by (auto simp: intel_type_def plain_bytes of_char_def simp del: call_ok.simps intro!: call_rules)

lemma intel_family_ok: "list_all call_ok (intel_family family)"
  by (auto simp: intel_family_def plain_bytes of_char_def simp del: call_ok.simps intro!: call_rules)

lemma intel_model_ok: "list_all call_ok (intel_model_name family model)"
  by (auto simp: intel_model_name_def plain_bytes of_char_def simp del: call_ok.simps intro!: call_rules)

lemma intel_brand_ok: "list_all call_ok (intel_brand cpuid brand signature)"
  by (cases "cpuid 0x80000000")
    (auto simp: intel_brand_def plain_bytes of_char_def simp del: call_ok.simps intro!: call_rules)

lemma do_intel_ok: "list_all call_ok (do_intel cpuid)"
  by (cases "cpuid 1")
    (auto simp: do_intel_def Let_def intel_type_ok intel_family_ok intel_model_ok intel_brand_ok plain_bytes of_char_def
      simp del: call_ok.simps intro!: call_rules)

lemma amd_model_ok: "list_all call_ok (amd_model family model)"
  by (auto simp: amd_model_def plain_bytes of_char_def simp del: call_ok.simps intro!: call_rules)

lemma print_leaves_all: "print_leaves cpuid 2 = map (print_leaf cpuid) [0x80000002, 0x80000003, 0x80000004]"
  by (simp add: print_leaves.simps)

lemma amd_extended_ok: "list_all call_ok (amd_extended cpuid stepping reserved)"
  by (cases "cpuid 0x80000000"; cases "cpuid 0x80000007")
    (auto simp: amd_extended_def Let_def print_leaves_all plain_bytes of_char_def simp del: call_ok.simps intro!: call_rules)

lemma do_amd_ok: "list_all call_ok (do_amd cpuid)"
  by (cases "cpuid 1")
    (auto simp: do_amd_def Let_def amd_model_ok amd_extended_ok plain_bytes of_char_def
      simp del: call_ok.simps intro!: call_rules)

lemma detect_cpu_ok: "list_all call_ok (detect_cpu cpuid)"
  by (cases "cpuid 0")
    (auto simp: detect_cpu_def do_intel_ok do_amd_ok plain_bytes of_char_def simp del: call_ok.simps intro!: call_rules)

section \<open>The brand string\<close>

text \<open>The 48 bytes the processor keeps in three leaves, as they are printed.\<close>

definition brand_text :: "cpuid \<Rightarrow> u8 list" where
  "brand_text cpuid = concat (map (\<lambda>l. c_text (leaf_bytes (cpuid l))) [0x80000002, 0x80000003, 0x80000004])"

definition brand_calls :: "string \<Rightarrow> cpuid \<Rightarrow> console_call list" where
  "brand_calls heading cpuid = Printf heading [] # map (print_leaf cpuid) [0x80000002, 0x80000003, 0x80000004] @ [Printf ''\<newline>'' []]"

lemma plain_text:
  assumes "list_all (\<lambda>c. c \<noteq> 0 \<and> c \<noteq> 0x25) (bytes_of f)"
  shows "call_text (Printf f []) = Inr (bytes_of f)"
proof -
  have "0 \<notin> set (bytes_of f)" using assms by (auto simp: list_all_iff)
  then show ?thesis using render_plain [of "bytes_of f" "[0]" "[]"] assms by (simp add: lit_def list_all_iff filter_nonzero)
qed

lemma brand_calls_text:
  assumes "list_all (\<lambda>c. c \<noteq> 0 \<and> c \<noteq> 0x25) (bytes_of heading)"
  shows "printed (brand_calls heading cpuid) = Inr (bytes_of heading @ brand_text cpuid @ [0x0A])"
proof -
  have n: "call_text (Printf ''\<newline>'' []) = Inr [0x0A]"
    using plain_text [of "''\<newline>''"] by (simp add: bytes_of_def of_char_def del: call_text.simps)
  show ?thesis
    by (simp add: brand_calls_def brand_text_def print_leaf_text plain_text [OF assms] n del: call_text.simps)
qed

lemma printed_within:
  assumes "list_all call_ok (cs @ ds @ es)" "printed ds = Inr d"
  shows "\<exists>p q. printed (cs @ ds @ es) = Inr (p @ d @ q)"
proof -
  obtain p q where "printed cs = Inr p" "printed es = Inr q"
    using assms(1) printed_ok [of cs] printed_ok [of es] by auto
  with assms(2) show ?thesis by (intro exI [of _ p] exI [of _ q]) (simp add: printed_append)
qed

lemma do_intel_brand:
  assumes "fst (cpuid 0x80000000) \<ge> 0x80000004"
  shows "\<exists>cs es. do_intel cpuid = cs @ brand_calls ''Brand: '' cpuid @ es"
proof -
  have le: "0x80000002 \<le> fst (cpuid 0x80000000)" "0x80000003 \<le> fst (cpuid 0x80000000)"
    using assms by (auto elim: order_trans [rotated])
  obtain eax ebx rest where c1: "cpuid 1 = (eax, ebx, rest)" by (cases "cpuid 1") auto
  have b: "intel_brand cpuid brand signature = brand_calls ''Brand: '' cpuid" for brand signature
    using assms le by (simp add: intel_brand_def brand_calls_def split_def)
  show ?thesis unfolding do_intel_def c1 Let_def prod.case b by (metis append.assoc)
qed

lemma do_amd_brand:
  assumes "fst (cpuid 0x80000000) \<ge> 0x80000002"
  shows "\<exists>cs es. do_amd cpuid = cs @ brand_calls ''Detected Processor Name: '' cpuid @ es"
proof -
  have nz: "fst (cpuid 0x80000000) \<noteq> 0" using assms by auto
  obtain eax rest where c1: "cpuid 1 = (eax, rest)" by (cases "cpuid 1") auto
  have b: "\<exists>es. amd_extended cpuid stepping reserved = brand_calls ''Detected Processor Name: '' cpuid @ es" for stepping reserved
    using assms nz by (simp add: amd_extended_def brand_calls_def split_def print_leaves_all)
  obtain es where "amd_extended cpuid (eax AND 0xF) (drop_bit 12 eax) = brand_calls ''Detected Processor Name: '' cpuid @ es"
    using b by blast
  then show ?thesis unfolding do_amd_def c1 Let_def prod.case by (metis append.assoc)
qed

section \<open>Properties\<close>

text \<open>
  C31. CPU detection never fails: whatever the processor answers, every call of printf is well
  formed and every table index in range, so that there is a text.  On a processor of either
  vendor that keeps a brand string (the leaves up to 0x80000004 on Intel), the text contains the
  heading, the characters of the string in the order of the registers eax, ebx, ecx, edx, low
  byte first, and a newline, without anything in between.
\<close>

theorem detect_cpu_report:
  "\<exists>t. printed (detect_cpu cpuid) = Inr t \<and>
     (let vendor = fst (snd (cpuid 0)); extended = fst (cpuid 0x80000000) in
      if vendor = 0x756e6547 \<and> extended \<ge> 0x80000004
      then \<exists>p q. t = p @ (bytes_of ''Brand: '' @ brand_text cpuid @ [0x0A]) @ q
      else if vendor = 0x68747541 \<and> extended \<ge> 0x80000002
      then \<exists>p q. t = p @ (bytes_of ''Detected Processor Name: '' @ brand_text cpuid @ [0x0A]) @ q
      else vendor \<in> {0x756e6547, 0x68747541} \<or> t = bytes_of ''Unknown x86 CPU Detected\<newline>'')"
proof -
  obtain a vendor r where c0: "cpuid 0 = (a, vendor, r)" by (cases "cpuid 0") auto
  consider (intel) "vendor = 0x756e6547" "fst (cpuid 0x80000000) \<ge> 0x80000004"
    | (amd) "vendor = 0x68747541" "fst (cpuid 0x80000000) \<ge> 0x80000002"
    | (unknown) "vendor \<notin> {0x756e6547, 0x68747541}"
    | (plain) "vendor \<in> {0x756e6547, 0x68747541}" "\<not> (vendor = 0x756e6547 \<and> fst (cpuid 0x80000000) \<ge> 0x80000004)"
        "\<not> (vendor = 0x68747541 \<and> fst (cpuid 0x80000000) \<ge> 0x80000002)"
    by blast
  then show ?thesis
  proof cases
    case intel
    then have d: "detect_cpu cpuid = do_intel cpuid" by (simp add: detect_cpu_def c0 split_def)
    obtain cs es where "do_intel cpuid = cs @ brand_calls ''Brand: '' cpuid @ es" using do_intel_brand [of cpuid] intel(2) by blast
    with printed_within [of cs "brand_calls ''Brand: '' cpuid" es] do_intel_ok [of cpuid] brand_calls_text [of "''Brand: ''" cpuid]
    show ?thesis using intel by (auto simp: d c0 plain_bytes of_char_def)
  next
    case amd
    then have d: "detect_cpu cpuid = do_amd cpuid" by (simp add: detect_cpu_def c0 split_def)
    obtain cs es where "do_amd cpuid = cs @ brand_calls ''Detected Processor Name: '' cpuid @ es" using do_amd_brand [of cpuid] amd(2) by blast
    with printed_within [of cs "brand_calls ''Detected Processor Name: '' cpuid" es] do_amd_ok [of cpuid]
      brand_calls_text [of "''Detected Processor Name: ''" cpuid]
    show ?thesis using amd by (auto simp: d c0 plain_bytes of_char_def)
  next
    case unknown
    then have "detect_cpu cpuid = [Printf ''Unknown x86 CPU Detected\<newline>'' []]"
      by (simp add: detect_cpu_def c0 split_def)
    moreover have "call_text (Printf ''Unknown x86 CPU Detected\<newline>'' []) = Inr (bytes_of ''Unknown x86 CPU Detected\<newline>'')"
      by (rule plain_text) (simp add: plain_bytes of_char_def)
    ultimately have "printed (detect_cpu cpuid) = Inr (bytes_of ''Unknown x86 CPU Detected\<newline>'')" by simp
    with unknown show ?thesis by (auto simp: c0)
  next
    case plain
    with printed_ok [OF detect_cpu_ok [of cpuid]] show ?thesis by (auto simp: c0)
  qed
qed

text \<open>The feature tests look at one bit each.\<close>

lemma check_bits:
  "check_apic cpuid \<noteq> 0 \<longleftrightarrow> bit (snd (snd (snd (cpuid 1)))) 9"
  "check_msr cpuid \<noteq> 0 \<longleftrightarrow> bit (snd (snd (snd (cpuid 1)))) 5"
proof -
  have "w AND push_bit n 1 \<noteq> 0 \<longleftrightarrow> bit w n" if "n < 32" for w :: u32 and n
  proof -
    have "bit (w AND push_bit n 1) k \<longleftrightarrow> k = n \<and> bit w n" for k
      using that by (auto simp: bit_and_iff bit_push_bit_iff bit_1_iff bit_exp_iff)
    then show ?thesis by (metis bit_0_eq bot_apply bot_bool_def bit_word_eqI)
  qed
  from this [of 9 "snd (snd (snd (cpuid 1)))"] this [of 5 "snd (snd (snd (cpuid 1)))"]
  show "check_apic cpuid \<noteq> 0 \<longleftrightarrow> bit (snd (snd (snd (cpuid 1)))) 9" "check_msr cpuid \<noteq> 0 \<longleftrightarrow> bit (snd (snd (snd (cpuid 1)))) 5"
    by (simp_all add: check_apic_def check_msr_def split_def)
qed

end
