(* ===== verification/Console_Run.thy ===== *)
theory Console_Run
  imports Memory Cpudet_Text
begin

text \<open>
  What the console calls of the components do.  The components keep the calls they make in
  lists; here a call is run on the state of the log and the terminal (theory Klog), and a list
  of calls one after the other.

  With a serial port that works a list of well-formed calls runs to its end: the terminal stays
  in its invariant, and the serial port gets one line for every message of severity DEBUG or
  above, in order.
\<close>

section \<open>Running calls\<close>

fun run_call :: "log_env \<Rightarrow> console_call \<Rightarrow> kernel \<Rightarrow> kernel outcome" where
  "run_call env (Ulog severity f va) k = log_message env severity (lit f) va k"
| "run_call env (Printf f va) k =
     rbind (printf (putchar_char terminal_write_char) (lit f) va (k_tty k)) (\<lambda>(n, t). Inr (k\<lparr>k_tty := t\<rparr>))"
| "run_call env (Set_text_color c) k = Inr (k\<lparr>k_tty := terminal_set_text_color c (k_tty k)\<rparr>)"
| "run_call env Reset_text_color k = Inr (k\<lparr>k_tty := terminal_reset_text_color (k_tty k)\<rparr>)"

fun run_calls :: "log_env \<Rightarrow> console_call list \<Rightarrow> kernel \<Rightarrow> kernel outcome" where
  "run_calls env [] k = Inr k"
| "run_calls env (c # cs) k = rbind (run_call env c k) (run_calls env cs)"

lemma run_calls_append: "run_calls env (cs @ ds) k = rbind (run_calls env cs k) (run_calls env ds)"
  by (induction cs arbitrary: k) (simp, simp add: rbind_assoc cong: rbind_cong)

section \<open>The length of a text\<close>

text \<open>A directive writes at most its width, which has 32 bits, or its conversion.\<close>

definition directive_max :: nat where "directive_max = 2 ^ 32 + 33 * FTOA_FUEL"

fun arg_size :: "varg \<Rightarrow> nat" where
  "arg_size (Str s) = length s"
| "arg_size _ = 0"

abbreviation args_size :: "varg list \<Rightarrow> nat" where
  "args_size va \<equiv> sum_list (map arg_size va)"

lemma va_word_size: "va_word va = Inr (a, va') \<Longrightarrow> args_size va' = args_size va"
  by (cases va rule: va_word.cases) auto

lemma va_str_size: "va_str va = Inr (s, va') \<Longrightarrow> args_size va' + length s = args_size va"
  by (cases va rule: va_str.cases) auto

lemma va_dbl_size: "va_dbl va = Inr (d, va') \<Longrightarrow> args_size va' = args_size va"
  by (cases va rule: va_dbl.cases) auto

lemma parse_width_size: "parse_width fmt va f = Inr (w, f', fmt', va') \<Longrightarrow> args_size va' = args_size va"
  by (auto simp: parse_width_def rbind_Inr_iff Let_def dest: va_word_size split: if_splits)

lemma parse_precision_size: "parse_precision fmt va f = Inr (p, f', fmt', va') \<Longrightarrow> args_size va' = args_size va"
  by (auto simp: parse_precision_def rbind_Inr_iff Let_def dest: va_word_size split: if_splits)

lemma parse_spec_size: "parse_spec fmt va = Inr (f, w, p, fmt', va') \<Longrightarrow> args_size va' = args_size va"
  by (auto simp: parse_spec_def rbind_Inr_iff dest!: parse_width_size parse_precision_size)

lemma string_text_length: "string_text s f p = Inr t \<Longrightarrow> length t \<le> length s"
  by (induction s arbitrary: p t) (auto simp: rbind_Inr_iff split: if_splits)

lemma pad_text_length: "length (pad_text flags l w t) \<le> length t + w"
  by (simp add: pad_text_def)

lemma int_conv_text_length: "length (int_conv_text c f w p a) \<le> max 32 (unat w)"
  by (simp add: int_conv_text_def Let_def length_ntoa_text)

lemma width_max: "max 32 (unat (w :: u32)) + 33 * FTOA_FUEL \<le> directive_max" "1 + unat (w :: u32) \<le> directive_max"
  using unat_u32_lt [of w] by (simp_all add: directive_max_def max_def del: unat_u32_lt)

lemma convert_text_size:
  assumes "convert_text c f w p va = Inr (va', t)"
  shows "length t + args_size va' \<le> directive_max + args_size va"
proof -
  consider (int) "is_int_spec c" | (flt) "\<not> is_int_spec c" "c \<in> {0x66, 0x46, 0x65, 0x45, 0x67, 0x47}"
    | (chr) "\<not> is_int_spec c" "c = 0x63" | (str) "\<not> is_int_spec c" "c = 0x73" | (ptr) "\<not> is_int_spec c" "c = 0x70"
    | (other) "\<not> is_int_spec c" "c \<notin> {0x66, 0x46, 0x65, 0x45, 0x67, 0x47, 0x63, 0x73, 0x70}" by blast
  then show ?thesis
  proof cases
    case int
    with assms obtain a where "va_word va = Inr (a, va')" "t = int_conv_text c f w p a"
      by (auto simp: convert_text_def rbind_Inr_iff)
    then show ?thesis using int_conv_text_length [of c f w p a] width_max(1) [of w] va_word_size by fastforce
  next
    case flt
    with assms obtain d f' where "va_dbl va = Inr (d, va')"
      "ftoa_text FTOA_FUEL d p w f' = Inr t \<or> etoa_text FTOA_FUEL d p w f' = Inr t"
      by (auto simp: convert_text_def rbind_Inr_iff split: if_splits)
    then show ?thesis
      using length_float_text(1) [of FTOA_FUEL d p w f' t] length_float_text(2) [of FTOA_FUEL d p w f' t]
        width_max(1) [of w] va_dbl_size [of va d va'] by auto
  next
    case chr
    with assms obtain a where "va_word va = Inr (a, va')" "t = pad_text f 1 (unat w) [ucast a]"
      by (auto simp: convert_text_def rbind_Inr_iff)
    then show ?thesis using pad_text_length [of f 1 "unat w" "[ucast a]"] width_max(2) [of w] va_word_size by fastforce
  next
    case str
    with assms obtain s l u where s: "va_str va = Inr (s, va')" "string_text s f p = Inr u" "t = pad_text f l (unat w) u"
      by (auto simp: convert_text_def rbind_Inr_iff)
    then show ?thesis
      using pad_text_length [of f l "unat w" u] string_text_length [OF s(2)] width_max(2) [of w] va_str_size [OF s(1)] by simp
  next
    case ptr
    with assms obtain a f' where a: "va_word va = Inr (a, va')" "t = ntoa_text a False 16 p 16 f'"
      by (auto simp: convert_text_def rbind_Inr_iff)
    then show ?thesis
      using length_ntoa_text [of a False 16 p 16 f'] width_max(1) [of 16] va_word_size [OF a(1)] by simp
  next
    case other
    with assms show ?thesis by (auto simp: convert_text_def directive_max_def)
  qed
qed

lemma render_length: "render fmt va = Inr t \<Longrightarrow> length t \<le> length fmt * directive_max + args_size va"
proof (induction fmt va arbitrary: t rule: render.induct)
  case (2 c fmt va)
  have one: "1 \<le> directive_max" by (simp add: directive_max_def)
  consider "c = 0" | (plain) "c \<noteq> 0" "c \<noteq> 0x25" | (dir) "c = 0x25" by blast
  then show ?case
  proof cases
    case plain
    with "2.prems" obtain u where "render fmt va = Inr u" "t = c # u" by (auto simp: rbind_Inr_iff)
    with "2.IH"(1) [OF plain] one show ?thesis by fastforce
  next
    case dir
    with "2.prems" obtain fmt' va' u r where d: "directive_text fmt va = Inr (fmt', va', u)" "render fmt' va' = Inr r" "t = u @ r"
      by (auto simp: rbind_Inr_iff)
    from d(1) obtain f w p fmt1 va1 k where "parse_spec fmt va = Inr (f, w, p, fmt1, va1)" "convert_text k f w p va1 = Inr (va', u)"
      by (auto simp: directive_text_def rbind_Inr_iff)
    then have u: "length u + args_size va' \<le> directive_max + args_size va"
      using convert_text_size parse_spec_size by metis
    have "length r \<le> length fmt' * directive_max + args_size va'"
      using "2.IH"(2) [of "(fmt', va', u)" fmt' "(va', u)" va' u r] dir d(1,2) by simp
    moreover have "length fmt' * directive_max \<le> length fmt * directive_max"
      using directive_text_length [OF d(1)] by (rule mult_le_mono1)
    ultimately have "length u + length r \<le> directive_max + length fmt * directive_max + args_size va" using u by linarith
    then show ?thesis by (simp add: d(3))
  qed (use "2.prems" in simp)
qed simp

section \<open>Calls that run\<close>

fun call_fits :: "console_call \<Rightarrow> bool" where
  "call_fits (Ulog severity f va) = (\<exists>t. render (lit f) va = Inr t \<and> length t < 18446744073709551616)"
| "call_fits c = call_ok c"

lemma ulog_fits:
  assumes "fmt_ok f ks" "list_all2 has_kind va ks" "length f \<le> 1000" "args_size va \<le> 1000"
  shows "call_fits (Ulog severity f va)"
proof -
  obtain t where t: "render (lit f) va = Inr t" using fmt_ok_render [OF assms(1,2)] by blast
  have "length (lit f) * directive_max \<le> 1001 * directive_max"
    using assms(3) by (intro mult_le_mono1) (simp add: lit_def bytes_of_def)
  then have "length t \<le> 1001 * directive_max + 1000" using render_length [OF t] assms(4) by linarith
  then have "length t < 18446744073709551616" by (simp add: directive_max_def FTOA_FUEL_def)
  with t show ?thesis by simp
qed

lemma ulog_plain: "list_all (\<lambda>c. c \<noteq> 0 \<and> c \<noteq> 0x25) (bytes_of f) \<Longrightarrow> length f \<le> 1000 \<Longrightarrow> call_fits (Ulog severity f [])"
  by (rule ulog_fits [OF fmt_ok_plain]) simp_all

text \<open>The text of a message, and the line it is on the serial port.\<close>

definition message_text :: "string \<Rightarrow> varg list \<Rightarrow> u8 list" where
  "message_text f va = (case render (lit f) va of Inl e \<Rightarrow> [] | Inr t \<Rightarrow> log_text t)"

fun serial_line :: "console_call \<Rightarrow> u8 list" where
  "serial_line (Ulog severity f va) = (if severity \<ge> ULOG_DEBUG_LEVEL then log_line severity (message_text f va) else [])"
| "serial_line _ = []"

definition transcript :: "console_call list \<Rightarrow> u8 list" where
  "transcript calls = concat (map serial_line calls)"

definition env_ok :: "log_env \<Rightarrow> bool" where
  "env_ok env \<longleftrightarrow> s_message env \<noteq> 0 \<and> serial_buf env \<noteq> 0 \<and> port_works (env_dev env) SERIAL_COM1"

definition logging :: "kernel \<Rightarrow> bool" where
  "logging k \<longleftrightarrow> tty_ok (k_tty k) \<and> is_serial_initialized (k_serial k) \<and> k_subscribers k = k_subscribers (log_initialize k)"

text \<open>The step from one state of the log to another while a text goes over the serial port.\<close>

definition sends :: "kernel \<Rightarrow> u8 list \<Rightarrow> kernel \<Rightarrow> bool" where
  "sends k t k' \<longleftrightarrow> logging k' \<and> tty_fb (k_tty k') = tty_fb (k_tty k) \<and> tty_font (k_tty k') = tty_font (k_tty k) \<and>
     (\<exists>q. io (k_serial k') = io (k_serial k) @ q \<and> written SERIAL_COM1 q = t)"

lemma sends_refl: "logging k \<Longrightarrow> sends k [] k"
  by (simp add: sends_def)

lemma sends_trans: "sends k t k' \<Longrightarrow> sends k' t' k'' \<Longrightarrow> sends k (t @ t') k''"
  by (auto simp: sends_def)

lemma table_of_log_initialize: "k_subscribers (log_initialize k) = k_subscribers (log_initialize k')"
  by (simp only: log_initialize_table)

lemma reset_text_color_ok: "tty_ok t \<Longrightarrow> tty_ok (terminal_reset_text_color t)"
  using set_text_color_ok [of t COLORS_TEXT_FG] by (simp add: terminal_set_text_color_def terminal_reset_text_color_def)

lemma color_keeps:
  "tty_fb (terminal_set_text_color c t) = tty_fb t" "tty_font (terminal_set_text_color c t) = tty_font t"
  "tty_fb (terminal_reset_text_color t) = tty_fb t" "tty_font (terminal_reset_text_color t) = tty_font t"
  "tty_fb (severity_color s t) = tty_fb t" "tty_font (severity_color s t) = tty_font t"
  by (simp_all add: terminal_set_text_color_def terminal_reset_text_color_def severity_color_def split: option.split)

lemma severity_color_ok: "tty_ok t \<Longrightarrow> tty_ok (severity_color s t)"
  by (simp add: severity_color_def set_text_color_ok split: option.split)

lemma logging_tty:
  "logging k \<Longrightarrow> tty_ok t \<Longrightarrow> tty_fb t = tty_fb (k_tty k) \<Longrightarrow> tty_font t = tty_font (k_tty k) \<Longrightarrow> sends k [] (k\<lparr>k_tty := t\<rparr>)"
  using table_of_log_initialize by (auto simp: sends_def logging_def)

text \<open>The calls that do not go through the log.\<close>

fun to_screen :: "console_call \<Rightarrow> bool" where
  "to_screen (Ulog severity f va) = False"
| "to_screen c = True"

lemma screen_line: "to_screen c \<Longrightarrow> serial_line c = []"
  by (cases c) simp_all

lemma run_call_screen:
  assumes "to_screen c" "logging k" "call_fits c"
  shows "\<exists>t. run_call env c k = Inr (k\<lparr>k_tty := t\<rparr>) \<and> sends k [] (k\<lparr>k_tty := t\<rparr>)"
proof (cases c)
  case (Printf f va)
  with assms(3) obtain t where "render (lit f) va = Inr t" by auto
  then have r: "run_call env c k = Inr (k\<lparr>k_tty := terminal_write (filter (\<lambda>c. c \<noteq> 0) t) (k_tty k)\<rparr>)"
    by (simp add: Printf printf_render terminal_char_write)
  show ?thesis
    unfolding r using logging_tty [OF assms(2)] terminal_write_ok assms(2) by (auto simp: Printf logging_def)
next
  case (Set_text_color x)
  have "sends k [] (k\<lparr>k_tty := terminal_set_text_color x (k_tty k)\<rparr>)"
    using assms(2) by (intro logging_tty) (simp_all add: logging_def set_text_color_ok color_keeps)
  with Set_text_color show ?thesis by auto
next
  case Reset_text_color
  have "sends k [] (k\<lparr>k_tty := terminal_reset_text_color (k_tty k)\<rparr>)"
    using assms(2) by (intro logging_tty) (simp_all add: logging_def reset_text_color_ok color_keeps)
  with Reset_text_color show ?thesis by auto
qed (use assms(1) in simp)

lemma run_calls_screen:
  "list_all to_screen calls \<Longrightarrow> logging k \<Longrightarrow> list_all call_fits calls \<Longrightarrow>
    \<exists>t. run_calls env calls k = Inr (k\<lparr>k_tty := t\<rparr>) \<and> sends k [] (k\<lparr>k_tty := t\<rparr>)"
proof (induction calls arbitrary: k)
  case Nil
  then show ?case by (intro exI [of _ "k_tty k"]) (simp add: sends_refl)
next
  case (Cons c calls)
  obtain t where t: "run_call env c k = Inr (k\<lparr>k_tty := t\<rparr>)" "sends k [] (k\<lparr>k_tty := t\<rparr>)"
    using run_call_screen Cons.prems by fastforce
  then have "logging (k\<lparr>k_tty := t\<rparr>)" by (simp add: sends_def)
  with Cons obtain t' where "run_calls env calls (k\<lparr>k_tty := t\<rparr>) = Inr (k\<lparr>k_tty := t'\<rparr>)" "sends (k\<lparr>k_tty := t\<rparr>) [] (k\<lparr>k_tty := t'\<rparr>)"
    by fastforce
  with t show ?case using sends_trans by fastforce
qed

lemma run_call_sends:
  assumes env: "env_ok env" and k: "logging k" and c: "call_fits c"
  shows "\<exists>k'. run_call env c k = Inr k' \<and> sends k (serial_line c) k'"
proof (cases c)
  case (Ulog severity f va)
  with c obtain t where t: "render (lit f) va = Inr t" "length t < 18446744073709551616" by auto
  let ?w = "terminal_reset_text_color (terminal_write (log_line severity (log_text t)) (severity_color severity (k_tty k)))"
  from k have ok: "tty_ok (k_tty k)" by (simp add: logging_def)
  have w: "tty_ok ?w" "tty_fb ?w = tty_fb (k_tty k)" "tty_font ?w = tty_font (k_tty k)"
    using terminal_write_ok [OF severity_color_ok [OF ok]] by (simp_all add: reset_text_color_ok color_keeps)
  have e: "s_message env \<noteq> 0" "serial_buf env \<noteq> 0" "port_works (env_dev env) SERIAL_COM1" using env by (simp_all add: env_ok_def)
  obtain q where q: "log_message env severity (lit f) va k =
      Inr (k\<lparr>k_log_mem := stored (s_message env) 120 t (k_log_mem k),
             k_serial := (k_serial k)\<lparr>io := io (k_serial k) @ q\<rparr>,
             k_tty := (if severity \<ge> ULOG_INFO_LEVEL then ?w else k_tty k)\<rparr>)"
    "written SERIAL_COM1 q = (if severity \<ge> ULOG_DEBUG_LEVEL \<and> is_serial_initialized (k_serial k) then log_line severity (log_text t) else [])"
    using log_message_deliver [OF t e, of k k severity] k unfolding logging_def by blast
  have s: "serial_line c = written SERIAL_COM1 q"
    using q(2) k by (simp add: Ulog message_text_def t(1) logging_def)
  let ?k = "k\<lparr>k_log_mem := stored (s_message env) 120 t (k_log_mem k), k_serial := (k_serial k)\<lparr>io := io (k_serial k) @ q\<rparr>,
      k_tty := (if severity \<ge> ULOG_INFO_LEVEL then ?w else k_tty k)\<rparr>"
  have "sends k (written SERIAL_COM1 q) ?k"
    using w ok k table_of_log_initialize [of ?k k] by (simp add: sends_def logging_def is_serial_initialized_def)
  then have "sends k (serial_line c) ?k" by (simp only: s)
  moreover have "run_call env c k = Inr ?k" by (simp only: Ulog run_call.simps q(1))
  ultimately show ?thesis by blast
qed (use run_call_screen [OF _ k c, of env] in \<open>force+\<close>)

lemma run_calls_send:
  "env_ok env \<Longrightarrow> logging k \<Longrightarrow> list_all call_fits calls \<Longrightarrow>
    \<exists>k'. run_calls env calls k = Inr k' \<and> sends k (transcript calls) k'"
proof (induction calls arbitrary: k)
  case Nil
  then show ?case by (simp add: transcript_def sends_refl)
next
  case (Cons c calls)
  obtain k1 where k1: "run_call env c k = Inr k1" "sends k (serial_line c) k1"
    using run_call_sends [OF Cons.prems(1,2)] Cons.prems(3) by auto
  then have "logging k1" by (simp add: sends_def)
  with Cons obtain k2 where "run_calls env calls k1 = Inr k2" "sends k1 (transcript calls) k2" by fastforce
  with k1 show ?case using sends_trans by (fastforce simp: transcript_def)
qed

section \<open>The calls of the memory start\<close>

lemma pmm_formats:
  "fmt_ok ''Total usable memory: %d bytes, or %d pages available'' [Int_arg, Int_arg]"
  "fmt_ok ''Highest usable address at memory 0x%08x, lowest at 0x%08x.'' [Int_arg, Int_arg]"
  "fmt_ok ''Current PMM Bitmap stored between 0x%.8lx and 0x%.8lx.'' [Int_arg, Int_arg]"
  "fmt_ok ''Memory: Found %d memory entries from Limine.'' [Int_arg]"
  "fmt_ok ''[*] Base 0x%08x | Length 0x%08x (%8d pages) | %s.\<newline>'' [Int_arg, Int_arg, Int_arg, Str_arg]"
  "fmt_ok ''Freeing %d pages starting at index %d'' [Int_arg, Int_arg]"
  "fmt_ok ''Bitmap created with size %d. Used %d/%d pages'' [Int_arg, Int_arg, Int_arg]"
  by code_simp+

text \<open>An operation that appends calls which run.\<close>

definition reports :: "pmm \<Rightarrow> pmm \<Rightarrow> bool" where
  "reports s s' \<longleftrightarrow> (\<exists>calls. console s' = console s @ calls \<and> list_all call_fits calls)"

lemma reports_refl: "console s' = console s \<Longrightarrow> reports s s'"
  by (simp add: reports_def)

lemma reports_trans: "reports s s' \<Longrightarrow> reports s' s'' \<Longrightarrow> reports s s''"
  by (auto simp: reports_def)

lemma reports_calls: "console s' = console s @ calls \<Longrightarrow> list_all call_fits calls \<Longrightarrow> reports s s'"
  by (auto simp: reports_def)

lemma pmm_count_reports: "reports s (pmm_count es s)"
  by (rule reports_calls, simp add: pmm_count_def Let_def)
    (auto simp del: call_fits.simps intro!: ulog_fits [OF pmm_formats(1)] ulog_fits [OF pmm_formats(2)])

lemma place_at_reports: "reports s (place_at e s)"
  by (rule reports_calls, simp add: place_at_def Let_def)
    (auto simp del: call_fits.simps intro!: ulog_fits [OF pmm_formats(3)])

lemma place_bitmap_reports: "reports s (snd (place_bitmap es s))"
  by (induction es s rule: place_bitmap.induct) (auto simp: reports_refl place_at_reports split_def Let_def)

lemma print_entry_fits: "list_all call_fits (print_entry e)"
proof -
  have "call_ok (Printf ''[*] Base 0x%08x | Length 0x%08x (%8d pages) | %s.\<newline>'' [Word a, Word b, Word c, Str (lit n)])" for a b c n
    using fmt_ok_render [OF pmm_formats(5), of "[Word a, Word b, Word c, Str (lit n)]"] by (simp add: zero_in_lit)
  then show ?thesis by (simp add: print_entry_def del: call_ok.simps(1))
qed

lemma print_memmap_fits:
  assumes "print_memmap es c = Some c'" "length es < 18446744073709551616"
  shows "\<exists>calls. c' = c @ calls \<and> list_all call_fits calls"
proof -
  have "list_all call_fits (concat (map print_entry es))"
    using print_entry_fits by (induction es) auto
  moreover have "call_fits (ULOG_INFO ''Memory: Found %d memory entries from Limine.'' [Word a])" for a
    by (rule ulog_fits [OF pmm_formats(4)]) simp_all
  moreover have "c' = c @ ULOG_INFO ''Memory: Found %d memory entries from Limine.'' [Word (of_nat (length es))] # concat (map print_entry es)"
    using assms by (simp add: print_memmap_eq split: if_splits)
  ultimately show ?thesis by (simp del: call_fits.simps)
qed

lemma free_entries_report: "reports s (fold free_entry es s)"
proof (induction es arbitrary: s)
  case (Cons e es)
  have "reports s (free_entry e s)"
  proof (cases "usable e")
    case True
    then show ?thesis
      by (intro reports_calls, simp add: free_entry_def kfree_def Let_def)
        (auto simp del: call_fits.simps intro!: ulog_fits [OF pmm_formats(6)])
  qed (simp add: free_entry_def reports_refl)
  with Cons show ?case using reports_trans by fastforce
qed (simp add: reports_refl)

lemma place_bitmap_length: "length (fst (place_bitmap es s)) = length es"
  by (induction es s rule: place_bitmap.induct) (simp_all add: split_def Let_def)

lemma mem_initialize_reports:
  assumes "mem_initialize es s = Inr (es', s')" "length es < 18446744073709551616"
  shows "reports s s'"
proof -
  let ?p = "place_bitmap es (pmm_count es s)"
  obtain es1 s1 where p: "?p = (es1, s1)" by fastforce
  from assms(1) obtain c where c: "print_memmap es1 (console s1) = Some c" and f:
    "console s' = console (fold free_entry es1 (s1\<lparr>console := c\<rparr>)) @
      [ULOG_INFO ''Bitmap created with size %d. Used %d/%d pages''
         [Word (bm_size (pmm_bitmap s')), Word (used_pages (pmm_bitmap s')), Word (total_pages (pmm_bitmap s'))]]"
    by (auto simp: mem_initialize_def pmm_initialize_def p Let_def vmm_initialize_def rbind_Inr_iff
        split: if_splits option.splits)
  have len: "length es1 < 18446744073709551616" using place_bitmap_length [of es "pmm_count es s"] assms(2) by (simp add: p)
  have "reports s s1" using reports_trans [OF pmm_count_reports place_bitmap_reports [of "pmm_count es s" es]] by (simp add: p)
  moreover have "reports s1 (s1\<lparr>console := c\<rparr>)" using print_memmap_fits [OF c len] by (simp add: reports_def)
  moreover have "reports (s1\<lparr>console := c\<rparr>) (fold free_entry es1 (s1\<lparr>console := c\<rparr>))" by (rule free_entries_report)
  moreover have "reports (fold free_entry es1 (s1\<lparr>console := c\<rparr>)) s'"
    by (rule reports_calls [OF f]) (auto simp del: call_fits.simps intro!: ulog_fits [OF pmm_formats(7)])
  ultimately show ?thesis using reports_trans by blast
qed

section \<open>CPU detection only prints\<close>

lemma printf_fits: "list_all call_ok calls \<Longrightarrow> list_all (\<lambda>c. \<exists>f va. c = Printf f va) calls \<Longrightarrow>
    list_all call_fits calls \<and> list_all to_screen calls \<and> transcript calls = []"
  by (induction calls) (auto simp: transcript_def)

lemma print_leaf_printf: "\<exists>f va. print_leaf cpuid l = Printf f va"
  by (simp add: print_leaf_eq)

lemma do_intel_printf: "list_all (\<lambda>c. \<exists>f va. c = Printf f va) (do_intel cpuid)"
proof -
  have "list_all (\<lambda>c. \<exists>f va. c = Printf f va) (intel_brand cpuid b s)" for b s
    by (cases "cpuid 0x80000000") (simp add: intel_brand_def print_leaf_printf)
  moreover have "list_all (\<lambda>c. \<exists>f va. c = Printf f va) (intel_type t)" "list_all (\<lambda>c. \<exists>f va. c = Printf f va) (intel_family g)"
      "list_all (\<lambda>c. \<exists>f va. c = Printf f va) (intel_model_name g n)" for t g n
    by (simp_all add: intel_type_def intel_family_def intel_model_name_def)
  ultimately show ?thesis by (cases "cpuid 1") (simp add: do_intel_def Let_def)
qed

lemma do_amd_printf: "list_all (\<lambda>c. \<exists>f va. c = Printf f va) (do_amd cpuid)"
proof -
  have "list_all (\<lambda>c. \<exists>f va. c = Printf f va) (amd_extended cpuid s r)" for s r
    by (cases "cpuid 0x80000000"; cases "cpuid 0x80000007") (simp add: amd_extended_def Let_def print_leaves_all print_leaf_printf)
  moreover have "list_all (\<lambda>c. \<exists>f va. c = Printf f va) (amd_model g n)" for g n by (simp add: amd_model_def)
  ultimately show ?thesis by (cases "cpuid 1") (simp add: do_amd_def Let_def)
qed

lemma detect_cpu_fits: "list_all call_fits (detect_cpu cpuid)" "list_all to_screen (detect_cpu cpuid)" "transcript (detect_cpu cpuid) = []"
proof -
  have "list_all (\<lambda>c. \<exists>f va. c = Printf f va) (detect_cpu cpuid)"
    by (cases "cpuid 0") (simp add: detect_cpu_def do_intel_printf do_amd_printf)
  from printf_fits [OF detect_cpu_ok this]
  show "list_all call_fits (detect_cpu cpuid)" "list_all to_screen (detect_cpu cpuid)" "transcript (detect_cpu cpuid) = []" by simp_all
qed

section \<open>The screen under all calls\<close>

text \<open>
  Every subscriber draws on the terminal by printf and changes of colour, or leaves it alone;
  so does every console call.  No assumption on the formats, the table or the serial port.
\<close>

lemma colour_drawn:
  "tty_ok t \<Longrightarrow> fbtty.drawn t (terminal_set_text_color c t)"
  "tty_ok t \<Longrightarrow> fbtty.drawn t (terminal_reset_text_color t)"
  by (auto intro!: fbtty.drawn_quiet simp: set_text_color_ok reset_text_color_ok color_keeps)
    (simp_all add: terminal_set_text_color_def terminal_reset_text_color_def)

lemma drawn_ok: "fbtty.drawn t t' \<Longrightarrow> tty_ok t'"
  by (simp add: fbtty.drawn_def)

lemmas drawn_intros = fbtty.drawn_refl fbtty.drawn_printf colour_drawn

lemma kernel_log_drawn:
  assumes "tty_ok (k_tty k)" "kernel_log severity msg k = Inr k'"
  shows "fbtty.drawn (k_tty k) (k_tty k')"
proof -
  define t1 where "t1 = (if severity = ULOG_INFO_LEVEL then terminal_set_text_color COLORS_GREEN (k_tty k)
                else if severity = ULOG_WARNING_LEVEL then terminal_set_text_color COLORS_YELLOW (k_tty k)
                else if severity = ULOG_DEBUG_LEVEL then terminal_set_text_color COLORS_BLUE (k_tty k)
                else if severity = ULOG_CRITICAL_LEVEL then terminal_set_text_color COLORS_RED (k_tty k)
                else k_tty k)"
  have 1: "fbtty.drawn (k_tty k) t1" using assms(1) by (simp add: t1_def drawn_intros)
  obtain n t2 m t3 where p: "printf terminal_putchar (lit ''[%s]: '') [Str (lit (ulog_level_name severity))] t1 = Inr (n, t2)"
      "printf terminal_putchar (lit ''%s\<newline>'') [Str msg] t2 = Inr (m, t3)" "k_tty k' = terminal_reset_text_color t3"
    using assms(2) unfolding kernel_log_def Let_def t1_def [symmetric] terminal_out_char by (auto simp: rbind_Inr_iff)
  note 1
  also have 2: "fbtty.drawn t1 t2" by (rule fbtty.drawn_printf [OF drawn_ok [OF 1] p(1)])
  also have 3: "fbtty.drawn t2 t3" by (rule fbtty.drawn_printf [OF drawn_ok [OF 2] p(2)])
  also have "fbtty.drawn t3 (k_tty k')" unfolding p(3) by (rule colour_drawn [OF drawn_ok [OF 3]])
  finally show ?thesis .
qed

lemma call_subscriber_drawn:
  "tty_ok (k_tty k) \<Longrightarrow> call_subscriber env f severity msg k = Inr k' \<Longrightarrow> fbtty.drawn (k_tty k) (k_tty k')"
  by (cases f) (auto simp: kernel_log_drawn serial_log_def rbind_Inr_iff drawn_intros split: if_splits)

interpretation subs: subscriber "call_subscriber env" "\<lambda>k. tty_ok (k_tty k)" "\<lambda>k k'. fbtty.drawn (k_tty k) (k_tty k')" for env
  by unfold_locales (auto intro: fbtty.drawn_refl fbtty.drawn_trans drawn_ok call_subscriber_drawn)

lemma run_call_drawn:
  assumes "tty_ok (k_tty k)" "run_call env c k = Inr k'"
  shows "fbtty.drawn (k_tty k) (k_tty k')"
proof (cases c)
  case (Ulog severity f va)
  with assms show ?thesis
    by (auto simp: log_message_def rbind_Inr_iff dest: subs.message_step)
next
  case (Printf f va)
  with assms show ?thesis by (auto simp: terminal_out_char rbind_Inr_iff intro: drawn_intros)
qed (use assms in \<open>auto intro: drawn_intros\<close>)

lemma run_calls_drawn:
  "tty_ok (k_tty k) \<Longrightarrow> run_calls env calls k = Inr k' \<Longrightarrow> fbtty.drawn (k_tty k) (k_tty k')"
proof (induction calls arbitrary: k)
  case (Cons c calls)
  from Cons.prems(2) obtain k1 where k1: "run_call env c k = Inr k1" "run_calls env calls k1 = Inr k'"
    by (auto simp: rbind_Inr_iff)
  have 1: "fbtty.drawn (k_tty k) (k_tty k1)" by (rule run_call_drawn [OF Cons.prems(1) k1(1)])
  also have "fbtty.drawn (k_tty k1) (k_tty k')" by (rule Cons.IH [OF drawn_ok [OF 1] k1(2)])
  finally show ?case .
qed (simp add: drawn_intros)

text \<open>
  C19. Whatever the kernel reports, with whatever formats and arguments, with any subscribers in the
  log's table and any behaviour of the serial port: if the calls return, the pen of the terminal
  is still on the screen, the terminal still describes the same frame buffer and font, and no
  byte outside the frame buffer has changed.
\<close>

theorem reports_stay_on_screen:
  assumes "tty_ok (k_tty k)" "run_calls env calls k = Inr k'"
  shows "tty_ok (k_tty k') \<and> tty_fb (k_tty k') = tty_fb (k_tty k) \<and> tty_font (k_tty k') = tty_font (k_tty k) \<and>
    {a. tty_mem (k_tty k') a \<noteq> tty_mem (k_tty k) a} \<subseteq> fb_bytes (tty_fb (k_tty k))"
  using run_calls_drawn [OF assms] by (auto simp: fbtty.drawn_def)

theorem reports_stay_on_screen_witness:
  "\<exists>k'. run_calls (tiny_env busy_once) [Set_text_color 5, ULOG_INFO ''go'' []] (log_initialize tiny_kernel) = Inr k' \<and> tty_ok (k_tty k')"
proof -
  let ?k = "log_initialize tiny_kernel"
  have t: "k_tty ?k = tiny_tty" "is_serial_initialized (k_serial ?k)"
    by (simp_all add: log_initialize_def Let_def tiny_kernel_def is_serial_initialized_def)
  then have ok: "tty_ok (k_tty ?k)" by (simp add: tiny_tty_ok)
  then have "logging ?k" unfolding logging_def using t(2) table_of_log_initialize by blast
  moreover have "env_ok (tiny_env busy_once)" using busy_once_works by (simp add: env_ok_def tiny_env_def)
  moreover have "list_all call_fits [Set_text_color 5, ULOG_INFO ''go'' []]" by (simp add: render_go bytes_of_def)
  ultimately obtain k' where k': "run_calls (tiny_env busy_once) [Set_text_color 5, ULOG_INFO ''go'' []] ?k = Inr k'"
    using run_calls_send by blast
  from reports_stay_on_screen [OF ok k'] k' show ?thesis by blast
qed

end
