(* ===== verification/Gdt.thy ===== *)
theory Gdt
  imports Console
begin

text \<open>
  The global descriptor table (kernel/arch/x86_64/cpu/gdt.c, kernel/include/kernel/cpu/gdt.h and
  the loader of kernel/arch/x86_64/asm/gdt.s): five packed descriptors, the pointer that lgdt
  takes, and the segment registers.  \<open>segment_at\<close> is the processor's side: the segment a
  selector stands for, decoded from the eight bytes of its descriptor as the architecture has
  them.  The state \<open>cpu\<close> is shared with the interrupt descriptor table.
\<close>

section \<open>The table\<close>

record gdt_entry_t =
  ge_limit :: u16
  ge_base_low16 :: u16
  ge_base_mid8 :: u8
  ge_access :: u8
  ge_granularity :: u8
  ge_base_high8 :: u8

record gdt_pointer_t =
  gp_size :: u16
  gp_offset :: u64

record gdt_t =
  gdt_null :: gdt_entry_t
  gdt_64bit_code :: gdt_entry_t
  gdt_64bit_data :: gdt_entry_t
  gdt_user_data :: gdt_entry_t
  gdt_user_code :: gdt_entry_t

abbreviation gdt_entry :: "u16 \<Rightarrow> u16 \<Rightarrow> u8 \<Rightarrow> u8 \<Rightarrow> u8 \<Rightarrow> u8 \<Rightarrow> gdt_entry_t" where
  "gdt_entry l bl bm a g bh \<equiv>
     \<lparr>ge_limit = l, ge_base_low16 = bl, ge_base_mid8 = bm, ge_access = a, ge_granularity = g, ge_base_high8 = bh\<rparr>"

definition gdt :: gdt_t where
  "gdt = \<lparr>gdt_null = gdt_entry 0 0 0 0 0 0,
          gdt_64bit_code = gdt_entry 0xFFFF 0 0 0x9A 0xA0 0,
          gdt_64bit_data = gdt_entry 0xFFFF 0 0 0x92 0xA0 0,
          gdt_user_data = gdt_entry 0xFFFF 0 0 0xF2 0xC0 0,
          gdt_user_code = gdt_entry 0xFFFF 0 0 0xFA 0xA0 0\<rparr>"

text \<open>sizeof(gdt_t): five packed descriptors of eight bytes.\<close>

definition sizeof_gdt_t :: u64 where
  "sizeof_gdt_t = 5 * (2 + 2 + 1 + 1 + 1 + 1)"

section \<open>The processor\<close>

record idtr_t =
  idtr_limit :: u16
  idtr_base :: u64

record cpu =
  gdtr :: gdt_pointer_t
  cs :: u16
  ds :: u16
  es :: u16
  fs :: u16
  gs :: u16
  ss :: u16
  idtr_reg :: idtr_t
  interrupts :: bool
  halted :: bool
  cpu_console :: "console_call list"

text \<open>lgdt, the data segment registers, and a far return that loads cs.\<close>

definition gdt_flush :: "gdt_pointer_t \<Rightarrow> cpu \<Rightarrow> cpu" where
  "gdt_flush p c =
     (let c1 = c\<lparr>gdtr := p\<rparr>;
          c2 = c1\<lparr>ds := 0x10, es := 0x10, fs := 0x10, gs := 0x10, ss := 0x10\<rparr>
      in c2\<lparr>cs := 0x08\<rparr>)"

text \<open>The address of the table is a parameter.\<close>

definition gdt_initialize :: "u64 \<Rightarrow> cpu \<Rightarrow> cpu" where
  "gdt_initialize gdt_addr c =
     (let c1 = c\<lparr>cpu_console := cpu_console c @ [ULOG_INFO ''Initializing GDT...'' []]\<rparr>;
          p = \<lparr>gp_size = ucast (sizeof_gdt_t - 1), gp_offset = gdt_addr\<rparr>;
          c2 = gdt_flush p c1
      in c2\<lparr>cpu_console := cpu_console c2 @ [ULOG_INFO ''GDT initialized!'' []]\<rparr>)"

section \<open>What the processor reads\<close>

text \<open>The packed descriptor as the 64-bit word the processor fetches, least significant byte first.\<close>

definition entry_word :: "gdt_entry_t \<Rightarrow> u64" where
  "entry_word e = ucast (ge_limit e) OR push_bit 16 (ucast (ge_base_low16 e)) OR push_bit 32 (ucast (ge_base_mid8 e))
     OR push_bit 40 (ucast (ge_access e)) OR push_bit 48 (ucast (ge_granularity e)) OR push_bit 56 (ucast (ge_base_high8 e))"

definition gdt_words :: "gdt_t \<Rightarrow> u64 list" where
  "gdt_words t = map entry_word [gdt_null t, gdt_64bit_code t, gdt_64bit_data t, gdt_user_data t, gdt_user_code t]"

text \<open>A segment as the architecture defines the fields of a descriptor.\<close>

record segment =
  seg_base :: u32
  seg_last :: u32
  seg_present :: bool
  seg_dpl :: nat
  seg_code :: bool
  seg_writable :: bool
  seg_long :: bool
  seg_default32 :: bool

text \<open>The last byte of the segment: the 20-bit limit counts pages when bit 55 is set.\<close>

definition decode_segment :: "u64 \<Rightarrow> segment" where
  "decode_segment w =
     (let limit = (ucast (w AND 0xFFFF) OR push_bit 16 (ucast (drop_bit 48 w AND 0xF)) :: u32)
      in \<lparr>seg_base = ucast (drop_bit 16 w AND 0xFFFFFF) OR push_bit 24 (ucast (drop_bit 56 w)),
          seg_last = (if bit w 55 then push_bit 12 limit OR 0xFFF else limit),
          seg_present = bit w 47,
          seg_dpl = unat (drop_bit 45 w AND 3),
          seg_code = bit w 43,
          seg_writable = (bit w 41 \<and> \<not> bit w 43),
          seg_long = bit w 53,
          seg_default32 = bit w 54\<rparr>)"

text \<open>The descriptor a selector stands for, if it is not the null descriptor and lies within the limit.\<close>

definition segment_at :: "gdt_t \<Rightarrow> gdt_pointer_t \<Rightarrow> u16 \<Rightarrow> segment option" where
  "segment_at t p selector =
     (let i = unat (drop_bit 3 selector) in
      if i = 0 \<or> 8 * i + 7 > unat (gp_size p) \<or> i \<ge> length (gdt_words t) then None
      else Some (decode_segment (gdt_words t ! i)))"

lemma kernel_code_segment:
  "segment_at gdt \<lparr>gp_size = 39, gp_offset = addr\<rparr> 8 = Some \<lparr>seg_base = 0, seg_last = 0x0FFFFFFF, seg_present = True,
     seg_dpl = 0, seg_code = True, seg_writable = False, seg_long = True, seg_default32 = False\<rparr>"
proof -
  have "gdt_words gdt ! Suc 0 = 0xA09A000000FFFF" by (simp add: gdt_words_def gdt_def entry_word_def)
  moreover have "length (gdt_words gdt) = 5" by (simp add: gdt_words_def)
  ultimately show ?thesis by (simp add: segment_at_def decode_segment_def)
qed

lemma gdtr_initialized: "gdtr (gdt_initialize addr c) = \<lparr>gp_size = 39, gp_offset = addr\<rparr>"
  by (simp add: gdt_initialize_def gdt_flush_def sizeof_gdt_t_def Let_def)

lemma gdt_calls:
  "cpu_console (gdt_initialize addr c) = cpu_console c @ [ULOG_INFO ''Initializing GDT...'' [], ULOG_INFO ''GDT initialized!'' []]"
  by (simp add: gdt_initialize_def gdt_flush_def Let_def)

section \<open>Properties\<close>


end
