(* ===== verification/Idt.thy ===== *)
theory Idt
  imports Gdt
begin

text \<open>
  Interrupts: the descriptor table and its initialisation, the exception handler
  (kernel/arch/x86_64/cpu/idt.c, kernel/include/kernel/cpu/idt.h), and the assembly stubs that
  build the handler's argument (kernel/arch/x86_64/asm/idt.asm).  A stack is the list of the
  quadwords from the stack pointer on.  The addresses of the tables and of the stubs are
  parameters.  \<open>gate_at\<close> and \<open>cpu_frame\<close> are the processor's side: how it reads a gate and what
  it pushes when it takes an exception.
\<close>

section \<open>State\<close>

definition IDT_MAX_DESCRIPTORS :: nat where [simp]: "IDT_MAX_DESCRIPTORS = 32"

record idt_entry_t =
  isr_low :: u16
  kernel_cs :: u16
  ist :: u8
  attributes :: u8
  isr_mid :: u16
  isr_high :: u32
  reserved :: u32

text \<open>sizeof(idt_entry_t), which is packed.\<close>

definition sizeof_idt_entry_t :: nat where
  "sizeof_idt_entry_t = 2 + 2 + 1 + 1 + 2 + 4 + 4"

record cpu_status_t =
  st_r15 :: u64
  st_r14 :: u64
  st_rbx :: u64
  st_rax :: u64
  vector_number :: u64
  error_code :: u64
  iret_rip :: u64
  iret_cs :: u64
  iret_flags :: u64
  iret_rsp :: u64
  iret_ss :: u64

record idt_state =
  idt :: "idt_entry_t list"
  idtr :: idtr_t
  vectors :: "bool list"
  idt_cpu :: cpu

section \<open>Operations\<close>

text \<open>The messages of the switch, in order; cases 12 and 20 have no break.\<close>

definition exception_messages :: "u64 \<Rightarrow> string list" where
  "exception_messages v =
     (if v = 0 then [''Critical, Interrupt: Divide Error.'']
      else if v = 1 then [''Critical, Interrupt: Debug Exception.'']
      else if v = 2 then [''Critical, Interrupt: Non Maskable External Interrupt.'']
      else if v = 3 then [''Critical, Interrupt: Breakpoint Reached.'']
      else if v = 4 then [''Critical, Interrupt: Overflow.'']
      else if v = 5 then [''Critical, Interrupt: BOUND Range Exceeded.'']
      else if v = 6 then [''Critical, Interrupt: Invalid Opcode (Undefined Opcode).'']
      else if v = 7 then [''Critical, Interrupt: Device Not Available (No Math Coprocessor).'']
      else if v = 8 then [''Critical, Interrupt: Double Fault.'']
      else if v = 9 then [''Critical, Interrupt: Coprocessor Segment Overrun.'']
      else if v = 10 then [''Critical, Interrupt: Invalid TSS.'']
      else if v = 11 then [''Critical, Interrupt: Segment Not Present.'']
      else if v = 12 then [''Critical, Interrupt: Stack-Segment Fault.'', ''Critical, Interrupt: General Protection Fault.'']
      else if v = 13 then [''Critical, Interrupt: General Protection Fault.'']
      else if v = 14 then [''Critical, Interrupt: Page Fault.'']
      else if v = 15 then [''Critical, Interrupt: This interrupt is reserved by Intel. This should not be used.'']
      else if v = 16 then [''Critical, Interrupt: x87 FPU Floating-Point Error (Math Fault).'']
      else if v = 17 then [''Critical, Interrupt: Alignment Check Fault.'']
      else if v = 18 then [''Critical, Interrupt: Machine Check. Abort.'']
      else if v = 19 then [''Critical, Interrupt: SIMD Floating-Point Exception Fault.'']
      else if v = 20 then [''Critical, Interrupt: Virtualization Exception Fault.'', ''Critical, Interrupt: Control Protection Exception Fault.'']
      else if v = 21 then [''Critical, Interrupt: Control Protection Exception Fault.'']
      else [''Critical, Interrupt: Unexpected Interrupt.''])"

text \<open>The handler logs and stops the processor with interrupts off.\<close>

definition exception_handler :: "cpu_status_t \<Rightarrow> cpu \<Rightarrow> cpu" where
  "exception_handler context c =
     (let c1 = c\<lparr>cpu_console := cpu_console c @ map (\<lambda>msg. ULOG_CRITICAL msg []) (exception_messages (vector_number context))\<rparr>
      in c1\<lparr>interrupts := False, halted := True\<rparr>)"

definition idt_set_descriptor :: "u8 \<Rightarrow> u64 \<Rightarrow> u8 \<Rightarrow> idt_entry_t list \<Rightarrow> idt_entry_t list" where
  "idt_set_descriptor vector isr flags table =
     table[unat vector := \<lparr>isr_low = ucast (isr AND 0xFFFF), kernel_cs = 0x08, ist = 0, attributes = flags,
       isr_mid = ucast (drop_bit 16 isr AND 0xFFFF), isr_high = ucast (drop_bit 32 isr AND 0xFFFFFFFF), reserved = 0\<rparr>]"

text \<open>The loop of idt_initialize, from a vector on.\<close>

function set_gates :: "(u8 \<Rightarrow> u64) \<Rightarrow> u8 \<Rightarrow> idt_entry_t list \<times> bool list \<Rightarrow> idt_entry_t list \<times> bool list" where
  "set_gates isr_stub_table vector (table, vs) =
     (if vector < 32 then
        set_gates isr_stub_table (vector + 1)
          (idt_set_descriptor vector (isr_stub_table vector) 0x8E table, vs[unat vector := True])
      else (table, vs))"
  by pat_completeness auto
termination
  by (relation "measure (\<lambda>(t, v, s). 32 - unat v)") (auto simp: word_less_nat_alt unat_word_ariths)

declare set_gates.simps [simp del]

definition idt_initialize :: "(u8 \<Rightarrow> u64) \<Rightarrow> u64 \<Rightarrow> idt_state \<Rightarrow> idt_state" where
  "idt_initialize isr_stub_table idt_addr s =
     (let c0 = (idt_cpu s)\<lparr>interrupts := False\<rparr>;
          r = \<lparr>idtr_limit = ucast (of_nat sizeof_idt_entry_t * of_nat IDT_MAX_DESCRIPTORS - 1 :: u32), idtr_base = idt_addr\<rparr>;
          (table, vs) = set_gates isr_stub_table 0 (idt s, vectors s);
          c1 = c0\<lparr>idtr_reg := r\<rparr>;
          c2 = c1\<lparr>interrupts := True\<rparr>
      in \<lparr>idt = table, idtr = r, vectors = vs, idt_cpu = c2\<rparr>)"

section \<open>The stubs\<close>

text \<open>The vectors whose stub is made by isr_err_stub, which pushes a zero first.\<close>

definition err_stubs :: "nat set" where
  "err_stubs = {8, 10, 11, 12, 13, 14, 17, 30}"

text \<open>The stub of a vector and the pushes of interrupt_stub, on the stack the processor left.\<close>

definition isr_stub :: "nat \<Rightarrow> u64 list \<Rightarrow> u64 list" where
  "isr_stub v stack = (if v \<in> err_stubs then of_nat v # 0 # stack else of_nat v # stack)"

record regs =
  rax :: u64
  rbx :: u64
  r14 :: u64
  r15 :: u64

definition interrupt_stub_push :: "regs \<Rightarrow> u64 list \<Rightarrow> u64 list" where
  "interrupt_stub_push r stack = r15 r # r14 r # rbx r # rax r # stack"

text \<open>The structure the handler finds at its argument.\<close>

fun status_at :: "u64 list \<Rightarrow> cpu_status_t option" where
  "status_at (q0 # q1 # q2 # q3 # q4 # q5 # q6 # q7 # q8 # q9 # q10 # rest) =
     Some \<lparr>st_r15 = q0, st_r14 = q1, st_rbx = q2, st_rax = q3, vector_number = q4, error_code = q5,
           iret_rip = q6, iret_cs = q7, iret_flags = q8, iret_rsp = q9, iret_ss = q10\<rparr>"
| "status_at _ = None"

section \<open>The processor's side\<close>

text \<open>The packed gate as the 128-bit word the processor fetches.\<close>

definition gate_word :: "idt_entry_t \<Rightarrow> 128 word" where
  "gate_word e = ucast (isr_low e) OR push_bit 16 (ucast (kernel_cs e)) OR push_bit 32 (ucast (ist e))
     OR push_bit 40 (ucast (attributes e)) OR push_bit 48 (ucast (isr_mid e)) OR push_bit 64 (ucast (isr_high e))
     OR push_bit 96 (ucast (reserved e))"

record gate =
  gate_offset :: u64
  gate_selector :: u16
  gate_ist :: nat
  gate_type :: nat
  gate_dpl :: nat
  gate_present :: bool

definition decode_gate :: "128 word \<Rightarrow> gate" where
  "decode_gate w =
     \<lparr>gate_offset = ucast (w AND 0xFFFF) OR push_bit 16 (ucast (drop_bit 48 w AND 0xFFFF))
                      OR push_bit 32 (ucast (drop_bit 64 w AND 0xFFFFFFFF)),
      gate_selector = ucast (drop_bit 16 w AND 0xFFFF),
      gate_ist = unat (drop_bit 32 w AND 7),
      gate_type = unat (drop_bit 40 w AND 0xF),
      gate_dpl = unat (drop_bit 45 w AND 3),
      gate_present = bit w 47\<rparr>"

text \<open>The gate of a vector, if it lies within the limit of the table register.\<close>

definition gate_at :: "idt_entry_t list \<Rightarrow> idtr_t \<Rightarrow> nat \<Rightarrow> gate option" where
  "gate_at table r v =
     (if 16 * v + 15 \<le> unat (idtr_limit r) \<and> v < length table then Some (decode_gate (gate_word (table ! v))) else None)"

text \<open>The exceptions for which the processor pushes an error code.\<close>

definition has_error_code :: "nat set" where
  "has_error_code = {8, 10, 11, 12, 13, 14, 17, 21, 29, 30}"

record frame =
  f_error :: u64
  f_rip :: u64
  f_cs :: u64
  f_flags :: u64
  f_rsp :: u64
  f_ss :: u64

definition cpu_frame :: "nat \<Rightarrow> frame \<Rightarrow> u64 list" where
  "cpu_frame v f = (if v \<in> has_error_code then [f_error f] else []) @ [f_rip f, f_cs f, f_flags f, f_rsp f, f_ss f]"

text \<open>What the handler sees when an exception is taken on a stack.\<close>

definition taken :: "nat \<Rightarrow> frame \<Rightarrow> regs \<Rightarrow> u64 list \<Rightarrow> cpu_status_t option" where
  "taken v f r stack = status_at (interrupt_stub_push r (isr_stub v (cpu_frame v f @ stack)))"

section \<open>Gates\<close>

abbreviation interrupt_entry :: "u64 \<Rightarrow> u8 \<Rightarrow> idt_entry_t" where
  "interrupt_entry isr flags \<equiv> \<lparr>isr_low = ucast (isr AND 0xFFFF), kernel_cs = 0x08, ist = 0, attributes = flags,
       isr_mid = ucast (drop_bit 16 isr AND 0xFFFF), isr_high = ucast (drop_bit 32 isr AND 0xFFFFFFFF), reserved = 0\<rparr>"

lemma entry_masks:
  "(0xFFFF :: u64) = mask 16" "(0xFFFFFFFF :: u64) = mask 32" "(0xFFFF :: 128 word) = mask 16" "(0xFFFFFFFF :: 128 word) = mask 32"
  by (simp_all add: mask_eq_exp_minus_1)

lemma bit_gate_word:
  "bit (gate_word e) n \<longleftrightarrow>
     (if n < 16 then bit (isr_low e) n else if n < 32 then bit (kernel_cs e) (n - 16) else if n < 40 then bit (ist e) (n - 32)
      else if n < 48 then bit (attributes e) (n - 40) else if n < 64 then bit (isr_mid e) (n - 48)
      else if n < 96 then bit (isr_high e) (n - 64) else bit (reserved e) (n - 96))"
proof -
  have top: "\<not> bit (isr_low e) k" "\<not> bit (kernel_cs e) k" "\<not> bit (isr_mid e) k" if "16 \<le> k" for k
    using that by (auto dest: bit_imp_le_length)
  have top8: "\<not> bit (ist e) k" "\<not> bit (attributes e) k" if "8 \<le> k" for k
    using that by (auto dest: bit_imp_le_length)
  have top32: "\<not> bit (isr_high e) k" "\<not> bit (reserved e) k" if "32 \<le> k" for k
    using that by (auto dest: bit_imp_le_length)
  consider "n < 16" | "16 \<le> n" "n < 32" | "32 \<le> n" "n < 40" | "40 \<le> n" "n < 48" | "48 \<le> n" "n < 64"
    | "64 \<le> n" "n < 96" | "96 \<le> n" "n < 128" | "128 \<le> n" by linarith
  then show ?thesis
    by cases (simp_all add: gate_word_def bit_or_iff bit_ucast_iff bit_push_bit_iff top top8 top32, auto)
qed

text \<open>The three parts of the address, put together again.\<close>

lemma gate_offset_isr: "gate_offset (decode_gate (gate_word (interrupt_entry isr flags))) = isr"
proof (rule bit_word_eqI)
  fix k assume k: "k < LENGTH(64)"
  consider "k < 16" | "16 \<le> k" "k < 32" | "32 \<le> k" by linarith
  then show "bit (gate_offset (decode_gate (gate_word (interrupt_entry isr flags)))) k = bit isr k"
    unfolding decode_gate_def gate.simps entry_masks using k
    by cases (simp_all add: bit_fields bit_gate_word entry_masks, auto)
qed

lemma gate_parts:
  fixes e :: idt_entry_t
  shows "ucast (drop_bit 16 (gate_word e) AND 0xFFFF) = kernel_cs e"
    and "drop_bit 32 (gate_word e) AND 7 = ucast (ist e AND 7)"
    and "drop_bit 40 (gate_word e) AND 0xF = ucast (attributes e AND 0xF)"
    and "drop_bit 45 (gate_word e) AND 3 = ucast (drop_bit 5 (attributes e) AND 3)"
    and "bit (gate_word e) 47 = bit (attributes e) 7"
proof -
  have m: "(7 :: 128 word) = mask 3" "(7 :: u8) = mask 3" "(0xF :: 128 word) = mask 4" "(0xF :: u8) = mask 4"
    "(3 :: 128 word) = mask 2" "(3 :: u8) = mask 2"
    by (simp_all add: mask_eq_exp_minus_1)
  show "ucast (drop_bit 16 (gate_word e) AND 0xFFFF) = kernel_cs e"
    unfolding entry_masks by (rule bit_word_eqI) (simp add: bit_fields bit_gate_word)
  show "drop_bit 32 (gate_word e) AND 7 = ucast (ist e AND 7)"
    unfolding m by (rule bit_word_eqI) (auto simp: bit_fields bit_gate_word)
  show "drop_bit 40 (gate_word e) AND 0xF = ucast (attributes e AND 0xF)"
    unfolding m by (rule bit_word_eqI) (auto simp: bit_fields bit_gate_word)
  show "drop_bit 45 (gate_word e) AND 3 = ucast (drop_bit 5 (attributes e) AND 3)"
    unfolding m by (rule bit_word_eqI) (auto simp: bit_fields bit_gate_word less_2_cases_iff)
  show "bit (gate_word e) 47 = bit (attributes e) 7"
    by (simp add: bit_gate_word)
qed

lemma gate_fields:
  "decode_gate (gate_word (interrupt_entry isr 0x8E)) =
     \<lparr>gate_offset = isr, gate_selector = 8, gate_ist = 0, gate_type = 14, gate_dpl = 0, gate_present = True\<rparr>"
  by (rule gate.equality) (simp_all only: gate_offset_isr, simp_all add: decode_gate_def gate_parts)

section \<open>The loop\<close>

lemma set_gates_list:
  "length table = 256 \<Longrightarrow> length vs = 32 \<Longrightarrow> v \<le> 32 \<Longrightarrow>
   set_gates stubs (of_nat v) (table, vs) =
     (map (\<lambda>i. if v \<le> i \<and> i < 32 then interrupt_entry (stubs (of_nat i)) 0x8E else table ! i) [0..<256],
      map (\<lambda>i. v \<le> i \<or> vs ! i) [0..<32])"
proof (induction "32 - v" arbitrary: v table vs)
  case 0
  then have "v = 32" by simp
  moreover have "map ((!) table) [0..<256] = table" "map ((!) vs) [0..<32] = vs"
    using 0 map_nth [of table] map_nth [of vs] by simp_all
  moreover have "map (\<lambda>i. if 32 \<le> i \<and> i < 32 then interrupt_entry (stubs (of_nat i)) 0x8E else table ! i) [0..<256] = map ((!) table) [0..<256]"
    "map (\<lambda>i. 32 \<le> i \<or> vs ! i) [0..<32] = map ((!) vs) [0..<32]"
    by (rule map_cong [OF refl], force)+
  ultimately show ?case by (subst set_gates.simps) simp
next
  case (Suc n)
  then have v: "v < 32" by simp
  then have u: "unat (of_nat v :: u8) = v" by (simp add: unat_of_nat)
  have lt: "(of_nat v :: u8) < 32" using v u by (simp add: word_less_nat_alt)
  let ?t = "table[v := interrupt_entry (stubs (of_nat v)) 0x8E]" and ?vs = "vs[v := True]"
  have "set_gates stubs (of_nat v) (table, vs) = set_gates stubs (of_nat (Suc v)) (?t, ?vs)"
    using lt by (subst set_gates.simps) (simp add: idt_set_descriptor_def u add.commute)
  also have "\<dots> = (map (\<lambda>i. if Suc v \<le> i \<and> i < 32 then interrupt_entry (stubs (of_nat i)) 0x8E else ?t ! i) [0..<256],
      map (\<lambda>i. Suc v \<le> i \<or> ?vs ! i) [0..<32])"
    using Suc v by (intro Suc.hyps(1)) simp_all
  also have "\<dots> = (map (\<lambda>i. if v \<le> i \<and> i < 32 then interrupt_entry (stubs (of_nat i)) 0x8E else table ! i) [0..<256],
      map (\<lambda>i. v \<le> i \<or> vs ! i) [0..<32])"
    using Suc.prems v by (auto simp: nth_list_update le_Suc_eq Suc_le_eq)
  finally show ?case .
qed

lemma idt_gates:
  fixes stubs :: "u8 \<Rightarrow> u64" and addr :: u64
  assumes "length (idt s) = 256" "length (vectors s) = 32"
  defines "s' \<equiv> idt_initialize stubs addr s"
  shows "gate_at (idt s') (idtr_reg (idt_cpu s')) =
      (\<lambda>v. if v < 32 then Some \<lparr>gate_offset = stubs (of_nat v), gate_selector = 8, gate_ist = 0, gate_type = 14,
                                 gate_dpl = 0, gate_present = True\<rparr> else None) \<and>
    idtr_base (idtr_reg (idt_cpu s')) = addr \<and> drop 32 (idt s') = drop 32 (idt s) \<and>
    vectors s' = replicate 32 True \<and> interrupts (idt_cpu s')"
proof -
  have g: "set_gates stubs 0 (idt s, vectors s) =
      (map (\<lambda>i. if i < 32 then interrupt_entry (stubs (of_nat i)) 0x8E else idt s ! i) [0..<256], map (\<lambda>i. True) [0..<32])"
    using set_gates_list [OF assms(1,2), of 0 stubs] by simp
  have lim: "ucast (of_nat sizeof_idt_entry_t * of_nat IDT_MAX_DESCRIPTORS - 1 :: u32) = (511 :: u16)"
    by (simp add: sizeof_idt_entry_t_def)
  have tab: "idt s' = map (\<lambda>i. if i < 32 then interrupt_entry (stubs (of_nat i)) 0x8E else idt s ! i) [0..<256]"
    "vectors s' = replicate 32 True" "idtr_reg (idt_cpu s') = \<lparr>idtr_limit = 511, idtr_base = addr\<rparr>" "interrupts (idt_cpu s')"
    by (simp_all only: s'_def idt_initialize_def Let_def g lim split idt_state.simps) (simp_all add: map_replicate_const)
  have "gate_at (idt s') (idtr_reg (idt_cpu s')) v =
      (if v < 32 then Some \<lparr>gate_offset = stubs (of_nat v), gate_selector = 8, gate_ist = 0, gate_type = 14,
                           gate_dpl = 0, gate_present = True\<rparr> else None)" for v
    by (simp add: gate_at_def tab gate_fields)
  moreover have "drop 32 (idt s') = drop 32 (idt s)"
    using assms(1) by (intro nth_equalityI) (simp_all add: tab)
  ultimately show ?thesis using tab by (simp add: fun_eq_iff)
qed

section \<open>Properties\<close>

text \<open>
  C6. The interrupt table after idt_initialize.  The table register covers the 32 exception vectors
  and no other; the gate of every such vector is a present interrupt gate of privilege 0 through
  the kernel's code selector, and the address the processor puts together from its three parts is
  the one of the vector's stub; all 32 vectors are marked, the entries behind them are as before,
  and interrupts are on.
\<close>

theorem idt_initialize_gates:
  fixes stubs :: "u8 \<Rightarrow> u64" and addr :: u64
  assumes "length (idt s) = 256" "length (vectors s) = 32"
  defines "s' \<equiv> idt_initialize stubs addr s"
  shows "gate_at (idt s') (idtr_reg (idt_cpu s')) =
      (\<lambda>v. if v < 32 then Some \<lparr>gate_offset = stubs (of_nat v), gate_selector = 8, gate_ist = 0, gate_type = 14,
                                 gate_dpl = 0, gate_present = True\<rparr> else None) \<and>
    idtr_base (idtr_reg (idt_cpu s')) = addr \<and> drop 32 (idt s') = drop 32 (idt s) \<and>
    vectors s' = replicate 32 True \<and> interrupts (idt_cpu s')"
  unfolding assms(3) by (rule idt_gates [OF assms(1,2)])

definition tiny_idt :: idt_state where
  "tiny_idt = \<lparr>idt = replicate 256 (interrupt_entry 0 0), idtr = \<lparr>idtr_limit = 0, idtr_base = 0\<rparr>,
     vectors = replicate 32 False,
     idt_cpu = \<lparr>gdtr = \<lparr>gp_size = 39, gp_offset = 0\<rparr>, cs = 8, ds = 16, es = 16, fs = 16, gs = 16, ss = 16,
       idtr_reg = \<lparr>idtr_limit = 0, idtr_base = 0\<rparr>, interrupts = False, halted = False, cpu_console = []\<rparr>\<rparr>"

theorem idt_initialize_gates_witness:
  "let s' = idt_initialize (\<lambda>v. 0xFFFFFFFF80001000 + ucast v) 0x9000 tiny_idt in
   gate_at (idt s') (idtr_reg (idt_cpu s')) 14 = Some \<lparr>gate_offset = 0xFFFFFFFF8000100E, gate_selector = 8, gate_ist = 0,
     gate_type = 14, gate_dpl = 0, gate_present = True\<rparr>"
  using idt_initialize_gates [of tiny_idt "\<lambda>v. 0xFFFFFFFF80001000 + ucast v" "0x9000"]
  by (simp add: tiny_idt_def Let_def)

text \<open>
  C29. What the handler sees.  The vector number and the saved registers are right for all 32
  vectors, but the error code and the return frame are right only for the vectors 21 and 29.  For
  the other exceptions for which the processor has pushed an error code the stub pushes a dummy on
  top, so that everything behind the vector is one quadword late; for those without an error code
  it pushes none, so that everything is one quadword early.
\<close>

theorem exception_frame:
  assumes "v < 32"
  shows "taken v f r (x # stack) = Some
    (let st = \<lparr>st_r15 = r15 r, st_r14 = r14 r, st_rbx = rbx r, st_rax = rax r, vector_number = of_nat v, error_code = f_error f,
               iret_rip = f_rip f, iret_cs = f_cs f, iret_flags = f_flags f, iret_rsp = f_rsp f, iret_ss = f_ss f\<rparr> in
     if v \<in> {21, 29} then st
     else if v \<in> has_error_code
     then st\<lparr>error_code := 0, iret_rip := f_error f, iret_cs := f_rip f, iret_flags := f_cs f, iret_rsp := f_flags f, iret_ss := f_rsp f\<rparr>
     else st\<lparr>error_code := f_rip f, iret_rip := f_cs f, iret_cs := f_flags f, iret_flags := f_rsp f, iret_rsp := f_ss f, iret_ss := x\<rparr>)"
  by (auto simp: taken_def interrupt_stub_push_def isr_stub_def cpu_frame_def err_stubs_def has_error_code_def Let_def)

theorem exception_frame_witness:
  "map_option error_code (taken 14 \<lparr>f_error = 2, f_rip = 0x1000, f_cs = 8, f_flags = 0x202, f_rsp = 0x8000, f_ss = 0x10\<rparr>
     \<lparr>rax = 1, rbx = 2, r14 = 3, r15 = 4\<rparr> [0]) = Some 0"
  by (simp add: exception_frame has_error_code_def)

text \<open>The fall-through of the switch: a stack fault and a virtualization exception are logged twice.\<close>

lemma exception_falls_through:
  "length (exception_messages v) = (if v = 12 \<or> v = 20 then 2 else 1)"
  by (simp add: exception_messages_def)

end
