(* ===== verification/Kernel.thy ===== *)
theory Kernel
  imports Console_Run Idt
begin

text \<open>
  The start of the kernel (kernel/kernel/kernel.c): kernel_main runs the components' start
  functions in order and halts.  The console calls a component makes are run, on the log and
  the terminal, between the component and the next; before log_initialize the table of
  subscribers is empty and the messages are lost.

  What the loader left behind is \<open>boot_info\<close>, what is linked into the kernel \<open>image\<close>.
  \<open>Inr\<close> is the machine at the last hcf, \<open>Inl Halts\<close> an earlier one.
\<close>

section \<open>State\<close>

record machine =
  m_kernel :: kernel
  m_idt :: idt_state
  m_pmm :: pmm

record boot_info =
  limine_base_revision :: u64
  framebuffer_response :: "limine_framebuffer_response option"
  hhdm_response :: "limine_hhdm_response option"
  memmap_entries :: "limine_memmap_entry list"

record image =
  u_vga16 :: font
  gdt_addr :: u64
  idt_addr :: u64
  isr_stub_table :: "u8 \<Rightarrow> u64"

section \<open>Operations\<close>

definition LIMINE_BASE_REVISION_SUPPORTED :: "boot_info \<Rightarrow> bool" where
  "LIMINE_BASE_REVISION_SUPPORTED bi \<longleftrightarrow> limine_base_revision bi = 0"

definition hcf :: "'a outcome" where
  "hcf = Inl Halts"

text \<open>The calls a component has added to the ones before.\<close>

abbreviation added :: "console_call list \<Rightarrow> console_call list \<Rightarrow> console_call list" where
  "added old new \<equiv> drop (length old) new"

text \<open>The part up to log_initialize.\<close>

definition start_console :: "log_env \<Rightarrow> image \<Rightarrow> boot_info \<Rightarrow> kernel \<Rightarrow> kernel outcome" where
  "start_console env im bi k0 =
     (let s = serial_initialize SERIAL_COM1 (k_serial k0) in
      rbind (run_calls env (added (serial_console (k_serial k0)) (serial_console s)) (k0\<lparr>k_serial := s\<rparr>)) (\<lambda>k1.
      rbind (terminal_initialize (u_vga16 im) (framebuffer_response bi) (tty_dst (k_tty k1)) (tty_mem (k_tty k1))) (\<lambda>t.
      rbind (run_calls env (tty_console t) (k1\<lparr>k_tty := t\<rparr>)) (\<lambda>k2.
        Inr (log_initialize k2)))))"

definition kernel_main :: "log_env \<Rightarrow> cpuid \<Rightarrow> image \<Rightarrow> boot_info \<Rightarrow> machine \<Rightarrow> machine outcome" where
  "kernel_main env cpuid im bi m =
     (if \<not> LIMINE_BASE_REVISION_SUPPORTED bi then hcf
      else
        rbind (start_console env im bi (m_kernel m)) (\<lambda>k1.
        rbind (run_calls env (Set_text_color COLORS_WHITE # detect_cpu cpuid @ [Reset_text_color]) k1) (\<lambda>k2.
        let c0 = idt_cpu (m_idt m); c1 = gdt_initialize (gdt_addr im) c0 in
        rbind (run_calls env (added (cpu_console c0) (cpu_console c1)) k2) (\<lambda>k3.
        let i1 = idt_initialize (isr_stub_table im) (idt_addr im) ((m_idt m)\<lparr>idt_cpu := c1\<rparr>);
            p1 = hhdm_initialize (hhdm_response bi) (m_pmm m) in
        rbind (run_calls env (added (console (m_pmm m)) (console p1)) k3) (\<lambda>k4.
        rbind (mem_initialize (memmap_entries bi) p1) (\<lambda>(entries, p2).
        rbind (run_calls env (added (console p1) (console p2)) k4) (\<lambda>k5.
          Inr \<lparr>m_kernel = k5, m_idt = i1, m_pmm = p2\<rparr>)))))))"

section \<open>Before the log\<close>

text \<open>A message without subscribers changes only the buffer it is formatted into.\<close>

lemma lost_message:
  assumes "call_fits (Ulog severity f va)" "k_subscribers k = ulog_init" "s_message env \<noteq> 0"
  shows "\<exists>m. run_call env (Ulog severity f va) k = Inr (k\<lparr>k_log_mem := m\<rparr>)"
proof -
  obtain t where t: "render (lit f) va = Inr t" "length t < 18446744073709551616" using assms(1) by auto
  have "recipients severity (ulog_init :: log_function subscriber_t list) = []" by (simp add: recipients_def ulog_init_def)
  then show ?thesis
    using ulog_message_deliver [OF t assms(3), of "call_subscriber env" severity "k_subscribers k" "k_log_mem k" k] assms(2)
    by (auto simp: log_message_def)
qed

lemma serial_bytes:
  assumes "s = serial_initialize SERIAL_COM1 s0"
  shows "added (serial_console s0) (serial_console s) =
      [ULOG_INFO ''Initializing Serial port...'' [], ULOG_INFO ''Success, Serial port initialized.'' []]"
    "is_serial_initialized s" "\<exists>q. io s = io s0 @ q \<and> written SERIAL_COM1 q = [0, 8]"
  by (simp_all add: assms serial_initialize_def Let_def is_serial_initialized_def serial_configure_baud_rate_def
      serial_configure_fifo_def serial_configure_line_def serial_configure_modem_def outb_def SERIAL_FIFO_COMMAND_PORT_def
      SERIAL_LINE_COMMAND_PORT_def SERIAL_MODEM_COMMAND_PORT_def)

lemma lost_plain:
  assumes "list_all (\<lambda>c. c \<noteq> 0 \<and> c \<noteq> 0x25) (bytes_of f)" "length f \<le> 1000" "k_subscribers k = ulog_init" "s_message env \<noteq> 0"
  shows "\<exists>m. run_call env (Ulog severity f []) k = Inr (k\<lparr>k_log_mem := m\<rparr>)"
  by (rule lost_message [OF ulog_plain [OF assms(1,2)] assms(3,4)])

lemma serial_starts:
  assumes "s_message env \<noteq> 0" "k_subscribers k0 = ulog_init" "s = serial_initialize SERIAL_COM1 (k_serial k0)"
  shows "\<exists>mm. run_calls env (added (serial_console (k_serial k0)) (serial_console s)) (k0\<lparr>k_serial := s\<rparr>) =
    Inr (k0\<lparr>k_serial := s, k_log_mem := mm\<rparr>)"
proof -
  have f: "list_all (\<lambda>c. c \<noteq> 0 \<and> c \<noteq> 0x25) (bytes_of ''Initializing Serial port...'')"
    "list_all (\<lambda>c. c \<noteq> 0 \<and> c \<noteq> 0x25) (bytes_of ''Success, Serial port initialized.'')"
    by (simp_all add: plain_bytes of_char_def)
  obtain m1 where m1: "run_call env (ULOG_INFO ''Initializing Serial port...'' []) (k0\<lparr>k_serial := s\<rparr>) = Inr (k0\<lparr>k_serial := s, k_log_mem := m1\<rparr>)"
    using lost_plain [OF f(1), of "k0\<lparr>k_serial := s\<rparr>" env ULOG_INFO_LEVEL] assms(1,2) by auto
  obtain m2 where m2: "run_call env (ULOG_INFO ''Success, Serial port initialized.'' []) (k0\<lparr>k_serial := s, k_log_mem := m1\<rparr>) =
      Inr (k0\<lparr>k_serial := s, k_log_mem := m2\<rparr>)"
    using lost_plain [OF f(2), of "k0\<lparr>k_serial := s, k_log_mem := m1\<rparr>" env ULOG_INFO_LEVEL] assms(1,2) by auto
  show ?thesis unfolding serial_bytes(1) [OF assms(3)] using m1 m2 by (intro exI [of _ m2]) (simp del: run_call.simps)
qed

lemma start_console_starts:
  assumes "s_message env \<noteq> 0" "k_subscribers k0 = ulog_init" "framebuffer_response bi = Some r" "framebuffer_count r \<noteq> 0"
    and "fb_usable (hd (framebuffers r)) (u_vga16 im)"
  shows "\<exists>k1 q. start_console env im bi k0 = Inr k1 \<and> logging k1 \<and> tty_fb (k_tty k1) = hd (framebuffers r) \<and>
    tty_font (k_tty k1) = u_vga16 im \<and> io (k_serial k1) = io (k_serial k0) @ q \<and> written SERIAL_COM1 q = [0, 8]"
proof -
  define s where "s = serial_initialize SERIAL_COM1 (k_serial k0)"
  note sb = serial_bytes [OF s_def]
  obtain q where q: "io s = io (k_serial k0) @ q" "written SERIAL_COM1 q = [0, 8]" using sb(3) by blast
  obtain m2 where m2: "run_calls env (added (serial_console (k_serial k0)) (serial_console s)) (k0\<lparr>k_serial := s\<rparr>) =
      Inr (k0\<lparr>k_serial := s, k_log_mem := m2\<rparr>)"
    using serial_starts [OF assms(1,2) s_def] by blast
  let ?k1 = "k0\<lparr>k_serial := s, k_log_mem := m2\<rparr>"
  obtain t where t: "terminal_initialize (u_vga16 im) (Some r) (tty_dst (k_tty ?k1)) (tty_mem (k_tty ?k1)) = Inr t" "tty_ok t"
    "tty_fb t = hd (framebuffers r)" "tty_font t = u_vga16 im" "tty_console t = [ULOG_INFO ''Success, Terminal initialized.'' []]"
    using terminal_initialize_starts [OF assms(4,5)] by blast
  have f: "list_all (\<lambda>c. c \<noteq> 0 \<and> c \<noteq> 0x25) (bytes_of ''Success, Terminal initialized.'')"
    by (simp add: plain_bytes of_char_def)
  obtain m3 where m3: "run_call env (ULOG_INFO ''Success, Terminal initialized.'' []) (?k1\<lparr>k_tty := t\<rparr>) = Inr (?k1\<lparr>k_tty := t, k_log_mem := m3\<rparr>)"
    using lost_plain [OF f, of "?k1\<lparr>k_tty := t\<rparr>" env ULOG_INFO_LEVEL] assms(1,2) by auto
  let ?k = "log_initialize (?k1\<lparr>k_tty := t, k_log_mem := m3\<rparr>)"
  have "start_console env im bi k0 = Inr ?k"
    unfolding start_console_def Let_def s_def [symmetric] assms(3)
    using m2 t(1) m3 by (simp add: t(5) del: run_call.simps)
  moreover have "logging ?k"
    using t(2) sb(2) table_of_log_initialize [of ?k "?k1\<lparr>k_tty := t, k_log_mem := m3\<rparr>"] by (simp add: logging_def)
  ultimately show ?thesis using t(3,4) q by (intro exI [of _ ?k] exI [of _ q]) simp
qed

text \<open>Without a frame buffer the terminal halts.\<close>

definition has_framebuffer :: "boot_info \<Rightarrow> bool" where
  "has_framebuffer bi \<longleftrightarrow> (case framebuffer_response bi of None \<Rightarrow> False | Some r \<Rightarrow> framebuffer_count r \<noteq> 0)"

lemma start_console_halts:
  assumes "s_message env \<noteq> 0" "k_subscribers k0 = ulog_init" "\<not> has_framebuffer bi"
  shows "start_console env im bi k0 = Inl Halts"
proof -
  define s where "s = serial_initialize SERIAL_COM1 (k_serial k0)"
  obtain m2 where m2: "run_calls env (added (serial_console (k_serial k0)) (serial_console s)) (k0\<lparr>k_serial := s\<rparr>) =
      Inr (k0\<lparr>k_serial := s, k_log_mem := m2\<rparr>)"
    using serial_starts [OF assms(1,2) s_def] by blast
  have "terminal_initialize (u_vga16 im) (framebuffer_response bi) d mm = Inl Halts" for d mm
    using assms(3) by (auto simp: terminal_initialize_def has_framebuffer_def split: option.splits)
  then show ?thesis unfolding start_console_def Let_def s_def [symmetric] m2 by simp
qed

section \<open>Where interrupts go\<close>

text \<open>
  The address the processor continues at when the vector arrives: through the gate, if it is a
  present interrupt gate whose selector is a present 64-bit code segment of the loaded table.
\<close>

definition interrupt_target :: "machine \<Rightarrow> nat \<Rightarrow> u64 option" where
  "interrupt_target m v =
     (let c = idt_cpu (m_idt m) in
      case gate_at (idt (m_idt m)) (idtr_reg c) v of
        None \<Rightarrow> None
      | Some g \<Rightarrow>
          (case segment_at gdt (gdtr c) (gate_selector g) of
             None \<Rightarrow> None
           | Some s \<Rightarrow>
               if gate_present g \<and> gate_type g = 14 \<and> seg_present s \<and> seg_code s \<and> seg_long s
               then Some (gate_offset g) else None))"

lemma interrupt_target_stubs:
  assumes "length (idt s) = 256" "length (vectors s) = 32" "gdtr (idt_cpu s) = \<lparr>gp_size = 39, gp_offset = addr\<rparr>"
    and "m_idt m = idt_initialize stubs iaddr s"
  shows "interrupt_target m v = (if v < 32 then Some (stubs (of_nat v)) else None)"
proof -
  note g = idt_gates [OF assms(1,2), of stubs iaddr]
  have c: "gdtr (idt_cpu (m_idt m)) = \<lparr>gp_size = 39, gp_offset = addr\<rparr>"
    using assms(3) by (simp add: assms(4) idt_initialize_def Let_def split_def)
  show ?thesis
    unfolding interrupt_target_def Let_def c unfolding assms(4) using g by (simp add: kernel_code_segment)
qed

section \<open>Properties\<close>

lemma cpu_calls_fit: "list_all call_fits (Set_text_color COLORS_WHITE # detect_cpu cpuid @ [Reset_text_color])"
    "list_all to_screen (Set_text_color COLORS_WHITE # detect_cpu cpuid @ [Reset_text_color])"
    "transcript (Set_text_color COLORS_WHITE # detect_cpu cpuid @ [Reset_text_color]) = []"
  using detect_cpu_fits [of cpuid] by (simp_all add: transcript_def)

lemma gdt_calls_fit: "list_all call_fits [ULOG_INFO ''Initializing GDT...'' [], ULOG_INFO ''GDT initialized!'' []]"
  by (simp del: call_fits.simps) (intro conjI ulog_plain; simp add: plain_bytes of_char_def)

lemma hhdm_calls_fit: "list_all call_fits [ULOG_INFO ''HHDM Set.'' []]"
  by (simp del: call_fits.simps) (intro ulog_plain; simp add: plain_bytes of_char_def)

text \<open>The start as one lemma, for its own property and for what happens after it.\<close>

lemma kernel_boots:
  assumes "env_ok env" "LIMINE_BASE_REVISION_SUPPORTED bi" "k_subscribers (m_kernel m) = ulog_init"
    and "framebuffer_response bi = Some r" "framebuffer_count r \<noteq> 0" "fb_usable (hd (framebuffers r)) (u_vga16 im)"
    and "hhdm_response bi = Some h" "boot_ok (memmap_entries bi) (hhdm_initialize (Some h) (m_pmm m))"
    and "length (idt (m_idt m)) = 256" "length (vectors (m_idt m)) = 32"
  shows "\<exists>m' e es'. kernel_main env cpuid im bi m = Inr m' \<and>
    booted (memmap_entries bi) (hhdm_initialize (Some h) (m_pmm m)) e es' (m_pmm m') \<and>
    interrupt_target m' = (\<lambda>v. if v < 32 then Some (isr_stub_table im (of_nat v)) else None) \<and> interrupts (idt_cpu (m_idt m')) \<and>
    logging (m_kernel m') \<and> tty_fb (k_tty (m_kernel m')) = hd (framebuffers r) \<and>
    (\<exists>q. io (k_serial (m_kernel m')) = io (k_serial (m_kernel m)) @ q \<and>
      written SERIAL_COM1 q = [0, 8] @ transcript ([ULOG_INFO ''Initializing GDT...'' [], ULOG_INFO ''GDT initialized!'' [],
        ULOG_INFO ''HHDM Set.'' []] @ added (console (hhdm_initialize (Some h) (m_pmm m))) (console (m_pmm m'))))"
proof -
  let ?k0 = "m_kernel m" and ?p1 = "hhdm_initialize (Some h) (m_pmm m)" and ?es = "memmap_entries bi"
  have e: "s_message env \<noteq> 0" using assms(1) by (simp add: env_ok_def)
  obtain k1 q where k1: "start_console env im bi ?k0 = Inr k1" "logging k1" "tty_fb (k_tty k1) = hd (framebuffers r)"
      "io (k_serial k1) = io (k_serial ?k0) @ q" "written SERIAL_COM1 q = [0, 8]"
    using start_console_starts [OF e assms(3-6)] by blast
  note run = run_calls_send [OF assms(1)]
  obtain k2 where k2: "run_calls env (Set_text_color COLORS_WHITE # detect_cpu cpuid @ [Reset_text_color]) k1 = Inr k2" "sends k1 [] k2"
    using run [OF k1(2) cpu_calls_fit(1)] unfolding cpu_calls_fit(3) by blast
  then have l2: "logging k2" by (simp add: sends_def)
  let ?g = "[ULOG_INFO ''Initializing GDT...'' [], ULOG_INFO ''GDT initialized!'' []]"
  obtain k3 where k3: "run_calls env ?g k2 = Inr k3" "sends k2 (transcript ?g) k3" using run [OF l2 gdt_calls_fit] by blast
  then have l3: "logging k3" by (simp add: sends_def)
  obtain k4 where k4: "run_calls env [ULOG_INFO ''HHDM Set.'' []] k3 = Inr k4" "sends k3 (transcript [ULOG_INFO ''HHDM Set.'' []]) k4"
    using run [OF l3 hhdm_calls_fit] by blast
  then have l4: "logging k4" by (simp add: sends_def)
  obtain e es' p2 where p2: "mem_initialize ?es ?p1 = Inr (es', p2)" "booted ?es ?p1 e es' p2"
    using pmm_initialize_booted [OF assms(8)] by (auto simp: mem_initialize_def vmm_initialize_def)
  have "length ?es < 18446744073709551616" using assms(8) by (simp add: boot_ok_def)
  then obtain calls where calls: "console p2 = console ?p1 @ calls" "list_all call_fits calls"
    using mem_initialize_reports [OF p2(1)] by (auto simp: reports_def)
  obtain k5 where k5: "run_calls env calls k4 = Inr k5" "sends k4 (transcript calls) k5" using run [OF l4 calls(2)] by blast
  let ?c1 = "gdt_initialize (gdt_addr im) (idt_cpu (m_idt m))"
  let ?s = "(m_idt m)\<lparr>idt_cpu := ?c1\<rparr>"
  let ?m' = "\<lparr>m_kernel = k5, m_idt = idt_initialize (isr_stub_table im) (idt_addr im) ?s, m_pmm = p2\<rparr>"
  have "console ?p1 = console (m_pmm m) @ [ULOG_INFO ''HHDM Set.'' []]" by (simp add: hhdm_initialize_def Let_def)
  then have main: "kernel_main env cpuid im bi m = Inr ?m'"
    using assms(2) by (simp add: kernel_main_def k1(1) k2(1) gdt_calls k3(1) assms(7) k4(1) p2(1) calls(1) k5(1) Let_def
        del: run_calls.simps COLORS_WHITE_def ULOG_INFO_LEVEL_def)
  have "sends k1 ([] @ transcript ?g @ transcript [ULOG_INFO ''HHDM Set.'' []] @ transcript calls) k5"
    by (intro sends_trans [OF k2(2)] sends_trans [OF k3(2)] sends_trans [OF k4(2)] k5(2))
  then have fin: "sends k1 (transcript (?g @ [ULOG_INFO ''HHDM Set.'' []] @ calls)) k5" by (simp add: transcript_def)
  have "interrupt_target ?m' v = (if v < 32 then Some (isr_stub_table im (of_nat v)) else None)" for v
    by (rule interrupt_target_stubs [of ?s "gdt_addr im" _ _ "idt_addr im"]) (simp_all add: assms(9,10) gdtr_initialized)
  then have target: "interrupt_target ?m' = (\<lambda>v. if v < 32 then Some (isr_stub_table im (of_nat v)) else None)" by (simp add: fun_eq_iff)
  have ints: "interrupts (idt_cpu (idt_initialize (isr_stub_table im) (idt_addr im) ?s))"
    by (simp add: idt_initialize_def Let_def split_def)
  show ?thesis
    using main p2(2) target ints fin k1(3-5) calls(1)
    by (intro exI [of _ ?m'] exI [of _ e] exI [of _ es']) (auto simp: sends_def)
qed

text \<open>
  C1. The kernel boots.  With a loader that speaks the revision, a usable frame buffer, an offset of
  the direct map, a well-formed memory map with room for the bitmap, and a serial port that
  works, kernel_main reaches its last hcf: the page allocator is in the state its theory
  describes; all 32 exception vectors lead to their stubs in kernel code, no other vector leads
  anywhere, and interrupts are on; the log and the terminal on the first frame buffer are in
  their invariants; and the serial port got the two bytes of its divisor and then one line for
  every message since log_initialize (the messages of the serial port and the terminal before
  it are lost).
\<close>

theorem kernel_main_boots:
  assumes "env_ok env" "LIMINE_BASE_REVISION_SUPPORTED bi" "k_subscribers (m_kernel m) = ulog_init"
    and "framebuffer_response bi = Some r" "framebuffer_count r \<noteq> 0" "fb_usable (hd (framebuffers r)) (u_vga16 im)"
    and "hhdm_response bi = Some h" "boot_ok (memmap_entries bi) (hhdm_initialize (Some h) (m_pmm m))"
    and "length (idt (m_idt m)) = 256" "length (vectors (m_idt m)) = 32"
  shows "\<exists>m' e es'. kernel_main env cpuid im bi m = Inr m' \<and>
    booted (memmap_entries bi) (hhdm_initialize (Some h) (m_pmm m)) e es' (m_pmm m') \<and>
    interrupt_target m' = (\<lambda>v. if v < 32 then Some (isr_stub_table im (of_nat v)) else None) \<and> interrupts (idt_cpu (m_idt m')) \<and>
    logging (m_kernel m') \<and> tty_fb (k_tty (m_kernel m')) = hd (framebuffers r) \<and>
    (\<exists>q. io (k_serial (m_kernel m')) = io (k_serial (m_kernel m)) @ q \<and>
      written SERIAL_COM1 q = [0, 8] @ transcript ([ULOG_INFO ''Initializing GDT...'' [], ULOG_INFO ''GDT initialized!'' [],
        ULOG_INFO ''HHDM Set.'' []] @ added (console (hhdm_initialize (Some h) (m_pmm m))) (console (m_pmm m'))))"
  by (rule kernel_boots [OF assms])

text \<open>
  C20. A boot with a serial port that never gets ready.  The kernel halts at once when the loader does
  not speak the revision, and in terminal_initialize when there is no frame buffer; otherwise it
  neither reaches its last hcf nor halts: the first message after log_initialize, that of the
  descriptor table, waits for the port for ever, so that the interrupt table and the memory are never set up.
\<close>

theorem kernel_main_stuck_port:
  assumes "s_message env \<noteq> 0" "serial_buf env \<noteq> 0" "k_subscribers (m_kernel m) = ulog_init"
    and "ready (env_dev env) SERIAL_COM1 = (\<lambda>p. False)"
    and "set_option (framebuffer_response bi) \<subseteq> {r. fb_usable (hd (framebuffers r)) (u_vga16 im)}"
  shows "kernel_main env cpuid im bi m = Inl (if LIMINE_BASE_REVISION_SUPPORTED bi \<and> has_framebuffer bi then Diverges else Halts)"
proof (cases "LIMINE_BASE_REVISION_SUPPORTED bi \<and> has_framebuffer bi")
  case True
  then obtain r where r: "framebuffer_response bi = Some r" "framebuffer_count r \<noteq> 0"
    by (auto simp: has_framebuffer_def split: option.splits)
  obtain k1 where k1: "start_console env im bi (m_kernel m) = Inr k1" "logging k1"
    using start_console_starts [OF assms(1,3) r, of im] assms(5) r(1) by auto
  obtain t where t: "run_calls env (Set_text_color COLORS_WHITE # detect_cpu cpuid @ [Reset_text_color]) k1 = Inr (k1\<lparr>k_tty := t\<rparr>)"
      "logging (k1\<lparr>k_tty := t\<rparr>)"
    using run_calls_screen [OF cpu_calls_fit(2) k1(2) cpu_calls_fit(1), of env cpuid] by (auto simp: sends_def)
  let ?k2 = "k1\<lparr>k_tty := t\<rparr>"
  have same: "log_initialize ?k2 = ?k2" using t(2) by (simp add: logging_def log_initialize_def Let_def)
  have r: "render (lit ''Initializing GDT...'') [] = Inr (bytes_of ''Initializing GDT...'')"
    by (simp add: lit_def bytes_of_def of_char_def)
  have "log_message env ULOG_INFO_LEVEL (lit ''Initializing GDT...'') [] (log_initialize ?k2) = Inl Diverges"
    using t(2) assms(4) by (intro log_message_stuck_port [OF r _ assms(1,2)]) (simp_all add: bytes_of_def logging_def)
  then have "run_calls env [ULOG_INFO ''Initializing GDT...'' [], ULOG_INFO ''GDT initialized!'' []] ?k2 = Inl Diverges"
    by (simp add: same)
  then show ?thesis
    using True by (simp add: kernel_main_def k1(1) t(1) gdt_calls Let_def del: run_calls.simps COLORS_WHITE_def ULOG_INFO_LEVEL_def)
next
  case False
  then show ?thesis using start_console_halts [OF assms(1,3)] by (auto simp: kernel_main_def hcf_def)
qed

section \<open>A small machine\<close>

definition tiny_boot :: boot_info where
  "tiny_boot = \<lparr>limine_base_revision = 0,
     framebuffer_response = Some \<lparr>fbr_revision = 0, framebuffer_count = 1, framebuffers = [tiny_fb]\<rparr>,
     hhdm_response = Some \<lparr>hhdm_revision = 0, hhdm_offset = 0xffff800000000000\<rparr>, memmap_entries = demo_map\<rparr>"

definition tiny_image :: image where
  "tiny_image = \<lparr>u_vga16 = tiny_font, gdt_addr = 0x9000, idt_addr = 0xA000, isr_stub_table = (\<lambda>v. 0xFFFFFFFF80001000 + ucast v)\<rparr>"

definition tiny_machine :: machine where
  "tiny_machine = \<lparr>m_kernel = tiny_kernel\<lparr>k_subscribers := ulog_init\<rparr>, m_idt = tiny_idt, m_pmm = demo_boot\<rparr>"

lemma tiny_fb_usable: "fb_usable tiny_fb tiny_font"
  by (simp add: fb_usable_def tiny_fb_def tiny_height)

lemma tiny_boot_ok: "boot_ok demo_map (hhdm_initialize (Some \<lparr>hhdm_revision = 0, hhdm_offset = 0xffff800000000000\<rparr>) demo_boot)"
proof -
  let ?s = "hhdm_initialize (Some \<lparr>hhdm_revision = 0, hhdm_offset = 0xffff800000000000\<rparr>) demo_boot"
  have "pmm_bitmap (pmm_count demo_map ?s) = pmm_bitmap (pmm_count demo_map demo_boot)"
      "pmm_bitmap ?s = pmm_bitmap demo_boot" "g_hhdm_offset ?s = g_hhdm_offset demo_boot"
    by (simp_all add: pmm_count_def hhdm_initialize_def demo_boot_def Let_def)
  then show ?thesis using demo_boot_ok by (simp add: boot_ok_def)
qed

lemma tiny_env_ok: "env_ok (tiny_env busy_once)"
  using busy_once_works by (simp add: env_ok_def tiny_env_def)

lemma tiny_machine_boots:
  "\<exists>m'. kernel_main (tiny_env busy_once) (\<lambda>leaf. (0, 0, 0, 0)) tiny_image tiny_boot tiny_machine = Inr m' \<and>
     interrupt_target m' = (\<lambda>v. if v < 32 then Some (isr_stub_table tiny_image (of_nat v)) else None) \<and> logging (m_kernel m')"
proof -
  let ?r = "\<lparr>fbr_revision = 0, framebuffer_count = 1, framebuffers = [tiny_fb]\<rparr>"
  from kernel_boots [OF tiny_env_ok, of tiny_boot tiny_machine ?r tiny_image "\<lparr>hhdm_revision = 0, hhdm_offset = 0xffff800000000000\<rparr>"
      "\<lambda>leaf. (0, 0, 0, 0)"]
  show ?thesis
    using tiny_fb_usable tiny_boot_ok
    by (auto simp: tiny_boot_def tiny_machine_def tiny_image_def LIMINE_BASE_REVISION_SUPPORTED_def tiny_idt_def)
qed

theorem kernel_main_boots_witness:
  "\<exists>m'. kernel_main (tiny_env busy_once) (\<lambda>leaf. (0, 0, 0, 0)) tiny_image tiny_boot tiny_machine = Inr m' \<and>
     interrupt_target m' 14 = Some 0xFFFFFFFF8000100E \<and> interrupt_target m' 32 = None \<and> logging (m_kernel m')"
proof -
  let ?r = "\<lparr>fbr_revision = 0, framebuffer_count = 1, framebuffers = [tiny_fb]\<rparr>"
  from kernel_main_boots [OF tiny_env_ok, of tiny_boot tiny_machine ?r tiny_image "\<lparr>hhdm_revision = 0, hhdm_offset = 0xffff800000000000\<rparr>"
      "\<lambda>leaf. (0, 0, 0, 0)"]
  obtain m' where "kernel_main (tiny_env busy_once) (\<lambda>leaf. (0, 0, 0, 0)) tiny_image tiny_boot tiny_machine = Inr m'"
    "interrupt_target m' = (\<lambda>v. if v < 32 then Some (isr_stub_table tiny_image (of_nat v)) else None)" "logging (m_kernel m')"
    using tiny_fb_usable tiny_boot_ok
    by (auto simp: tiny_boot_def tiny_machine_def tiny_image_def LIMINE_BASE_REVISION_SUPPORTED_def tiny_idt_def)
  then show ?thesis by (intro exI [of _ m']) (simp add: tiny_image_def)
qed

theorem kernel_main_stuck_port_witness:
  "kernel_main (tiny_env (\<lambda>h port. 0)) (\<lambda>leaf. (0, 0, 0, 0)) tiny_image tiny_boot tiny_machine = Inl Diverges"
  using kernel_main_stuck_port [of "tiny_env (\<lambda>h port. 0)" tiny_machine tiny_boot tiny_image "\<lambda>leaf. (0, 0, 0, 0)"] tiny_fb_usable
  by (simp add: tiny_env_def tiny_machine_def tiny_boot_def tiny_image_def ready_def fun_eq_iff has_framebuffer_def LIMINE_BASE_REVISION_SUPPORTED_def)

end
