(* ===== verification/Exceptions.thy ===== *)
theory Exceptions
  imports Kernel
begin

text \<open>
  An exception from the processor to the console.  The gate of the vector leads to its stub, the
  stub and interrupt_stub build the structure the handler gets (theory Idt), the handler
  logs and stops the processor, and its messages are run on the log as the kernel's start left
  it (theory Console_Run).
\<close>

section \<open>Taking an exception\<close>

text \<open>
  The exception \<open>v\<close> on a machine: the stub is the one the processor finds through the gate, or
  the exception is not taken at all (None), and the messages go through the log.
\<close>

definition take_exception ::
  "log_env \<Rightarrow> image \<Rightarrow> nat \<Rightarrow> frame \<Rightarrow> regs \<Rightarrow> u64 list \<Rightarrow> machine \<Rightarrow> machine outcome option" where
  "take_exception env im v f r stack m =
     (if interrupt_target m v \<noteq> Some (isr_stub_table im (of_nat v)) then None
      else case taken v f r stack of
        None \<Rightarrow> None
      | Some context \<Rightarrow>
          let c0 = idt_cpu (m_idt m); c1 = exception_handler context c0 in
          Some (rbind (run_calls env (added (cpu_console c0) (cpu_console c1)) (m_kernel m)) (\<lambda>k.
            Inr (m\<lparr>m_kernel := k, m_idt := (m_idt m)\<lparr>idt_cpu := c1\<rparr>\<rparr>))))"

section \<open>The messages\<close>

definition plain_message :: "string \<Rightarrow> bool" where
  "plain_message msg \<longleftrightarrow> list_all (\<lambda>c. c \<noteq> 0 \<and> c \<noteq> 0x25) (bytes_of msg) \<and> length msg \<le> 119"

lemma exception_messages_plain: "list_all plain_message (exception_messages v)"
proof -
  have "list_all plain_message
    [''Critical, Interrupt: Divide Error.'', ''Critical, Interrupt: Debug Exception.'',
     ''Critical, Interrupt: Non Maskable External Interrupt.'', ''Critical, Interrupt: Breakpoint Reached.'',
     ''Critical, Interrupt: Overflow.'', ''Critical, Interrupt: BOUND Range Exceeded.'',
     ''Critical, Interrupt: Invalid Opcode (Undefined Opcode).'',
     ''Critical, Interrupt: Device Not Available (No Math Coprocessor).'', ''Critical, Interrupt: Double Fault.'',
     ''Critical, Interrupt: Coprocessor Segment Overrun.'', ''Critical, Interrupt: Invalid TSS.'',
     ''Critical, Interrupt: Segment Not Present.'', ''Critical, Interrupt: Stack-Segment Fault.'',
     ''Critical, Interrupt: General Protection Fault.'', ''Critical, Interrupt: Page Fault.'',
     ''Critical, Interrupt: This interrupt is reserved by Intel. This should not be used.'',
     ''Critical, Interrupt: x87 FPU Floating-Point Error (Math Fault).'',
     ''Critical, Interrupt: Alignment Check Fault.'', ''Critical, Interrupt: Machine Check. Abort.'',
     ''Critical, Interrupt: SIMD Floating-Point Exception Fault.'',
     ''Critical, Interrupt: Virtualization Exception Fault.'',
     ''Critical, Interrupt: Control Protection Exception Fault.'', ''Critical, Interrupt: Unexpected Interrupt.'']"
    by code_simp
  then show ?thesis by (simp add: exception_messages_def)
qed

lemma plain_message_calls:
  assumes "list_all plain_message ms"
  shows "list_all call_fits (map (\<lambda>msg. ULOG_CRITICAL msg []) ms)"
    "transcript (map (\<lambda>msg. ULOG_CRITICAL msg []) ms) = concat (map (\<lambda>msg. log_line ULOG_CRITICAL_LEVEL (bytes_of msg)) ms)"
proof -
  have fits: "call_fits (ULOG_CRITICAL msg [])" if "plain_message msg" for msg
    using that by (intro ulog_plain) (simp_all add: plain_message_def)
  have mtext: "message_text msg [] = bytes_of msg" if "plain_message msg" for msg
  proof -
    have p: "\<forall>c\<in>set (bytes_of msg). c \<noteq> 0 \<and> c \<noteq> 0x25" "length (bytes_of msg) \<le> 119"
      using that by (simp_all add: plain_message_def list_all_iff bytes_of_def)
    then have "render (lit msg) [] = Inr (bytes_of msg)" unfolding lit_def by (simp add: render_plain)
    moreover have "0 \<notin> set (bytes_of msg)" using p(1) by blast
    ultimately show ?thesis using p(2) by (simp add: message_text_def log_text_plain)
  qed
  show "list_all call_fits (map (\<lambda>msg. ULOG_CRITICAL msg []) ms)"
    using assms fits by (auto simp: list_all_iff simp del: call_fits.simps)
  show "transcript (map (\<lambda>msg. ULOG_CRITICAL msg []) ms) = concat (map (\<lambda>msg. log_line ULOG_CRITICAL_LEVEL (bytes_of msg)) ms)"
    using assms by (induction ms) (simp_all add: transcript_def mtext)
qed

text \<open>The messages of a taken exception go out when the log works.\<close>

lemma taken_exception:
  assumes "env_ok env" "logging (m_kernel m)"
    and "interrupt_target m = (\<lambda>v. if v < 32 then Some (isr_stub_table im (of_nat v)) else None)"
  shows "if v < 32
    then \<exists>m' q. take_exception env im v f r (x # stack) m = Some (Inr m') \<and>
      halted (idt_cpu (m_idt m')) \<and> \<not> interrupts (idt_cpu (m_idt m')) \<and> m_pmm m' = m_pmm m \<and> logging (m_kernel m') \<and>
      io (k_serial (m_kernel m')) = io (k_serial (m_kernel m)) @ q \<and>
      written SERIAL_COM1 q = concat (map (\<lambda>msg. log_line ULOG_CRITICAL_LEVEL (bytes_of msg)) (exception_messages (of_nat v)))
    else take_exception env im v f r (x # stack) m = None"
proof (cases "v < 32")
  case True
  obtain ctx where c: "taken v f r (x # stack) = Some ctx" "vector_number ctx = of_nat v"
    by (cases "v \<in> err_stubs"; cases "v \<in> has_error_code")
      (simp_all add: taken_def interrupt_stub_push_def isr_stub_def cpu_frame_def)
  let ?calls = "map (\<lambda>msg. ULOG_CRITICAL msg []) (exception_messages (of_nat v))"
  note calls = plain_message_calls [OF exception_messages_plain [of "of_nat v"]]
  obtain k' where k': "run_calls env ?calls (m_kernel m) = Inr k'" "sends (m_kernel m) (transcript ?calls) k'"
    using run_calls_send [OF assms(1,2) calls(1)] by blast
  have t: "interrupt_target m v = Some (isr_stub_table im (of_nat v))" using True by (simp add: assms(3))
  have "take_exception env im v f r (x # stack) m =
      Some (Inr (m\<lparr>m_kernel := k', m_idt := (m_idt m)\<lparr>idt_cpu := exception_handler ctx (idt_cpu (m_idt m))\<rparr>\<rparr>))"
    using k'(1) by (simp add: take_exception_def t c exception_handler_def Let_def)
  with True k'(2) show ?thesis unfolding calls(2) by (auto simp: sends_def exception_handler_def Let_def)
qed (simp add: take_exception_def assms(3))

section \<open>Property\<close>

text \<open>
  C18. An exception after the start.  Let kernel_main reach its last hcf, started as for a boot that
  succeeds: a loader that speaks the revision, a usable frame buffer, an offset of the direct map, a
  well-formed memory map with room for the bitmap, and a serial port that works.  On the machine
  it leaves behind each of the 32 exceptions is taken through its gate and handled: the processor is
  stopped with interrupts off, the allocator is untouched, the log is in its invariant, and the
  serial port gets the line of the exception (two lines for the vectors 12 and 20, whose cases
  fall through).  No other vector is taken.
\<close>

theorem exception_reported:
  assumes "env_ok env" "LIMINE_BASE_REVISION_SUPPORTED bi" "k_subscribers (m_kernel m0) = ulog_init"
    and "framebuffer_response bi = Some fb" "framebuffer_count fb \<noteq> 0" "fb_usable (hd (framebuffers fb)) (u_vga16 im)"
    and "hhdm_response bi = Some h" "boot_ok (memmap_entries bi) (hhdm_initialize (Some h) (m_pmm m0))"
    and "length (idt (m_idt m0)) = 256" "length (vectors (m_idt m0)) = 32"
    and "kernel_main env cpuid im bi m0 = Inr m"
  shows "if v < 32
    then \<exists>m' q. take_exception env im v f r (x # stack) m = Some (Inr m') \<and>
      halted (idt_cpu (m_idt m')) \<and> \<not> interrupts (idt_cpu (m_idt m')) \<and> m_pmm m' = m_pmm m \<and> logging (m_kernel m') \<and>
      io (k_serial (m_kernel m')) = io (k_serial (m_kernel m)) @ q \<and>
      written SERIAL_COM1 q = concat (map (\<lambda>msg. log_line ULOG_CRITICAL_LEVEL (bytes_of msg)) (exception_messages (of_nat v)))
    else take_exception env im v f r (x # stack) m = None"
proof -
  from kernel_boots [OF assms(1-10), of cpuid] assms(11) have "logging (m_kernel m)"
    and "interrupt_target m = (\<lambda>v. if v < 32 then Some (isr_stub_table im (of_nat v)) else None)"
    by auto
  then show ?thesis by (rule taken_exception [OF assms(1)])
qed

theorem exception_reported_witness:
  "\<exists>m m' q. kernel_main (tiny_env busy_once) (\<lambda>leaf. (0, 0, 0, 0)) tiny_image tiny_boot tiny_machine = Inr m \<and>
     take_exception (tiny_env busy_once) tiny_image 14 \<lparr>f_error = 2, f_rip = 0x1000, f_cs = 8, f_flags = 0x202, f_rsp = 0x8000, f_ss = 0x10\<rparr>
       \<lparr>rax = 1, rbx = 2, r14 = 3, r15 = 4\<rparr> [0] m = Some (Inr m') \<and>
     io (k_serial (m_kernel m')) = io (k_serial (m_kernel m)) @ q \<and>
     written SERIAL_COM1 q = bytes_of ''[CRITICAL]: Critical, Interrupt: Page Fault.\<newline>''"
proof -
  let ?fb = "\<lparr>fbr_revision = 0, framebuffer_count = 1, framebuffers = [tiny_fb]\<rparr>"
  let ?h = "\<lparr>hhdm_revision = 0, hhdm_offset = 0xffff800000000000\<rparr>"
  have start: "LIMINE_BASE_REVISION_SUPPORTED tiny_boot" "k_subscribers (m_kernel tiny_machine) = ulog_init"
      "framebuffer_response tiny_boot = Some ?fb" "framebuffer_count ?fb \<noteq> 0" "fb_usable (hd (framebuffers ?fb)) (u_vga16 tiny_image)"
      "hhdm_response tiny_boot = Some ?h" "boot_ok (memmap_entries tiny_boot) (hhdm_initialize (Some ?h) (m_pmm tiny_machine))"
      "length (idt (m_idt tiny_machine)) = 256" "length (vectors (m_idt tiny_machine)) = 32"
    using tiny_fb_usable tiny_boot_ok
    by (simp_all add: tiny_boot_def tiny_machine_def tiny_image_def LIMINE_BASE_REVISION_SUPPORTED_def tiny_idt_def)
  obtain m where m: "kernel_main (tiny_env busy_once) (\<lambda>leaf. (0, 0, 0, 0)) tiny_image tiny_boot tiny_machine = Inr m"
    using tiny_machine_boots by blast
  have "log_line ULOG_CRITICAL_LEVEL (bytes_of ''Critical, Interrupt: Page Fault.'') =
      bytes_of ''[CRITICAL]: Critical, Interrupt: Page Fault.\<newline>''"
    by code_simp
  then have "concat (map (\<lambda>msg. log_line ULOG_CRITICAL_LEVEL (bytes_of msg)) (exception_messages (of_nat 14))) =
      bytes_of ''[CRITICAL]: Critical, Interrupt: Page Fault.\<newline>''"
    by (simp add: exception_messages_def)
  with exception_reported [OF tiny_env_ok start m, of 14
      "\<lparr>f_error = 2, f_rip = 0x1000, f_cs = 8, f_flags = 0x202, f_rsp = 0x8000, f_ss = 0x10\<rparr>"
      "\<lparr>rax = 1, rbx = 2, r14 = 3, r15 = 4\<rparr>" 0 "[]"] m
  show ?thesis by auto
qed

end
