(* ===== verification/Apic.thy ===== *)
theory Apic
  imports Cpudet_Text Mem_Words Port_Io
begin

text \<open>
  The local interrupt controller and the old one it replaces (kernel/arch/x86_64/cpu/apic.c,
  kernel/include/kernel/cpu/apic.h).  Machine-specific registers are a function from their
  number to 64 bits, of which rdmsr and wrmsr pass the halves in eax and edx.  The code is
  compiled in, but the kernel does not call apic_initialize yet.
\<close>

section \<open>State\<close>

definition PIC_MASTER :: u16 where [simp]: "PIC_MASTER = 0x20"
definition PIC_SLAVE :: u16 where [simp]: "PIC_SLAVE = 0xA0"
definition PIC_MASTER_COMMAND :: u16 where [simp]: "PIC_MASTER_COMMAND = PIC_MASTER"
definition PIC_MASTER_DATA :: u16 where [simp]: "PIC_MASTER_DATA = PIC_MASTER + 1"
definition PIC_SLAVE_COMMAND :: u16 where [simp]: "PIC_SLAVE_COMMAND = PIC_SLAVE"
definition PIC_SLAVE_DATA :: u16 where [simp]: "PIC_SLAVE_DATA = PIC_SLAVE + 1"
definition PIC_ICW1 :: u8 where [simp]: "PIC_ICW1 = 0x11"
definition PIC_ICW2_MASTER :: u8 where [simp]: "PIC_ICW2_MASTER = 0x20"
definition PIC_ICW2_SLAVE :: u8 where [simp]: "PIC_ICW2_SLAVE = 0x28"
definition PIC_ICW3_MASTER :: u8 where [simp]: "PIC_ICW3_MASTER = 0x2"
definition PIC_ICW3_SLAVE :: u8 where [simp]: "PIC_ICW3_SLAVE = 0x4"
definition PIC_ICW4 :: u8 where [simp]: "PIC_ICW4 = 0x01"
definition IA32_APIC_BASE_MSR :: u32 where [simp]: "IA32_APIC_BASE_MSR = 0x1B"
definition IA32_APIC_BASE_MSR_ENABLE :: u32 where [simp]: "IA32_APIC_BASE_MSR_ENABLE = 0x800"

record apic =
  ap_msr :: "u32 \<Rightarrow> u64"
  ap_io :: "io_event list"
  ap_mem :: mem
  apic_base :: u64
  ap_hhdm_offset :: u64
  ap_console :: "console_call list"

section \<open>Machine-specific registers\<close>

definition cpu_get_msr :: "u32 \<Rightarrow> (u32 \<Rightarrow> u64) \<Rightarrow> u32 \<times> u32" where
  "cpu_get_msr msr regs = (ucast (regs msr), ucast (drop_bit 32 (regs msr)))"

definition cpu_set_msr :: "u32 \<Rightarrow> u32 \<Rightarrow> u32 \<Rightarrow> (u32 \<Rightarrow> u64) \<Rightarrow> u32 \<Rightarrow> u64" where
  "cpu_set_msr msr lo hi regs = regs(msr := ucast lo OR push_bit 32 (ucast hi))"

definition x86_64_msr_read :: "u64 \<Rightarrow> (u32 \<Rightarrow> u64) \<Rightarrow> u64" where
  "x86_64_msr_read msr regs =
     (let low = (ucast (regs (ucast msr)) :: u32); high = (ucast (drop_bit 32 (regs (ucast msr))) :: u32)
      in ucast low + push_bit 32 (ucast high))"

definition x86_64_msr_write :: "u64 \<Rightarrow> u64 \<Rightarrow> (u32 \<Rightarrow> u64) \<Rightarrow> u32 \<Rightarrow> u64" where
  "x86_64_msr_write msr v regs =
     (let eax = (ucast v :: u32); edx = (ucast (drop_bit 32 v) :: u32)
      in regs(ucast msr := ucast eax OR push_bit 32 (ucast edx)))"

definition cpu_set_apic_base :: "u64 \<Rightarrow> (u32 \<Rightarrow> u64) \<Rightarrow> u32 \<Rightarrow> u64" where
  "cpu_set_apic_base apic regs =
     (let edx = 0; eax = ucast (apic AND 0xfffff0000 OR ucast IA32_APIC_BASE_MSR_ENABLE)
      in cpu_set_msr IA32_APIC_BASE_MSR eax edx regs)"

text \<open>Without __PHYSICAL_MEMORY_EXTENSION__, which no build file defines.\<close>

definition cpu_get_apic_base :: "(u32 \<Rightarrow> u64) \<Rightarrow> u64" where
  "cpu_get_apic_base regs = (let (eax, edx) = cpu_get_msr IA32_APIC_BASE_MSR regs in ucast (eax AND 0xfffff000))"

section \<open>Registers in memory\<close>

definition lapic_read :: "u32 \<Rightarrow> apic \<Rightarrow> u32" where
  "lapic_read offset s = load32 (ap_mem s) (ap_hhdm_offset s + apic_base s + ucast offset)"

definition lapic_write :: "u32 \<Rightarrow> u32 \<Rightarrow> apic \<Rightarrow> apic" where
  "lapic_write offset v s = s\<lparr>ap_mem := store32 (ap_mem s) (ap_hhdm_offset s + apic_base s + ucast offset) v\<rparr>"

section \<open>Initialisation\<close>

definition pic_disable :: "io_event list \<Rightarrow> io_event list" where
  "pic_disable p =
     (let p = outb PIC_MASTER_COMMAND PIC_ICW1 p; p = outb PIC_SLAVE_COMMAND PIC_ICW1 p;
          p = outb PIC_MASTER_DATA PIC_ICW2_MASTER p; p = outb PIC_SLAVE_DATA PIC_ICW2_SLAVE p;
          p = outb PIC_MASTER_DATA PIC_ICW3_MASTER p; p = outb PIC_SLAVE_DATA PIC_ICW3_SLAVE p;
          p = outb PIC_MASTER_DATA PIC_ICW4 p; p = outb PIC_SLAVE_DATA PIC_ICW4 p;
          p = outb PIC_MASTER_DATA 0xFF p
      in outb PIC_SLAVE_DATA 0xFF p)"

definition apic_initialize :: "cpuid \<Rightarrow> apic \<Rightarrow> apic" where
  "apic_initialize cpuid s =
     (if check_apic cpuid = 0 then s\<lparr>ap_console := ap_console s @ [ULOG_CRITICAL ''Critical, APIC Not Detected.'' []]\<rparr>
      else if check_msr cpuid = 0 then s\<lparr>ap_console := ap_console s @ [ULOG_CRITICAL ''Critical, MSR Not Detected.'' []]\<rparr>
      else
        let s1 = s\<lparr>ap_console := ap_console s @ [ULOG_INFO ''Success, APIC & MSR Detected.'' []], ap_io := pic_disable (ap_io s)\<rparr>;
            s2 = s1\<lparr>ap_console := ap_console s1 @ [ULOG_INFO ''8259 PIC Disabled.'' []], apic_base := cpu_get_apic_base (ap_msr s1)\<rparr>;
            s3 = s2\<lparr>ap_msr := cpu_set_apic_base (apic_base s2) (ap_msr s2)\<rparr>;
            s4 = s3\<lparr>ap_console := ap_console s3 @
                     [ULOG_INFO ''APIC Base address: %x'' [Word (apic_base s3 - ap_hhdm_offset s3)],
                      ULOG_INFO ''Higher half offset at: %x'' [Word (ap_hhdm_offset s3)]]\<rparr>
        in s4\<lparr>ap_mem := store32 (ap_mem s4) (ap_hhdm_offset s4 + apic_base s4 + 0x0F0) 0xFF\<rparr>)"

section \<open>The interrupt controllers\<close>

text \<open>
  An 8259 as its data sheet has it: a command with bit 4 set starts the initialisation, whose
  next three data words are the vector offset, the wiring of the cascade and the mode; data
  written at any other time is the mask of the lines.
\<close>

record pic8259 =
  pic_next :: nat
  pic_offset :: u8
  pic_cascade :: u8
  pic_mode :: u8
  pic_mask :: u8

definition pic_command :: "u8 \<Rightarrow> pic8259 \<Rightarrow> pic8259" where
  "pic_command v s = (if bit v 4 then s\<lparr>pic_next := 1, pic_mask := 0\<rparr> else s)"

definition pic_data :: "u8 \<Rightarrow> pic8259 \<Rightarrow> pic8259" where
  "pic_data v s =
     (if pic_next s = 1 then s\<lparr>pic_next := 2, pic_offset := v AND 0xF8\<rparr>
      else if pic_next s = 2 then s\<lparr>pic_next := 3, pic_cascade := v\<rparr>
      else if pic_next s = 3 then s\<lparr>pic_next := 0, pic_mode := v\<rparr>
      else s\<lparr>pic_mask := v\<rparr>)"

fun pic_run :: "u16 \<Rightarrow> io_event list \<Rightarrow> pic8259 \<Rightarrow> pic8259" where
  "pic_run base [] s = s"
| "pic_run base (Out port v # es) s =
     pic_run base es (if port = base then pic_command v s else if port = base + 1 then pic_data v s else s)"
| "pic_run base (In port v # es) s = pic_run base es s"

lemma pic_disable_run:
  "\<exists>q. pic_disable p = p @ q \<and>
     pic_run PIC_MASTER q m = \<lparr>pic_next = 0, pic_offset = 0x20, pic_cascade = 2, pic_mode = 1, pic_mask = 0xFF\<rparr> \<and>
     pic_run PIC_SLAVE q m' = \<lparr>pic_next = 0, pic_offset = 0x28, pic_cascade = 4, pic_mode = 1, pic_mask = 0xFF\<rparr>"
  by (simp add: pic_disable_def outb_def Let_def pic_command_def pic_data_def)

section \<open>The base address\<close>

lemma apic_masks:
  "(0xfffff0000 :: u64) = push_bit 16 (mask 20)" "(0xfffff000 :: u32) = push_bit 12 (mask 20)"
  "(0xFFFF0000 :: u64) = push_bit 16 (mask 16)" "(0xFFFFF000 :: u64) = push_bit 12 (mask 20)" "(0x800 :: u32) = push_bit 11 1"
  "(0x800 :: u64) = push_bit 11 1"
  by (simp_all add: mask_eq_exp_minus_1)

lemmas bit_words = bit_fields bit_1_iff

lemma get_apic_base: "cpu_get_apic_base regs = regs 0x1B AND 0xFFFFF000"
  unfolding cpu_get_apic_base_def cpu_get_msr_def Let_def prod.case IA32_APIC_BASE_MSR_def apic_masks
  by (rule bit_word_eqI) (auto simp: bit_words)

lemma set_apic_base: "cpu_set_apic_base base regs = regs(0x1B := (base AND 0xFFFF0000) OR 0x800)"
proof -
  have m: "(0xFFFFFFFF :: u64) = mask 32" by (simp add: mask_eq_exp_minus_1)
  have cut: "ucast (ucast x :: u32) = x AND 0xFFFFFFFF" for x :: u64
    unfolding m by (rule bit_word_eqI) (auto simp: bit_words)
  have "(base AND 0xfffff0000 OR 0x800) AND 0xFFFFFFFF = (base AND (0xfffff0000 AND 0xFFFFFFFF)) OR (0x800 AND 0xFFFFFFFF)"
    by (simp only: bit.conj_disj_distrib2 and.assoc)
  then have "ucast (ucast (base AND 0xfffff0000 OR ucast (0x800 :: u32)) :: u32) OR push_bit 32 (ucast (0 :: u32)) = (base AND 0xFFFF0000) OR 0x800"
    by (simp add: cut)
  then show ?thesis by (simp add: cpu_set_apic_base_def cpu_set_msr_def Let_def)
qed

section \<open>Properties\<close>

text \<open>
  C30. apic_initialize.  Without a local controller or without machine-specific registers it only
  reports.  Otherwise both 8259s end initialised, with the vector offsets 0x20 and 0x28 and every
  line masked, but with their cascade words exchanged (the master is told that its slave is on
  line 1, the slave that it is on line 4); the base register keeps only the bits 16 to 31 of the
  address, so that an address that is not a multiple of 64 KiB is moved while the code goes on
  using the old one, and loses every flag but the enable bit; the spurious vector register gets
  vector 0xFF without the bit that switches the controller on, bit 8.
\<close>

theorem apic_initialize_effect:
  fixes s :: apic
  defines "base \<equiv> ap_msr s 0x1B AND 0xFFFFF000"
  shows "let s' = apic_initialize cpuid s in
    if bit (snd (snd (snd (cpuid 1)))) 9 \<and> bit (snd (snd (snd (cpuid 1)))) 5 then
      (\<exists>q. ap_io s' = ap_io s @ q \<and>
        pic_run PIC_MASTER q m = \<lparr>pic_next = 0, pic_offset = 0x20, pic_cascade = 2, pic_mode = 1, pic_mask = 0xFF\<rparr> \<and>
        pic_run PIC_SLAVE q m' = \<lparr>pic_next = 0, pic_offset = 0x28, pic_cascade = 4, pic_mode = 1, pic_mask = 0xFF\<rparr>) \<and>
      apic_base s' = base \<and>
      ap_msr s' = (ap_msr s)(0x1B := (base AND 0xFFFF0000) OR 0x800) \<and>
      lapic_read 0xF0 s' = 0xFF \<and> \<not> bit (lapic_read 0xF0 s') 8
    else \<exists>msg. s' = s\<lparr>ap_console := ap_console s @ [ULOG_CRITICAL msg []]\<rparr>"
proof -
  have a: "ucast (0xF0 :: u32) = (0xF0 :: u64)" by simp
  show ?thesis
  proof (cases "bit (snd (snd (snd (cpuid 1)))) 9 \<and> bit (snd (snd (snd (cpuid 1)))) 5")
    case True
    then have c: "check_apic cpuid \<noteq> 0" "check_msr cpuid \<noteq> 0" by (simp_all add: check_bits)
    let ?s' = "apic_initialize cpuid s"
    have "ap_io ?s' = pic_disable (ap_io s)" "apic_base ?s' = base" "ap_hhdm_offset ?s' = ap_hhdm_offset s"
      "ap_msr ?s' = (ap_msr s)(0x1B := (base AND 0xFFFF0000) OR 0x800)"
      "ap_mem ?s' = store32 (ap_mem s) (ap_hhdm_offset s + base + 0xF0) 0xFF"
      using c by (simp_all add: apic_initialize_def Let_def get_apic_base set_apic_base base_def)
    moreover from this have "lapic_read 0xF0 ?s' = 0xFF" by (simp add: lapic_read_def)
    ultimately show ?thesis using True pic_disable_run [of "ap_io s" m m'] by (simp add: Let_def)
  next
    case False
    then have c: "check_apic cpuid = 0 \<or> check_msr cpuid = 0" using check_bits by blast
    then show ?thesis using False by (auto simp: Let_def apic_initialize_def)
  qed
qed

text \<open>The 64-bit accessors of the registers agree.\<close>

lemma msr_read_write: "x86_64_msr_read msr (x86_64_msr_write msr v regs) = v"
proof -
  have d: "ucast (ucast v :: u32) + push_bit 32 (ucast (ucast (drop_bit 32 v) :: u32)) =
      (ucast (ucast v :: u32) OR push_bit 32 (ucast (ucast (drop_bit 32 v) :: u32)) :: u64)"
    by (rule disjunctive_add) (auto simp: bit_words)
  have j: "(ucast (ucast v :: u32) OR push_bit 32 (ucast (ucast (drop_bit 32 v) :: u32)) :: u64) = v"
    by (rule bit_word_eqI) (auto simp: bit_words)
  show ?thesis by (simp add: x86_64_msr_read_def x86_64_msr_write_def Let_def j d)
qed

end
