(* ===== verification/Itoa.thy ===== *)
theory Itoa
  imports Mem_Words Printf_Core "HOL-Library.Signed_Division"
begin

text \<open>
  libc/stdlib/itoa.c: reverse and itoa.  Values and bases are two's complement words; / and %
  truncate towards zero.  The digit loop does not end for the bases 1 and -1 and is a partial
  function; a division that the processor cannot do (by zero, or the least value by -1) is
  \<open>Div_By_Zero\<close>, and the negation of the least value wraps, as the target's does.
\<close>

section \<open>Operations\<close>

function reverse_loop :: "mem \<Rightarrow> u64 \<Rightarrow> int \<Rightarrow> int \<Rightarrow> mem" where
  "reverse_loop m str start stop =
     (if start < stop
      then reverse_loop (m(str + of_int start := m (str + of_int stop), str + of_int stop := m (str + of_int start)))
             str (start + 1) (stop - 1)
      else m)"
  by pat_completeness auto
termination by (relation "measure (\<lambda>(m, str, start, stop). nat (stop - start))") auto

declare reverse_loop.simps [simp del]

definition reverse :: "mem \<Rightarrow> u64 \<Rightarrow> int \<Rightarrow> mem" where
  "reverse m str len = reverse_loop m str 0 (len - 1)"

partial_function (option) itoa_loop :: "int \<Rightarrow> int \<Rightarrow> nat \<Rightarrow> u64 \<Rightarrow> mem \<Rightarrow> (nat \<times> mem) outcome option" where
  "itoa_loop value base i str m =
     (if value = 0 then Some (Inr (i, m))
      else if base = 0 \<or> value = - (2 ^ 63) \<and> base = - 1 then Some (Inl Div_By_Zero)
      else
        let rem = value smod base;
            c = (if rem > 9 then (rem - 10) + 0x61 else rem + 0x30)
        in itoa_loop (value sdiv base) base (Suc i) str (m(str + of_nat i := of_int c)))"

definition itoa :: "u64 \<Rightarrow> u64 \<Rightarrow> u32 \<Rightarrow> mem \<Rightarrow> (u64 \<times> mem) outcome" where
  "itoa value str base m =
     (let (i0, m0) = (if value = 0 then (1, m(str := 0x30, str + 1 := 0)) else (0, m));
          isNegative = (sint value < 0 \<and> base = 10);
          value' = (if isNegative then - value else value)
      in case itoa_loop (sint value') (sint base) i0 str m0 of
           None \<Rightarrow> Inl Diverges
         | Some (Inl e) \<Rightarrow> Inl e
         | Some (Inr (i, m1)) \<Rightarrow>
             let (i, m2) = (if isNegative then (Suc i, m1(str + of_nat i := 0x2D)) else (i, m1));
                 m3 = m2(str + of_nat i := 0)
             in Inr (str, reverse m3 str (int i)))"

section \<open>Memory that holds a byte string\<close>

definition with_bytes :: "mem \<Rightarrow> u64 \<Rightarrow> u8 list \<Rightarrow> mem" where
  "with_bytes m a bs x = (if unat (x - a) < length bs then bs ! unat (x - a) else m x)"

lemma with_bytes_Nil [simp]: "with_bytes m a [] = m"
  by (simp add: with_bytes_def fun_eq_iff)

lemma with_bytes_at:
  "i < length bs \<Longrightarrow> length bs < 18446744073709551616 \<Longrightarrow> with_bytes m a bs (a + of_nat i) = bs ! i"
  by (simp add: with_bytes_def)

lemma with_bytes_update:
  assumes "i < length bs" "length bs < 18446744073709551616"
  shows "(with_bytes m a bs)(a + of_nat i := c) = with_bytes m a (bs[i := c])"
proof
  fix x
  have "x = a + of_nat i \<longleftrightarrow> unat (x - a) = i" using assms by (intro add_offset_eq_iff) simp
  then show "((with_bytes m a bs)(a + of_nat i := c)) x = with_bytes m a (bs[i := c]) x"
    using assms by (auto simp: with_bytes_def nth_list_update)
qed

lemma with_bytes_snoc:
  assumes "length bs < 18446744073709551616"
  shows "(with_bytes m a bs)(a + of_nat (length bs) := c) = with_bytes m a (bs @ [c])"
proof
  fix x
  have "x = a + of_nat (length bs) \<longleftrightarrow> unat (x - a) = length bs" by (rule add_offset_eq_iff [OF assms])
  then show "((with_bytes m a bs)(a + of_nat (length bs) := c)) x = with_bytes m a (bs @ [c]) x"
    by (auto simp: with_bytes_def nth_append less_Suc_eq)
qed

section \<open>Reversing\<close>

lemma reverse_loop_rev:
  "length (xs @ ys @ zs) < 18446744073709551616 \<Longrightarrow>
   reverse_loop (with_bytes m a (xs @ ys @ zs)) a (int (length xs)) (int (length xs + length ys) - 1) =
     with_bytes m a (xs @ rev ys @ zs)"
proof (induction "length ys" arbitrary: xs ys zs rule: less_induct)
  case less
  show ?case
  proof (cases "length ys < 2")
    case True
    then have "rev ys = ys" by (cases ys; cases "tl ys") auto
    with True show ?thesis by (subst reverse_loop.simps) simp
  next
    case False
    then obtain b bs where b: "ys = b # bs" "bs \<noteq> []" by (cases ys) auto
    then obtain mid e where "bs = mid @ [e]" by (cases bs rule: rev_cases) auto
    with b have ys: "ys = b # mid @ [e]" by simp
    let ?s = "length xs" and ?e = "length xs + length ys - 1"
    let ?t = "xs @ ys @ zs"
    have e: "int (length xs + length ys) - 1 = int ?e" by (simp add: ys)
    have lt: "?s < length ?t" "?e < length ?t" by (simp_all add: ys)
    have at: "?t ! ?s = b" "?t ! ?e = e" by (simp_all add: ys nth_append)
    have "?t[?s := e, ?e := b] = (xs @ [e]) @ mid @ ([b] @ zs)"
      by (simp add: ys list_update_append)
    then have swap: "(with_bytes m a ?t)(a + of_nat ?s := e, a + of_nat ?e := b) =
        with_bytes m a ((xs @ [e]) @ mid @ ([b] @ zs))"
      using less.prems lt by (simp add: with_bytes_update)
    let ?W = "with_bytes m a ?t"
    have W: "?W (a + of_nat ?s) = b" "?W (a + of_nat ?e) = e"
      using less.prems lt at by (simp_all only: with_bytes_at)
    have se: "int ?s < int ?e" by (simp add: ys)
    have "reverse_loop ?W a (int ?s) (int ?e) =
        reverse_loop (?W(a + of_nat ?s := e, a + of_nat ?e := b)) a (int ?s + 1) (int ?e - 1)"
      by (subst reverse_loop.simps) (simp only: se if_True of_int_of_nat_eq W)
    also have "\<dots> = reverse_loop (with_bytes m a ((xs @ [e]) @ mid @ ([b] @ zs))) a (int ?s + 1) (int ?e - 1)"
      by (simp only: swap)
    also have "\<dots> = with_bytes m a ((xs @ [e]) @ rev mid @ ([b] @ zs))"
      using less.hyps [of mid "xs @ [e]" "[b] @ zs"] less.prems by (simp add: ys ac_simps)
    finally show ?thesis unfolding e by (simp add: ys)
  qed
qed

lemma reverse_rev:
  "length (ys @ zs) < 18446744073709551616 \<Longrightarrow>
   reverse (with_bytes m a (ys @ zs)) a (int (length ys)) = with_bytes m a (rev ys @ zs)"
  using reverse_loop_rev [of "[]" ys zs m a] by (simp add: reverse_def)

section \<open>The digits\<close>

lemma digit_byte_0: "digit_byte 0 d = (if d < 10 then 0x30 + of_nat d else 0x61 + of_nat d - 10)"
  by (simp add: digit_byte_def)

lemma itoa_loop_step:
  assumes "value \<noteq> 0" "base \<noteq> 0" "value \<noteq> - (2 ^ 63) \<or> base \<noteq> - 1"
  shows "itoa_loop value base i str m = itoa_loop (value sdiv base) base (Suc i) str
    (m(str + of_nat i := of_int (if value smod base > 9 then (value smod base - 10) + 0x61 else value smod base + 0x30)))"
proof -
  have c: "\<not> (base = 0 \<or> value = - (2 ^ 63) \<and> base = - 1)" using assms(2,3) by blast
  show ?thesis by (subst itoa_loop.simps) (simp only: if_not_P [OF assms(1)] if_not_P [OF c] Let_def)
qed

lemma itoa_digit:
  assumes "2 \<le> base"
  shows "of_int (if int n smod int base > 9 then (int n smod int base - 10) + 0x61 else int n smod int base + 0x30) =
    digit_byte 0 (n mod base)"
proof -
  have "int n smod int base = int (n mod base)" by (simp add: smod_int_alt_def zmod_int sgn_if)
  then show ?thesis by (auto simp: digit_byte_0)
qed

lemma itoa_loop_digits:
  assumes "2 \<le> base"
  shows "0 < n \<Longrightarrow> length bs + length (digits_of base n) < 18446744073709551616 \<Longrightarrow>
    itoa_loop (int n) (int base) (length bs) str (with_bytes m str bs) =
      Some (Inr (length bs + length (digits_of base n), with_bytes m str (bs @ map (digit_byte 0) (digits_of base n))))"
proof (induction n arbitrary: bs rule: less_induct)
  case (less n)
  let ?d = "digit_byte 0 (n mod base)"
  have q: "int n sdiv int base = int (n div base)" by (simp add: signed_divide_int_def zdiv_int sgn_if)
  have step: "itoa_loop (int n) (int base) (length bs) str (with_bytes m str bs) =
      itoa_loop (int (n div base)) (int base) (length (bs @ [?d])) str (with_bytes m str (bs @ [?d]))"
    using less.prems assms
    by (subst itoa_loop_step) (simp_all only: itoa_digit [OF assms] q with_bytes_snoc, simp_all)
  show ?case
  proof (cases "n < base")
    case True
    then have "digits_of base n = [n]" by (subst digits_of.simps) simp
    with True show ?thesis unfolding step by (subst itoa_loop.simps) simp
  next
    case False
    have ds: "digits_of base n = n mod base # digits_of base (n div base)"
      using False assms by (subst digits_of.simps) simp
    have "0 < n div base" "n div base < n" using False assms less.prems by (simp_all add: div_greater_zero_iff)
    then have "itoa_loop (int (n div base)) (int base) (length (bs @ [?d])) str (with_bytes m str (bs @ [?d])) =
      Some (Inr (length (bs @ [?d]) + length (digits_of base (n div base)),
        with_bytes m str ((bs @ [?d]) @ map (digit_byte 0) (digits_of base (n div base)))))"
      using less.prems by (intro less.IH) (simp_all add: ds)
    then show ?thesis unfolding step ds by simp
  qed
qed

lemma digits_of_short: "2 \<le> b \<Longrightarrow> n < 2 ^ 64 \<Longrightarrow> length (digits_of b n) \<le> 64"
  using digits_of_u64_le [of b "of_nat n"] by simp

lemma itoa_finish:
  assumes "length ds < 18446744073709551600" "length s \<le> 1"
  shows "reverse ((with_bytes m str (ds @ s))(str + of_nat (length (ds @ s)) := 0)) str (int (length (ds @ s))) =
    with_bytes m str (rev s @ rev ds @ [0])"
proof -
  have "(with_bytes m str (ds @ s))(str + of_nat (length (ds @ s)) := 0) = with_bytes m str ((ds @ s) @ [0])"
    using assms by (intro with_bytes_snoc) simp
  moreover have "reverse (with_bytes m str ((ds @ s) @ [0])) str (int (length (ds @ s))) = with_bytes m str (rev (ds @ s) @ [0])"
    using assms by (intro reverse_rev) simp
  ultimately show ?thesis by simp
qed

lemma itoa_zero: "itoa 0 str base m = Inr (str, with_bytes m str [0x30, 0])"
proof -
  have m: "m(str := 0x30, str + 1 := 0) = with_bytes m str [0x30, 0]"
    using with_bytes_snoc [of "[]" m str "0x30"] with_bytes_snoc [of "[0x30]" m str 0] by simp
  have r: "reverse (with_bytes m str [0x30, 0]) str 1 = with_bytes m str [0x30, 0]"
    using reverse_rev [of "[0x30]" "[0]" m str] by simp
  have u: "(with_bytes m str [0x30, 0])(str + 1 := 0) = with_bytes m str [0x30, 0]"
    using with_bytes_update [of 1 "[0x30, 0]" m str 0] by simp
  show ?thesis by (simp add: itoa_def itoa_loop.simps m u r)
qed

text \<open>What itoa does after its digit loop.\<close>

lemma itoa_signed:
  fixes ds :: "u8 list"
  assumes "value \<noteq> 0" "(sint value < 0 \<and> base = 10) \<longleftrightarrow> sint value < 0"
    and "itoa_loop (sint (if sint value < 0 then - value else value)) (sint base) 0 str m =
      Some (Inr (length ds, with_bytes m str ds))"
    and "length ds < 18446744073709551600"
  defines "s \<equiv> if sint value < 0 then [0x2D] else []"
  shows "itoa value str base m =
    Inr (str, reverse ((with_bytes m str (ds @ s))(str + of_nat (length (ds @ s)) := 0)) str (int (length (ds @ s))))"
proof (cases "sint value < 0")
  case True
  have w: "(with_bytes m str ds)(str + of_nat (length ds) := 0x2D) = with_bytes m str (ds @ [0x2D])"
    using assms(4) by (intro with_bytes_snoc) simp
  from True assms(1-3) show ?thesis by (simp add: itoa_def s_def w Let_def)
next
  case False
  with assms(1-3) show ?thesis by (simp add: itoa_def s_def Let_def)
qed

text \<open>
  C23. itoa writes the number in positional notation.  For a base of 2 or more and a value that is
  not negative, or any value but the least one in base 10, the buffer holds a minus sign for a
  negative value, the digits most significant first (the digits printf gives for the same number),
  and a NUL; no other byte of the memory changes and the buffer is returned.
\<close>

theorem itoa_numeral:
  assumes "2 \<le> sint base" "0 \<le> sint value \<or> base = 10" "value \<noteq> 0x8000000000000000"
  shows "itoa value str base m = Inr (str, with_bytes m str
    ((if sint value < 0 then [0x2D] else []) @ numeral_text 0 (nat (sint base)) (nat \<bar>sint value\<bar>) @ [0]))"
proof (cases "value = 0")
  case True
  have "numeral_text 0 (nat (sint base)) 0 = [0x30]"
    using assms(1) by (simp add: numeral_text_def digits_of.simps digit_byte_0)
  with True show ?thesis by (simp add: itoa_zero)
next
  case False
  let ?n = "nat \<bar>sint value\<bar>" and ?b = "nat (sint base)"
  let ?ds = "map (digit_byte 0) (digits_of ?b ?n)" and ?s = "if sint value < 0 then [0x2D] else [] :: u8 list"
  have nz: "sint value \<noteq> 0" using False by (metis signed_word_eqI signed_0)
  have neg: "(sint value < 0 \<and> base = 10) \<longleftrightarrow> sint value < 0" using assms(2) by auto
  have sv: "sint (if sint value < 0 then - value else value) = int ?n"
  proof (cases "sint value < 0")
    case True
    have "sint (0x8000000000000000 :: u64) = - (2 ^ 63)" by simp
    then have "sint value \<noteq> - (2 ^ 63)" using assms(3) by (metis signed_word_eqI)
    moreover have "- (2 ^ 63) \<le> sint value" using sint_ge [of "value"] by simp
    moreover have "sint (- value) = signed_take_bit 63 (- sint value)"
      using sint_sbintrunc' [of "- sint value", where 'a = 64] by simp
    ultimately have "sint (- value) = - sint value" using True by (simp add: signed_take_bit_int_eq_self)
    with True show ?thesis by simp
  qed simp
  have b: "2 \<le> ?b" "sint base = int ?b" using assms(1) by simp_all
  have len: "length (digits_of ?b ?n) \<le> 64"
    using b sint_ge [of "value"] sint_less [of "value"] by (intro digits_of_short) auto
  have loop: "itoa_loop (int ?n) (int ?b) 0 str m = Some (Inr (length ?ds, with_bytes m str ?ds))"
    using itoa_loop_digits [OF b(1), of ?n "[]" str m] nz len by simp
  have l: "itoa_loop (sint (if sint value < 0 then - value else value)) (sint base) 0 str m =
      Some (Inr (length ?ds, with_bytes m str ?ds))"
    unfolding sv using loop unfolding b(2) [symmetric] .
  have "itoa value str base m =
      Inr (str, reverse ((with_bytes m str (?ds @ ?s))(str + of_nat (length (?ds @ ?s)) := 0)) str (int (length (?ds @ ?s))))"
    using itoa_signed [OF False neg l] len by simp
  also have "\<dots> = Inr (str, with_bytes m str (rev ?s @ rev ?ds @ [0]))"
    using len by (subst itoa_finish) simp_all
  finally show ?thesis by (simp add: numeral_text_def rev_map)
qed

theorem itoa_numeral_witness:
  "itoa (- 42) 0x1000 10 (\<lambda>_. 0) = Inr (0x1000, with_bytes (\<lambda>_. 0) 0x1000 (bytes_of ''-42'' @ [0]))"
  using itoa_numeral [of 10 "- 42" "0x1000" "\<lambda>_. 0"]
  by (simp add: numeral_text_def digits_of.simps digit_byte_0 bytes_of_def of_char_def)

text \<open>
  A negative value in another base is not taken as unsigned: its digits are computed with their
  sign and land below the character 0.
\<close>

lemma itoa_negative_digit:
  assumes "2 \<le> sint base" "base \<noteq> 10" "- sint base < sint value" "sint value < 0"
    and that: "value_byte = of_int (sint value)"
  shows "itoa value str base m = Inr (str, with_bytes m str [0x30 + value_byte, 0])"
proof -
  have v: "sint value \<noteq> 0" "sint value \<noteq> - (2 ^ 63)" using assms sint_less [of base] by auto
  have d: "sint value sdiv sint base = 0" "sint value smod sint base = sint value"
    using assms by (simp_all add: signed_divide_int_def smod_int_alt_def sgn_if)
  have "itoa_loop (sint value) (sint base) 0 str m = Some (Inr (1, m(str := 0x30 + value_byte)))"
    using v assms by (subst itoa_loop_step) (simp_all add: d itoa_loop.simps that add.commute)
  moreover have "value \<noteq> 0" using v by auto
  moreover have "m(str := 0x30 + value_byte, str + 1 := 0) = with_bytes m str [0x30 + value_byte, 0]"
    using with_bytes_snoc [of "[]" m str "0x30 + value_byte"] with_bytes_snoc [of "[0x30 + value_byte]" m str 0] by simp
  moreover have "reverse (with_bytes m str [0x30 + value_byte, 0]) str 1 = with_bytes m str [0x30 + value_byte, 0]"
    using reverse_rev [of "[0x30 + value_byte]" "[0]" m str] by simp
  ultimately show ?thesis using assms(2) by (simp add: itoa_def)
qed

section \<open>Termination\<close>

lemma itoa_loop_returns:
  "2 \<le> \<bar>base\<bar> \<Longrightarrow> \<exists>r. itoa_loop value base i str m = Some (Inr r)"
proof (induction "nat \<bar>value\<bar>" arbitrary: "value" i m rule: less_induct)
  case less
  show ?case
  proof (cases "value = 0")
    case True
    then show ?thesis by (simp add: itoa_loop.simps)
  next
    case False
    have "\<bar>value sdiv base\<bar> = \<bar>value\<bar> div \<bar>base\<bar>"
      using less.prems False by (simp add: signed_divide_int_def abs_mult sgn_if pos_imp_zdiv_nonneg_iff)
    then have "nat \<bar>value sdiv base\<bar> < nat \<bar>value\<bar>" using less.prems False int_div_less_self [of "\<bar>value\<bar>" "\<bar>base\<bar>"] by simp
    from less.hyps [OF this less.prems] False less.prems show ?thesis by (subst itoa_loop_step) auto
  qed
qed

lemma itoa_loop_none:
  assumes "value \<noteq> 0" "base = 1 \<or> base = - 1 \<and> \<bar>value\<bar> < 2 ^ 63"
  shows "itoa_loop value base i str m = None"
proof -
  have "v = 0 \<or> \<not> (b = 1 \<or> b = - 1 \<and> \<bar>v\<bar> < 2 ^ 63)" if "itoa_loop v b i str m = Some r" for v b i str m r
  proof (rule itoa_loop.raw_induct [OF _ that], goal_cases)
    case (1 loop v b i str m r)
    show ?case
    proof (rule ccontr)
      assume "\<not> ?thesis"
      then have v: "v \<noteq> 0" "b = 1 \<or> b = - 1 \<and> \<bar>v\<bar> < 2 ^ 63" by auto
      then have c: "\<not> (b = 0 \<or> v = - (2 ^ 63) \<and> b = - 1)" by auto
      obtain i' str' m' where "loop (v sdiv b) b i' str' m' = Some r"
        using 1(2) unfolding if_not_P [OF v(1)] if_not_P [OF c] Let_def by blast
      from 1(1) [OF this] v show False by auto
    qed
  qed
  with assms show ?thesis by (metis not_None_eq)
qed

text \<open>
  C39. When itoa returns.  The digit loop of itoa ends unless the base is 1 or -1: it runs for ever
  for base 1 and a value that is not 0, and for base -1 and any other value but the least one
  (whose division by -1 faults); base 0 faults for a value that is not 0; in every other case
  itoa returns the buffer.
\<close>

theorem itoa_returns:
  "(if value = 0 \<or> 2 \<le> \<bar>sint base\<bar> then \<exists>m'. itoa value str base m = Inr (str, m')
    else if base = 0 \<or> base = - 1 \<and> value = 0x8000000000000000 then itoa value str base m = Inl Div_By_Zero
    else itoa value str base m = Inl Diverges)"
proof -
  let ?neg = "sint value < 0 \<and> base = 10"
  have small: "base = 0 \<or> base = 1 \<or> base = - 1" if "\<not> 2 \<le> \<bar>sint base\<bar>"
  proof -
    have "sint base = sint (0 :: u32) \<or> sint base = sint (1 :: u32) \<or> sint base = sint (- 1 :: u32)" using that by auto
    then show ?thesis by (metis signed_word_eqI)
  qed
  have least: "sint value = - (2 ^ 63) \<longleftrightarrow> value = 0x8000000000000000"
  proof -
    have "sint (0x8000000000000000 :: u64) = - (2 ^ 63)" by simp
    then show ?thesis by (metis signed_word_eqI)
  qed
  have range: "- (2 ^ 63) \<le> sint value" "sint value < 2 ^ 63" using sint_ge [of "value"] sint_less [of "value"] by simp_all
  consider "value = 0" | "value \<noteq> 0" "2 \<le> \<bar>sint base\<bar>" | "value \<noteq> 0" "base = 0 \<or> base = 1 \<or> base = - 1"
    using small by blast
  then show ?thesis
  proof cases
    case 1
    then show ?thesis by (simp add: itoa_zero)
  next
    case 2
    from itoa_loop_returns [OF 2(2)]
    have "\<exists>r. itoa_loop v (sint base) 0 str m = Some (Inr r)" for v .
    then obtain i m1 where "itoa_loop (sint (if ?neg then - value else value)) (sint base) 0 str m = Some (Inr (i, m1))"
      by fastforce
    with 2 show ?thesis by (simp add: itoa_def Let_def)
  next
    case 3
    have nz: "sint value \<noteq> 0" using 3(1) by (metis signed_word_eqI signed_0)
    have l: "itoa_loop (sint value) (sint base) 0 str m =
        (if base = 0 \<or> base = - 1 \<and> value = 0x8000000000000000 then Some (Inl Div_By_Zero) else None)"
    proof (cases "base = 0 \<or> base = - 1 \<and> value = 0x8000000000000000")
      case True
      then have "sint base = 0 \<or> sint value = - (2 ^ 63) \<and> sint base = - 1" using least by auto
      with True nz show ?thesis by (subst itoa_loop.simps) (simp only: if_True if_False)
    next
      case False
      then have "sint base = 1 \<or> sint base = - 1 \<and> \<bar>sint value\<bar> < 2 ^ 63" using 3(2) least range by auto
      from itoa_loop_none [OF nz this] False show ?thesis by simp
    qed
    moreover have "base \<noteq> 10" "\<not> 2 \<le> \<bar>sint base\<bar>" using 3(2) by auto
    ultimately show ?thesis using 3(1) by (auto simp: itoa_def)
  qed
qed

end
