(* ===== verification/Vga_Tty.thy ===== *)
theory Vga_Tty
  imports Mem_Words Port_Io
begin

text \<open>
  The terminal of the i386 kernel on the VGA text screen (kernel/arch/i386/tty.c, vga.h and the
  port constants of kernel/include/kernel/framebuffer/tty.h): 25 rows of 80 cells of two bytes
  at 0xB8000, and a hardware cursor behind two ports.  size_t and pointers have 32 bits here.
  The operations carry the prefix vga, where the code has terminal.
\<close>

section \<open>Characters and colours\<close>

datatype vga_color =
    VGA_COLOR_BLACK | VGA_COLOR_BLUE | VGA_COLOR_GREEN | VGA_COLOR_CYAN | VGA_COLOR_RED
  | VGA_COLOR_MAGENTA | VGA_COLOR_BROWN | VGA_COLOR_LIGHT_GREY | VGA_COLOR_DARK_GREY
  | VGA_COLOR_LIGHT_BLUE | VGA_COLOR_LIGHT_GREEN | VGA_COLOR_LIGHT_CYAN | VGA_COLOR_LIGHT_RED
  | VGA_COLOR_LIGHT_MAGENTA | VGA_COLOR_LIGHT_BROWN | VGA_COLOR_WHITE

primrec vga_color_code :: "vga_color \<Rightarrow> u8" where
  "vga_color_code VGA_COLOR_BLACK = 0"
| "vga_color_code VGA_COLOR_BLUE = 1"
| "vga_color_code VGA_COLOR_GREEN = 2"
| "vga_color_code VGA_COLOR_CYAN = 3"
| "vga_color_code VGA_COLOR_RED = 4"
| "vga_color_code VGA_COLOR_MAGENTA = 5"
| "vga_color_code VGA_COLOR_BROWN = 6"
| "vga_color_code VGA_COLOR_LIGHT_GREY = 7"
| "vga_color_code VGA_COLOR_DARK_GREY = 8"
| "vga_color_code VGA_COLOR_LIGHT_BLUE = 9"
| "vga_color_code VGA_COLOR_LIGHT_GREEN = 10"
| "vga_color_code VGA_COLOR_LIGHT_CYAN = 11"
| "vga_color_code VGA_COLOR_LIGHT_RED = 12"
| "vga_color_code VGA_COLOR_LIGHT_MAGENTA = 13"
| "vga_color_code VGA_COLOR_LIGHT_BROWN = 14"
| "vga_color_code VGA_COLOR_WHITE = 15"

definition vga_entry_color :: "vga_color \<Rightarrow> vga_color \<Rightarrow> u8" where
  "vga_entry_color fg bg = vga_color_code fg OR push_bit 4 (vga_color_code bg)"

definition vga_entry :: "u8 \<Rightarrow> u8 \<Rightarrow> u16" where
  "vga_entry uc color = ucast uc OR push_bit 8 (ucast color)"

section \<open>State\<close>

definition VGA_WIDTH :: u32 where [simp]: "VGA_WIDTH = 80"
definition VGA_HEIGHT :: u32 where [simp]: "VGA_HEIGHT = 25"
definition VGA_MEMORY :: u32 where [simp]: "VGA_MEMORY = 0xB8000"
definition TTY_COMMAND_PORT :: u16 where [simp]: "TTY_COMMAND_PORT = 0x3D4"
definition TTY_DATA_PORT :: u16 where [simp]: "TTY_DATA_PORT = 0x3D5"
definition TTY_HIGH_BYTE_COMMAND :: u8 where [simp]: "TTY_HIGH_BYTE_COMMAND = 0x0E"
definition TTY_LOW_BYTE_COMMAND :: u8 where [simp]: "TTY_LOW_BYTE_COMMAND = 0x0F"

record vga_tty =
  vga_mem :: mem
  terminal_row :: u32
  terminal_column :: u32
  terminal_color :: u8
  terminal_buffer :: u32
  vga_io :: "io_event list"

definition store16 :: "mem \<Rightarrow> u64 \<Rightarrow> u16 \<Rightarrow> mem" where
  "store16 m a v = store_le m a 2 (ucast v)"

definition load16 :: "mem \<Rightarrow> u64 \<Rightarrow> u16" where
  "load16 m a = ucast (load_le m a 2)"

text \<open>\<open>&terminal_buffer[index]\<close>\<close>

definition entry_addr :: "vga_tty \<Rightarrow> u32 \<Rightarrow> u64" where
  "entry_addr t index = ucast (terminal_buffer t + 2 * index)"

section \<open>Operations\<close>

definition vga_setcursor :: "u32 \<Rightarrow> u32 \<Rightarrow> vga_tty \<Rightarrow> vga_tty" where
  "vga_setcursor x y t =
     (let index = ucast (y * VGA_WIDTH + x) :: u16;
          p = outb TTY_COMMAND_PORT TTY_LOW_BYTE_COMMAND (vga_io t);
          p = outb TTY_DATA_PORT (ucast (index AND 0xFF)) p;
          p = outb TTY_COMMAND_PORT TTY_HIGH_BYTE_COMMAND p;
          p = outb TTY_DATA_PORT (ucast (drop_bit 8 index AND 0xFF)) p
      in t\<lparr>vga_io := p\<rparr>)"

definition vga_getcursor :: "device \<Rightarrow> vga_tty \<Rightarrow> u16 \<times> vga_tty" where
  "vga_getcursor dev t =
     (let p = outb TTY_COMMAND_PORT TTY_LOW_BYTE_COMMAND (vga_io t);
          (lo, p) = inb dev TTY_DATA_PORT p;
          pos = 0 OR ucast lo;
          p = outb TTY_COMMAND_PORT TTY_HIGH_BYTE_COMMAND p;
          (hi, p) = inb dev TTY_DATA_PORT p;
          pos = pos OR push_bit 8 (ucast hi)
      in (pos, t\<lparr>vga_io := p\<rparr>))"

definition vga_putentryat :: "u8 \<Rightarrow> u8 \<Rightarrow> u32 \<Rightarrow> u32 \<Rightarrow> vga_tty \<Rightarrow> vga_tty" where
  "vga_putentryat c color x y t =
     (let index = y * VGA_WIDTH + x
      in t\<lparr>vga_mem := store16 (vga_mem t) (entry_addr t index) (vga_entry c color)\<rparr>)"

function vga_blank_row :: "nat \<Rightarrow> nat \<Rightarrow> vga_tty \<Rightarrow> vga_tty" where
  "vga_blank_row y x t =
     (if x < unat VGA_WIDTH then
        let index = of_nat y * VGA_WIDTH + of_nat x
        in vga_blank_row y (Suc x)
             (t\<lparr>vga_mem := store16 (vga_mem t) (entry_addr t index) (vga_entry 0x20 (terminal_color t))\<rparr>)
      else t)"
  by pat_completeness auto
termination by (relation "measure (\<lambda>(y, x, t). unat VGA_WIDTH - x)") auto

declare vga_blank_row.simps [simp del]

function vga_blank_rows :: "nat \<Rightarrow> vga_tty \<Rightarrow> vga_tty" where
  "vga_blank_rows y t = (if y < unat VGA_HEIGHT then vga_blank_rows (Suc y) (vga_blank_row y 0 t) else t)"
  by pat_completeness auto
termination by (relation "measure (\<lambda>(y, t). unat VGA_HEIGHT - y)") auto

declare vga_blank_rows.simps [simp del]

definition vga_initialize :: "vga_tty \<Rightarrow> vga_tty" where
  "vga_initialize t =
     vga_blank_rows 0 (t\<lparr>terminal_row := 0, terminal_column := 0,
       terminal_color := vga_entry_color VGA_COLOR_LIGHT_GREY VGA_COLOR_BLACK, terminal_buffer := VGA_MEMORY\<rparr>)"

definition vga_setcolor :: "u8 \<Rightarrow> vga_tty \<Rightarrow> vga_tty" where
  "vga_setcolor color t = t\<lparr>terminal_color := color\<rparr>"

function vga_clear_last :: "nat \<Rightarrow> vga_tty \<Rightarrow> vga_tty" where
  "vga_clear_last x t =
     (if x < unat (VGA_WIDTH - 1) then
        vga_clear_last (Suc x)
          (vga_putentryat 0x20 (vga_entry_color VGA_COLOR_BLACK VGA_COLOR_BLACK) (of_nat x) (VGA_HEIGHT - 1) t)
      else t)"
  by pat_completeness auto
termination by (relation "measure (\<lambda>(x, t). unat (VGA_WIDTH - 1) - x)") auto

declare vga_clear_last.simps [simp del]

definition vga_scroll :: "vga_tty \<Rightarrow> vga_tty" where
  "vga_scroll t =
     (let t1 = t\<lparr>vga_mem := memmove (vga_mem t) (ucast (terminal_buffer t)) (entry_addr t (2 * VGA_WIDTH))
                              (ucast (VGA_WIDTH * (VGA_HEIGHT - 1) * 2))\<rparr>;
          t2 = vga_clear_last 0 t1;
          t3 = t2\<lparr>terminal_row := VGA_HEIGHT - 1, terminal_column := 0\<rparr>
      in vga_setcursor (terminal_column t3) (terminal_row t3) t3)"

definition vga_putchar :: "u8 \<Rightarrow> vga_tty \<Rightarrow> vga_tty" where
  "vga_putchar c t =
     (let t1 =
        (if c = 0x0A then
           let s = t\<lparr>terminal_column := 0, terminal_row := terminal_row t + 1\<rparr>;
               s = vga_putentryat 0x20 (terminal_color s) (terminal_column s) (terminal_row s) s
           in vga_setcursor (terminal_column s) (terminal_row s) s
         else
           let s = vga_putentryat c (terminal_color t) (terminal_column t) (terminal_row t) t;
               s = vga_setcursor (terminal_column s + 1) (terminal_row s) s;
               s = s\<lparr>terminal_column := terminal_column s + 1\<rparr>
           in if terminal_column s = VGA_WIDTH then
                let s = s\<lparr>terminal_column := 0, terminal_row := terminal_row s + 1\<rparr>
                in if terminal_row s = VGA_HEIGHT then s\<lparr>terminal_row := 0\<rparr> else s
              else s);
          t2 = (if terminal_row t1 \<ge> VGA_HEIGHT then vga_scroll t1 else t1)
      in vga_setcursor (terminal_column t2) (terminal_row t2) t2)"

definition vga_write :: "u8 list \<Rightarrow> vga_tty \<Rightarrow> vga_tty" where
  "vga_write data t = fold vga_putchar data t"

text \<open>The string at a pointer, which lies outside the screen; None when no NUL ends it.\<close>

definition vga_writestring :: "device \<Rightarrow> u64 \<Rightarrow> vga_tty \<Rightarrow> vga_tty option" where
  "vga_writestring dev data t =
     (let (pos, t1) = vga_getcursor dev t;
          t2 = t1\<lparr>terminal_row := ucast pos div VGA_WIDTH, terminal_column := ucast pos mod VGA_WIDTH\<rparr>
      in case strlen (vga_mem t2) data of
           None \<Rightarrow> None
         | Some n \<Rightarrow>
             let t3 = vga_write (bytes_at (vga_mem t2) data (unat n)) t2
             in Some (vga_setcursor (terminal_column t3) (terminal_row t3) t3))"

end
