(* ===== verification/Vga_Screen.thy ===== *)
theory Vga_Screen
  imports Vga_Tty Screen_Contract
begin

text \<open>
  What the VGA terminal of theory Vga_Tty does to the screen: cells instead of bytes, the
  invariant of the terminal, the picture after scrolling, and the hardware cursor.
\<close>

section \<open>Cells\<close>

definition cell_addr :: "nat \<Rightarrow> u64" where
  "cell_addr i = 0xB8000 + 2 * of_nat i"

definition cell :: "vga_tty \<Rightarrow> nat \<Rightarrow> u16" where
  "cell t i = load16 (vga_mem t) (cell_addr i)"

lemma bit_load16: "bit (load16 m a) k \<longleftrightarrow> k < 16 \<and> bit (m (a + of_nat (k div 8))) (k mod 8)"
  by (simp add: load16_def bit_load_le bit_ucast_iff)

lemma load16_cong:
  assumes "m a = m' b" "m (a + 1) = m' (b + 1)"
  shows "load16 m a = load16 m' b"
proof (rule bit_word_eqI)
  fix k assume "k < LENGTH(16)"
  then have "k div 8 = 0 \<or> k div 8 = 1" by auto
  then show "bit (load16 m a) k = bit (load16 m' b) k" using assms by (auto simp: bit_load16)
qed

lemma load16_store16 [simp]: "load16 (store16 m a v) a = v"
proof (rule bit_word_eqI)
  fix k assume "k < LENGTH(16)"
  then have k: "k < 16" "k div 8 < 2" by auto
  then have "in_region (a + of_nat (k div 8)) a 2" by (simp add: in_region_def)
  with k show "bit (load16 (store16 m a v) a) k = bit v k"
    by (simp add: bit_load16 store16_def bit_store_le bit_ucast_iff)
qed

lemma cell_addr_offset: "i < 4096 \<Longrightarrow> cell_addr i + of_nat b = 0xB8000 + of_nat (2 * i + b)"
  by (simp add: cell_addr_def)

lemma cell_in_region:
  assumes "i < 4096" "j < 4096" "b < 2"
  shows "in_region (cell_addr j + of_nat b) (cell_addr i) 2 \<longleftrightarrow> i = j"
proof
  assume "in_region (cell_addr j + of_nat b) (cell_addr i) 2"
  then obtain c where c: "c < 2" "cell_addr j + of_nat b = cell_addr i + of_nat c"
    by (auto simp: in_region_iff)
  then have "(of_nat (2 * j + b) :: u64) = of_nat (2 * i + c)"
    unfolding cell_addr_offset [OF assms(1)] cell_addr_offset [OF assms(2)] by simp
  then have "2 * j + b = 2 * i + c" using assms c(1) by (subst (asm) of_nat_u64_inj) simp_all
  with assms(3) c(1) show "i = j" by presburger
next
  assume "i = j" with assms(3) show "in_region (cell_addr j + of_nat b) (cell_addr i) 2" by (simp add: in_region_def)
qed

text \<open>Storing an entry changes one cell.\<close>

lemma cell_store:
  assumes "i < 4096" "j < 4096"
  shows "load16 (store16 m (cell_addr i) v) (cell_addr j) = (if i = j then v else load16 m (cell_addr j))"
proof (cases "i = j")
  case False
  have "store16 m (cell_addr i) v (cell_addr j + of_nat b) = m (cell_addr j + of_nat b)" if "b < 2" for b
    using False cell_in_region [OF assms that] by (simp add: store16_def store_le_outside)
  from this [of 0] this [of 1] False show ?thesis by (auto intro: load16_cong)
qed simp

definition vga_ptr :: "vga_tty \<Rightarrow> bool" where
  "vga_ptr t \<longleftrightarrow> terminal_buffer t = VGA_MEMORY"

lemma entry_addr_cell:
  assumes "vga_ptr t" "unat index < 4096"
  shows "entry_addr t index = cell_addr (unat index)"
proof -
  have "unat (0xB8000 + 2 * index :: u32) = 0xB8000 + 2 * unat index"
    using assms(2) by (simp add: unat_word_ariths)
  then have "unat (ucast (0xB8000 + 2 * index :: u32) :: u64) = 0xB8000 + 2 * unat index" by simp
  moreover have "unat (cell_addr (unat index)) = 0xB8000 + 2 * unat index"
    using assms(2) by (simp add: cell_addr_def unat_word_ariths)
  moreover have "terminal_buffer t = 0xB8000" using assms(1) by (simp add: vga_ptr_def)
  ultimately show ?thesis unfolding entry_addr_def by (metis word_unat_eq_iff)
qed

lemma index_unat:
  assumes "unat y \<le> 25" "unat x < 80"
  shows "unat (y * VGA_WIDTH + x) = 80 * unat y + unat x"
proof -
  have "unat (y * 80) = 80 * unat y" using assms by (simp add: unat_word_ariths)
  then show ?thesis using assms by (simp add: unat_word_ariths)
qed

lemma putentryat_mem:
  assumes "vga_ptr t" "unat y \<le> 25" "unat x < 80"
  shows "vga_mem (vga_putentryat c color x y t) = store16 (vga_mem t) (cell_addr (80 * unat y + unat x)) (vga_entry c color)"
  using entry_addr_cell [OF assms(1), of "y * VGA_WIDTH + x"] index_unat [OF assms(2,3)] assms(2,3)
  by (simp add: vga_putentryat_def Let_def)

lemma putentryat_cell:
  assumes "vga_ptr t" "unat y \<le> 25" "unat x < 80" "i < 4096"
  shows "cell (vga_putentryat c color x y t) i = (if i = 80 * unat y + unat x then vga_entry c color else cell t i)"
  using assms by (auto simp: cell_def putentryat_mem cell_store)

lemma putentryat_fields [simp]:
  "terminal_buffer (vga_putentryat c color x y t) = terminal_buffer t"
  "terminal_row (vga_putentryat c color x y t) = terminal_row t"
  "terminal_column (vga_putentryat c color x y t) = terminal_column t"
  "terminal_color (vga_putentryat c color x y t) = terminal_color t"
  "vga_io (vga_putentryat c color x y t) = vga_io t"
  by (simp_all add: vga_putentryat_def Let_def)

lemma setcursor_fields [simp]:
  "vga_mem (vga_setcursor x y t) = vga_mem t"
  "terminal_buffer (vga_setcursor x y t) = terminal_buffer t"
  "terminal_row (vga_setcursor x y t) = terminal_row t"
  "terminal_column (vga_setcursor x y t) = terminal_column t"
  "terminal_color (vga_setcursor x y t) = terminal_color t"
  by (simp_all add: vga_setcursor_def Let_def)

text \<open>The bytes the terminal may write: the screen and the first cell behind it.\<close>

definition vga_bytes :: "u64 set" where
  "vga_bytes = {a. in_region a 0xB8000 4002}"

lemma cell_store_frame:
  assumes "i \<le> 2000" "a \<notin> vga_bytes"
  shows "store16 m (cell_addr i) v a = m a"
proof -
  have "\<not> in_region a (cell_addr i) 2"
  proof
    assume "in_region a (cell_addr i) 2"
    then obtain c where c: "c < 2" "a = cell_addr i + of_nat c" by (auto simp: in_region_iff)
    then have "a = 0xB8000 + of_nat (2 * i + c)" using assms(1) cell_addr_offset by simp
    moreover have "2 * i + c < 4002" using assms(1) c(1) by simp
    ultimately have "in_region a 0xB8000 4002" by (auto simp: in_region_iff)
    with assms(2) show False by (simp add: vga_bytes_def)
  qed
  then show ?thesis by (simp add: store16_def store_le_outside)
qed

section \<open>Clearing and scrolling\<close>

lemma clear_last_cells:
  "vga_ptr t \<Longrightarrow> x \<le> 79 \<Longrightarrow>
    vga_ptr (vga_clear_last x t) \<and> vga_io (vga_clear_last x t) = vga_io t \<and> terminal_color (vga_clear_last x t) = terminal_color t \<and>
    (\<forall>i<4096. cell (vga_clear_last x t) i = (if 1920 + x \<le> i \<and> i < 1999 then 0x20 else cell t i)) \<and>
    (\<forall>a. a \<notin> vga_bytes \<longrightarrow> vga_mem (vga_clear_last x t) a = vga_mem t a)"
proof (induction x t rule: vga_clear_last.induct)
  case (1 x t)
  show ?case
  proof (cases "x < 79")
    case True
    let ?t = "vga_putentryat 0x20 (vga_entry_color VGA_COLOR_BLACK VGA_COLOR_BLACK) (of_nat x) (VGA_HEIGHT - 1) t"
    have p: "vga_ptr ?t" using "1.prems"(1) by (simp add: vga_ptr_def)
    have x: "unat (of_nat x :: u32) = x" using True by (simp add: unat_of_nat)
    have e: "vga_entry 0x20 (vga_entry_color VGA_COLOR_BLACK VGA_COLOR_BLACK) = 0x20"
      by (simp add: vga_entry_def vga_entry_color_def)
    have c: "cell ?t i = (if i = 1920 + x then 0x20 else cell t i)" if "i < 4096" for i
      using putentryat_cell [OF "1.prems"(1), of "VGA_HEIGHT - 1" "of_nat x" i "0x20"] that True by (simp add: x e)
    have f: "vga_mem ?t a = vga_mem t a" if "a \<notin> vga_bytes" for a
      using putentryat_mem [OF "1.prems"(1), of "VGA_HEIGHT - 1" "of_nat x"] that True
      by (simp add: x cell_store_frame)
    have "vga_clear_last x t = vga_clear_last (Suc x) ?t" using True by (subst vga_clear_last.simps) simp
    moreover have "Suc x \<le> 79" using True by simp
    moreover have "x < unat (VGA_WIDTH - 1)" using True by simp
    ultimately show ?thesis using "1.IH" [OF _ p] c f by (auto simp: not_le)
  next
    case False
    then have "vga_clear_last x t = t" by (subst vga_clear_last.simps) simp
    with False "1.prems" show ?thesis by auto
  qed
qed

text \<open>The copy of vga_scroll: 3840 bytes from two rows further down.\<close>

definition scrolled_up :: "vga_tty \<Rightarrow> vga_tty" where
  "scrolled_up t = t\<lparr>vga_mem := memmove (vga_mem t) (ucast (terminal_buffer t)) (entry_addr t (2 * VGA_WIDTH))
                              (ucast (VGA_WIDTH * (VGA_HEIGHT - 1) * 2))\<rparr>"

lemma scrolled_up_mem:
  assumes "vga_ptr t"
  shows "vga_mem (scrolled_up t) a = (if in_region a 0xB8000 3840 then vga_mem t (a + 320) else vga_mem t a)"
proof -
  have e: "entry_addr t (2 * VGA_WIDTH) = 0xB8140"
    using entry_addr_cell [OF assms, of "2 * VGA_WIDTH"] by (simp add: cell_addr_def)
  have b: "ucast (terminal_buffer t) = (0xB8000 :: u64)" using assms by (simp add: vga_ptr_def)
  have s: "ucast (VGA_WIDTH * (VGA_HEIGHT - 1) * 2) = (3840 :: u64)" by simp
  have u: "unat (3840 :: u64) = 3840" by simp
  have "no_wrap 0xB8000 (unat (3840 :: u64))" "no_wrap 0xB8140 (unat (3840 :: u64))" by (simp_all add: no_wrap_def)
  note m = memmove_region [OF this, of "vga_mem t" a, unfolded u]
  have "0xB8140 + (a - 0xB8000) = a + 320" by simp
  with m have "memmove (vga_mem t) 0xB8000 0xB8140 3840 a = (if in_region a 0xB8000 3840 then vga_mem t (a + 320) else vga_mem t a)"
    by (simp only:)
  then show ?thesis unfolding scrolled_up_def e b s by simp
qed

lemma scrolled_up_cell:
  assumes "vga_ptr t" "i < 3000"
  shows "cell (scrolled_up t) i = (if i < 1920 then cell t (i + 160) else cell t i)"
proof -
  have b: "vga_mem (scrolled_up t) (cell_addr i + of_nat b) =
      (if i < 1920 then vga_mem t (cell_addr (i + 160) + of_nat b) else vga_mem t (cell_addr i + of_nat b))" if "b < 2" for b
  proof -
    have u: "unat (of_nat (2 * i + b) :: u64) = 2 * i + b" using assms(2) that by (intro unat_of_nat_u64) simp
    have "in_region (cell_addr i + of_nat b) 0xB8000 3840 \<longleftrightarrow> i < 1920"
      using assms(2) that cell_addr_offset [of i b] u by (auto simp: in_region_def)
    moreover have "cell_addr i + of_nat b + 320 = cell_addr (i + 160) + of_nat b"
      by (simp add: cell_addr_def)
    ultimately show ?thesis by (simp only: scrolled_up_mem [OF assms(1)])
  qed
  from b [of 0] b [of 1] show ?thesis unfolding cell_def by (auto intro!: load16_cong)
qed

lemma vga_scroll_eq:
  "vga_scroll t = vga_setcursor 0 24 ((vga_clear_last 0 (scrolled_up t))\<lparr>terminal_row := 24, terminal_column := 0\<rparr>)"
  by (simp add: vga_scroll_def scrolled_up_def Let_def)

text \<open>
  Scrolling the VGA screen.  terminal_scroll moves the screen up by two rows, not one: row y
  shows what row y + 2 showed, so that one line of text is lost, and row 23 is filled from behind
  the screen.  In the last row the first 79 columns become black blanks and column 79 keeps its
  character; the pen goes to the start of the last row.
\<close>

theorem vga_scroll_two_rows:
  assumes "vga_ptr t" "x < 80" "y < 25"
  shows "cell (vga_scroll t) (80 * y + x) =
      (if y < 24 then cell t (80 * (y + 2) + x) else if x < 79 then 0x20 else cell t (80 * 24 + 79)) \<and>
    terminal_row (vga_scroll t) = 24 \<and> terminal_column (vga_scroll t) = 0"
proof -
  have p: "vga_ptr (scrolled_up t)" using assms(1) by (simp add: vga_ptr_def scrolled_up_def)
  have "cell (vga_scroll t) i = (if 1920 \<le> i \<and> i < 1999 then 0x20 else cell (scrolled_up t) i)" if "i < 4096" for i
    using clear_last_cells [OF p, of 0] that by (simp add: vga_scroll_eq cell_def)
  then have "cell (vga_scroll t) i = (if 1920 \<le> i \<and> i < 1999 then 0x20 else if i < 1920 then cell t (i + 160) else cell t i)"
    if "i < 2000" for i
    using scrolled_up_cell [OF assms(1), of i] that by simp
  note c = this [of "80 * y + x"]
  show ?thesis
  proof (cases "y < 24")
    case True
    then have "80 * y + x < 1920" using assms(2) by linarith
    with c True show ?thesis by (simp add: vga_scroll_eq algebra_simps)
  next
    case False
    then have y: "y = 24" using assms(3) by simp
    show ?thesis
    proof (cases "x < 79")
      case True
      with c y show ?thesis by (simp add: vga_scroll_eq)
    next
      case False
      then have "x = 79" using assms(2) by simp
      with c y show ?thesis by (simp add: vga_scroll_eq)
    qed
  qed
qed

section \<open>The invariant\<close>

definition vga_ok :: "vga_tty \<Rightarrow> bool" where
  "vga_ok t \<longleftrightarrow> vga_ptr t \<and> terminal_row t < VGA_HEIGHT \<and> terminal_column t < VGA_WIDTH"

lemma vga_scroll_ok:
  assumes "vga_ptr t"
  shows "vga_ok (vga_scroll t)" "a \<notin> vga_bytes \<Longrightarrow> vga_mem (vga_scroll t) a = vga_mem t a"
proof -
  have p: "vga_ptr (scrolled_up t)" using assms by (simp add: vga_ptr_def scrolled_up_def)
  note c = clear_last_cells [OF p, of 0]
  show "vga_ok (vga_scroll t)" using c by (simp add: vga_scroll_eq vga_ok_def vga_ptr_def)
  assume a: "a \<notin> vga_bytes"
  then have "\<not> in_region a 0xB8000 3840" by (simp add: vga_bytes_def in_region_def)
  with a c show "vga_mem (vga_scroll t) a = vga_mem t a"
    by (simp add: vga_scroll_eq scrolled_up_mem [OF assms])
qed

text \<open>
  One character: the entry at the pen, then the pen one column on, or at the start of the next
  row; after row 24 a newline scrolls and any other character goes to the top.
\<close>

lemma vga_putchar_ok:
  assumes "vga_ok t"
  shows "vga_ok (vga_putchar c t)" "a \<notin> vga_bytes \<Longrightarrow> vga_mem (vga_putchar c t) a = vga_mem t a"
    and "\<exists>s. vga_putchar c t = vga_setcursor (terminal_column s) (terminal_row s) s"
proof -
  have p: "vga_ptr t" and r: "unat (terminal_row t) < 25" and col: "unat (terminal_column t) < 80"
    using assms by (simp_all add: vga_ok_def word_less_nat_alt)
  have r1: "unat (terminal_row t + 1) = Suc (unat (terminal_row t))" using r by (simp add: unat_word_ariths)
  have c1: "unat (terminal_column t + 1) = Suc (unat (terminal_column t))" using col by (simp add: unat_word_ariths)
  have frame: "vga_mem (vga_putentryat c' k x y s) a = vga_mem s a"
    if "vga_ptr s" "unat y \<le> 25" "unat x < 80" "80 * unat y + unat x \<le> 2000" "a \<notin> vga_bytes" for c' k x y s a
    using that by (simp add: putentryat_mem cell_store_frame)
  show "\<exists>s. vga_putchar c t = vga_setcursor (terminal_column s) (terminal_row s) s"
    unfolding vga_putchar_def Let_def by blast
  have "vga_ok (vga_putchar c t) \<and> (a \<notin> vga_bytes \<longrightarrow> vga_mem (vga_putchar c t) a = vga_mem t a)" for a
  proof (cases "c = 0x0A")
    case True
    let ?s = "vga_putentryat 0x20 (terminal_color t) 0 (terminal_row t + 1) (t\<lparr>terminal_column := 0, terminal_row := terminal_row t + 1\<rparr>)"
    let ?u = "vga_setcursor 0 (terminal_row t + 1) ?s"
    have sp: "vga_ptr ?s" "vga_ptr ?u" using p by (simp_all add: vga_ptr_def)
    have f: "a \<notin> vga_bytes \<Longrightarrow> vga_mem ?u a = vga_mem t a"
      using frame [of "t\<lparr>terminal_column := 0, terminal_row := terminal_row t + 1\<rparr>" "terminal_row t + 1" 0 a] r r1 p
      by (simp add: vga_ptr_def)
    have "vga_putchar c t = (if terminal_row t + 1 \<ge> VGA_HEIGHT
        then vga_setcursor (terminal_column (vga_scroll ?u)) (terminal_row (vga_scroll ?u)) (vga_scroll ?u)
        else vga_setcursor 0 (terminal_row t + 1) ?u)"
      using True by (simp add: vga_putchar_def Let_def)
    moreover have "vga_ok (vga_scroll ?u)" by (rule vga_scroll_ok [OF sp(2)])
    ultimately show ?thesis using sp f vga_scroll_ok(2) [OF sp(2), of a]
      by (auto simp: vga_ok_def vga_ptr_def)
  next
    case False
    let ?s = "vga_putentryat c (terminal_color t) (terminal_column t) (terminal_row t) t"
    let ?u = "vga_setcursor (terminal_column t + 1) (terminal_row t) ?s"
    have f: "a \<notin> vga_bytes \<Longrightarrow> vga_mem ?s a = vga_mem t a"
      using frame [of t "terminal_row t" "terminal_column t" a] r col p by simp
    show ?thesis
    proof (cases "unat (terminal_column t) = 79")
      case True
      then have "terminal_column t + 1 = VGA_WIDTH" using c1 by (simp add: word_unat_eq_iff)
      moreover have "terminal_row t + 1 = VGA_HEIGHT \<or> terminal_row t + 1 < VGA_HEIGHT"
        using r r1 by (auto simp: word_less_nat_alt word_unat_eq_iff)
      ultimately show ?thesis using False f p by (auto simp: vga_putchar_def Let_def vga_ok_def vga_ptr_def not_le)
    next
      case neq: False
      then have "terminal_column t + 1 < VGA_WIDTH" using c1 col by (simp add: word_less_nat_alt)
      moreover from this have "terminal_column t + 1 \<noteq> VGA_WIDTH" by auto
      ultimately show ?thesis using False f p r by (simp add: vga_putchar_def Let_def vga_ok_def vga_ptr_def word_le_nat_alt word_less_nat_alt)
    qed
  qed
  then show "vga_ok (vga_putchar c t)" "a \<notin> vga_bytes \<Longrightarrow> vga_mem (vga_putchar c t) a = vga_mem t a" by blast+
qed

interpretation vgatty: char_screen vga_putchar vga_ok "\<lambda>t. ()" vga_mem "\<lambda>_. vga_bytes"
  by unfold_locales (simp_all add: vga_putchar_ok)

lemma vga_write_ok:
  "vga_ok t \<Longrightarrow> vga_ok (vga_write cs t) \<and> (\<forall>a. a \<notin> vga_bytes \<longrightarrow> vga_mem (vga_write cs t) a = vga_mem t a)"
  using vgatty.drawn_write [of t cs] by (simp add: vga_write_def vgatty.drawn_def)

section \<open>The hardware cursor\<close>

text \<open>
  The CRT controller behind the two ports, as its documentation has it: a write to the command
  port selects a register, a write to the data port sets the selected one, and a read of the
  data port gives it.
\<close>

fun crtc_run :: "io_event list \<Rightarrow> u8 \<times> (u8 \<Rightarrow> u8) \<Rightarrow> u8 \<times> (u8 \<Rightarrow> u8)" where
  "crtc_run [] s = s"
| "crtc_run (Out port v # es) (sel, regs) =
     crtc_run es (if port = TTY_COMMAND_PORT then (v, regs)
                  else if port = TTY_DATA_PORT then (sel, regs(sel := v)) else (sel, regs))"
| "crtc_run (In port v # es) s = crtc_run es s"

definition crtc :: device where
  "crtc h port = (let (sel, regs) = crtc_run h (0, \<lambda>_. 0) in if port = TTY_DATA_PORT then regs sel else 0)"

lemma crtc_run_append [simp]: "crtc_run (es @ es') s = crtc_run es' (crtc_run es s)"
  by (induction es s rule: crtc_run.induct) simp_all

text \<open>What the controller holds as the cursor's position.\<close>

definition hw_cursor :: "vga_tty \<Rightarrow> u16" where
  "hw_cursor t = (let regs = snd (crtc_run (vga_io t) (0, \<lambda>_. 0))
     in ucast (regs TTY_LOW_BYTE_COMMAND) OR push_bit 8 (ucast (regs TTY_HIGH_BYTE_COMMAND)))"

lemma bytes16: "ucast (ucast (w AND 0xFF) :: u8) OR push_bit 8 (ucast (ucast (drop_bit 8 w AND 0xFF) :: u8)) = (w :: u16)"
proof (rule bit_word_eqI)
  fix k assume "k < LENGTH(16)"
  moreover have m: "(0xFF :: u16) = mask 8" by (simp add: mask_eq_exp_minus_1)
  ultimately show "bit (ucast (ucast (w AND 0xFF) :: u8) OR push_bit 8 (ucast (ucast (drop_bit 8 w AND 0xFF) :: u8)) :: u16) k = bit w k"
    unfolding m
    by (cases "k < 8") (auto simp: bit_or_iff bit_ucast_iff bit_and_iff bit_push_bit_iff bit_drop_bit_eq bit_mask_iff)
qed

lemma hw_cursor_set: "hw_cursor (vga_setcursor x y t) = ucast (y * VGA_WIDTH + x)"
proof -
  obtain sel regs where s: "crtc_run (vga_io t) (0, \<lambda>_. 0) = (sel, regs)" by fastforce
  show ?thesis
    using bytes16 [of "ucast (y * VGA_WIDTH + x)"] by (simp add: hw_cursor_def vga_setcursor_def outb_def Let_def s)
qed

lemma getcursor_hw: "fst (vga_getcursor crtc t) = hw_cursor t"
proof -
  obtain sel regs where s: "crtc_run (vga_io t) (0, \<lambda>_. 0) = (sel, regs)" by fastforce
  show ?thesis by (simp add: hw_cursor_def vga_getcursor_def outb_def inb_def crtc_def Let_def s)
qed

lemma hw_cursor_write:
  assumes "vga_ok t" "cs \<noteq> []"
  shows "hw_cursor (vga_write cs t) = ucast (terminal_row (vga_write cs t) * VGA_WIDTH + terminal_column (vga_write cs t))"
proof -
  obtain cs' c where cs: "cs = cs' @ [c]" using assms(2) by (cases cs rule: rev_cases) auto
  have "vga_ok (vga_write cs' t)" using vga_write_ok [OF assms(1), of cs'] by blast
  from vga_putchar_ok(3) [OF this, of c] obtain s
    where "vga_putchar c (vga_write cs' t) = vga_setcursor (terminal_column s) (terminal_row s) s" by blast
  then have "vga_write cs t = vga_setcursor (terminal_column s) (terminal_row s) s" by (simp add: vga_write_def cs)
  then show ?thesis by (simp add: hw_cursor_set)
qed

lemma cursor_position:
  assumes "vga_ok t"
  shows "(ucast (ucast (terminal_row t * VGA_WIDTH + terminal_column t) :: u16) :: u32) div VGA_WIDTH = terminal_row t"
    and "(ucast (ucast (terminal_row t * VGA_WIDTH + terminal_column t) :: u16) :: u32) mod VGA_WIDTH = terminal_column t"
proof -
  have r: "unat (terminal_row t) < 25" and col: "unat (terminal_column t) < 80"
    using assms by (simp_all add: vga_ok_def word_less_nat_alt)
  have i: "unat (terminal_row t * VGA_WIDTH + terminal_column t) = 80 * unat (terminal_row t) + unat (terminal_column t)"
    using r col by (intro index_unat) simp_all
  then have u: "unat (ucast (ucast (terminal_row t * VGA_WIDTH + terminal_column t) :: u16) :: u32) =
      80 * unat (terminal_row t) + unat (terminal_column t)"
    using r col by (subst unsigned_ucast_eq, subst unsigned_ucast_eq) (simp add: i [simplified] take_bit_nat_eq_self)
  show "(ucast (ucast (terminal_row t * VGA_WIDTH + terminal_column t) :: u16) :: u32) div VGA_WIDTH = terminal_row t"
    "(ucast (ucast (terminal_row t * VGA_WIDTH + terminal_column t) :: u16) :: u32) mod VGA_WIDTH = terminal_column t"
    unfolding word_unat_eq_iff unat_div_distrib unat_mod_distrib u using col by simp_all
qed

section \<open>Properties\<close>

text \<open>
  C26. The invariant of the VGA terminal.  Whatever is written, the pen stays on the screen, no byte
  of the memory changes but those of the screen and of the one cell behind it (which a newline in
  the last row blanks before it scrolls), and the hardware cursor stands at the pen: reading it
  back, as terminal_writestring does before it prints, gives the row and the column.
\<close>

theorem vga_write_invariant:
  assumes "vga_ok t" "cs \<noteq> []"
  defines "t' \<equiv> vga_write cs t"
  shows "vga_ok t' \<and> {a. vga_mem t' a \<noteq> vga_mem t a} \<subseteq> vga_bytes \<and>
    ucast (fst (vga_getcursor crtc t')) div VGA_WIDTH = terminal_row t' \<and>
    ucast (fst (vga_getcursor crtc t')) mod VGA_WIDTH = terminal_column t'"
  using vga_write_ok [OF assms(1), of cs] cursor_position [of t']
  by (auto simp: t'_def getcursor_hw hw_cursor_write [OF assms(1,2)])

text \<open>
  The start: vga_initialize blanks the 25 rows and puts the pen at the top left, so that the
  invariant holds.
\<close>

lemma blank_row_cells:
  "vga_ptr t \<Longrightarrow> y < 25 \<Longrightarrow> x \<le> 80 \<Longrightarrow>
    vga_ptr (vga_blank_row y x t) \<and> terminal_row (vga_blank_row y x t) = terminal_row t \<and>
    terminal_column (vga_blank_row y x t) = terminal_column t \<and> terminal_color (vga_blank_row y x t) = terminal_color t \<and>
    (\<forall>i<4096. cell (vga_blank_row y x t) i =
       (if 80 * y + x \<le> i \<and> i < 80 * y + 80 then vga_entry 0x20 (terminal_color t) else cell t i))"
proof (induction y x t rule: vga_blank_row.induct)
  case (1 y x t)
  show ?case
  proof (cases "x < 80")
    case True
    let ?t = "vga_putentryat 0x20 (terminal_color t) (of_nat x) (of_nat y) t"
    have p: "vga_ptr ?t" using "1.prems"(1) by (simp add: vga_ptr_def)
    have u: "unat (of_nat x :: u32) = x" "unat (of_nat y :: u32) = y" using True "1.prems" by (simp_all add: unat_of_nat)
    have c: "cell ?t i = (if i = 80 * y + x then vga_entry 0x20 (terminal_color t) else cell t i)" if "i < 4096" for i
      using putentryat_cell [OF "1.prems"(1), of "of_nat y" "of_nat x" i] that True "1.prems" by (simp add: u)
    have s: "vga_blank_row y x t = vga_blank_row y (Suc x) ?t"
      using True by (subst vga_blank_row.simps) (simp add: vga_putentryat_def)
    have "x < unat VGA_WIDTH" "Suc x \<le> 80" using True by simp_all
    moreover have "?t = t\<lparr>vga_mem := store16 (vga_mem t) (entry_addr t (of_nat y * VGA_WIDTH + of_nat x)) (vga_entry 0x20 (terminal_color t))\<rparr>"
      by (simp add: vga_putentryat_def)
    ultimately show ?thesis using "1.IH" "1.prems"(2) p c unfolding s by (auto simp: not_le)
  next
    case False
    then have "vga_blank_row y x t = t" by (subst vga_blank_row.simps) simp
    with False "1.prems" show ?thesis by auto
  qed
qed

lemma blank_rows_cells:
  "vga_ptr t \<Longrightarrow> y \<le> 25 \<Longrightarrow>
    vga_ptr (vga_blank_rows y t) \<and> terminal_row (vga_blank_rows y t) = terminal_row t \<and>
    terminal_column (vga_blank_rows y t) = terminal_column t \<and> terminal_color (vga_blank_rows y t) = terminal_color t \<and>
    (\<forall>i<4096. cell (vga_blank_rows y t) i =
       (if 80 * y \<le> i \<and> i < 2000 then vga_entry 0x20 (terminal_color t) else cell t i))"
proof (induction y t rule: vga_blank_rows.induct)
  case (1 y t)
  show ?case
  proof (cases "y < 25")
    case True
    note r = blank_row_cells [OF "1.prems"(1) True, of 0]
    have s: "vga_blank_rows y t = vga_blank_rows (Suc y) (vga_blank_row y 0 t)"
      using True by (subst vga_blank_rows.simps) simp
    have "y < unat VGA_HEIGHT" "Suc y \<le> 25" using True by simp_all
    with "1.IH" r show ?thesis unfolding s by auto
  next
    case False
    then have "vga_blank_rows y t = t" by (subst vga_blank_rows.simps) simp
    with False "1.prems" show ?thesis by auto
  qed
qed

lemma vga_initialize_ok:
  "vga_ok (vga_initialize t) \<and> terminal_row (vga_initialize t) = 0 \<and> terminal_column (vga_initialize t) = 0 \<and>
   (\<forall>i<2000. cell (vga_initialize t) i = vga_entry 0x20 0x07)"
proof -
  let ?s = "t\<lparr>terminal_row := 0, terminal_column := 0,
       terminal_color := vga_entry_color VGA_COLOR_LIGHT_GREY VGA_COLOR_BLACK, terminal_buffer := VGA_MEMORY\<rparr>"
  have "vga_ptr ?s" by (simp add: vga_ptr_def)
  from blank_rows_cells [OF this, of 0] show ?thesis
    by (simp add: vga_initialize_def vga_ok_def vga_entry_color_def)
qed

theorem vga_write_invariant_witness:
  "vga_ok (vga_write [0x48, 0x0A] (vga_initialize \<lparr>vga_mem = (\<lambda>_. 0), terminal_row = 0, terminal_column = 0,
     terminal_color = 0, terminal_buffer = 0, vga_io = []\<rparr>))"
  by (rule vga_write_invariant [THEN conjunct1]) (simp_all add: vga_initialize_ok)

theorem vga_scroll_two_rows_witness:
  "cell (vga_scroll (vga_initialize \<lparr>vga_mem = (\<lambda>_. 0), terminal_row = 0, terminal_column = 0,
     terminal_color = 0, terminal_buffer = 0, vga_io = []\<rparr>)) (80 * 24 + 5) = 0x20"
proof -
  have "vga_ptr (vga_initialize \<lparr>vga_mem = (\<lambda>_. 0), terminal_row = 0, terminal_column = 0,
     terminal_color = 0, terminal_buffer = 0, vga_io = []\<rparr>)"
    using vga_initialize_ok [unfolded vga_ok_def] by blast
  from vga_scroll_two_rows [OF this, of 5 24] show ?thesis by simp
qed

end
