(* ===== verification/Ssfn_Table.thy ===== *)
theory Ssfn_Table
  imports Ssfn_Screen
begin

text \<open>
  The encodings the console renderer reads: the run-length encoded character table of a font,
  against a list of gaps and glyphs, and UTF-8.
\<close>

section \<open>The character table\<close>

text \<open>An entry of the character table: a gap of code points, or a glyph with its bytes after the first.\<close>

datatype chr_entry = Gap_Plane | Gap_Long nat | Gap_Short nat | Glyph "u8 list"

primrec entry_ok :: "chr_entry \<Rightarrow> bool" where
  "entry_ok Gap_Plane = True"
| "entry_ok (Gap_Long n) = (n < 0x3F00)"
| "entry_ok (Gap_Short n) = (n < 0x40)"
| "entry_ok (Glyph bs) = (2 \<le> length bs \<and> \<not> bit (hd bs) 7 \<and>
     length bs = 6 + unat (bs ! 1) * (if bit (hd bs) 6 then 6 else 5))"

primrec entry_bytes :: "chr_entry \<Rightarrow> u8 list" where
  "entry_bytes Gap_Plane = [0xFF]"
| "entry_bytes (Gap_Long n) = [of_nat (0xC0 + n div 256), of_nat (n mod 256)]"
| "entry_bytes (Gap_Short n) = [of_nat (0x80 + n)]"
| "entry_bytes (Glyph bs) = bs"

text \<open>How many code points an entry stands for.\<close>

primrec entry_span :: "chr_entry \<Rightarrow> nat" where
  "entry_span Gap_Plane = 65536"
| "entry_span (Gap_Long n) = n + 1"
| "entry_span (Gap_Short n) = n + 1"
| "entry_span (Glyph bs) = 1"

text \<open>Where the table has the glyph of a code point, counted from the first entry.\<close>

fun table_lookup :: "chr_entry list \<Rightarrow> nat \<Rightarrow> nat \<Rightarrow> nat option" where
  "table_lookup [] off c = None"
| "table_lookup (e # es) off c =
     (case e of
        Glyph bs \<Rightarrow> if c = 0 then Some off else table_lookup es (off + length bs) (c - 1)
      | _ \<Rightarrow> if c < entry_span e then None else table_lookup es (off + length (entry_bytes e)) (c - entry_span e))"

text \<open>The font holds the bytes at an offset.\<close>

definition holds :: "font \<Rightarrow> u64 \<Rightarrow> u8 list \<Rightarrow> bool" where
  "holds f a bs \<longleftrightarrow> (\<forall>i<length bs. f (a + of_nat i) = bs ! i)"

lemma holds_append: "holds f a (bs @ cs) \<longleftrightarrow> holds f a bs \<and> holds f (a + of_nat (length bs)) cs"
proof
  assume h: "holds f a (bs @ cs)"
  have "f (a + of_nat i) = bs ! i" if "i < length bs" for i
    using h that unfolding holds_def by (metis length_append nth_append trans_less_add1)
  moreover have "f (a + of_nat (length bs) + of_nat i) = cs ! i" if "i < length cs" for i
  proof -
    have "f (a + of_nat (length bs + i)) = (bs @ cs) ! (length bs + i)"
      using h that unfolding holds_def by (metis length_append nat_add_left_cancel_less)
    then show ?thesis by (simp add: add.assoc)
  qed
  ultimately show "holds f a bs \<and> holds f (a + of_nat (length bs)) cs" by (simp add: holds_def)
next
  assume h: "holds f a bs \<and> holds f (a + of_nat (length bs)) cs"
  show "holds f a (bs @ cs)" unfolding holds_def
  proof (intro allI impI)
    fix i assume i: "i < length (bs @ cs)"
    show "f (a + of_nat i) = (bs @ cs) ! i"
    proof (cases "i < length bs")
      case True
      with h show ?thesis by (simp add: holds_def nth_append)
    next
      case False
      then have "f (a + of_nat (length bs) + of_nat (i - length bs)) = cs ! (i - length bs)"
        using h i by (simp add: holds_def del: of_nat_diff)
      moreover have e: "a + of_nat i = a + of_nat (length bs) + of_nat (i - length bs)"
        using False by (simp only: add.assoc of_nat_add [symmetric]) simp
      ultimately show ?thesis using False unfolding e by (simp add: nth_append del: of_nat_diff)
    qed
  qed
qed


lemma holds_Nil [simp]: "holds f a []"
  by (simp add: holds_def)

lemma holds_Cons [simp]: "holds f a (b # bs) \<longleftrightarrow> f a = b \<and> holds f (a + 1) bs"
  using holds_append [of f a "[b]" bs] by (simp add: holds_def)

lemma top_bits: "unat (b AND 0xC0 :: u8) = 64 * (unat b div 64)" "unat (b AND 0x3F :: u8) = unat b mod 64"
proof -
  have m: "(0xC0 :: u8) = NOT (mask 6)" by (simp add: mask_eq_exp_minus_1)
  have "b AND 0xC0 = push_bit 6 (drop_bit 6 b)"
    unfolding m by (rule bit_word_eqI) (auto simp: bit_and_iff bit_not_iff bit_mask_iff bit_push_bit_iff bit_drop_bit_eq)
  then have "unat (b AND 0xC0) = unat (push_bit 6 (drop_bit 6 b))" by (rule arg_cong)
  also have "\<dots> = take_bit 8 (push_bit 6 (drop_bit 6 (unat b)))"
    using unat_u8_lt [of b] by (simp add: unsigned_push_bit_eq unsigned_drop_bit_eq take_bit_nat_eq_self del: unat_u8_lt)
  also have "\<dots> = 64 * (unat b div 64)"
  proof -
    have "unat b div 64 < 4" using unat_u8_lt [of b] by (simp add: less_mult_imp_div_less del: unat_u8_lt)
    then have "64 * (unat b div 64) < 2 ^ 8" by simp
    moreover have "push_bit 6 (drop_bit 6 (unat b)) = 64 * (unat b div 64)"
      by (simp add: push_bit_eq_mult drop_bit_eq_div)
    ultimately show ?thesis by (simp only: take_bit_nat_eq_self)
  qed
  finally show "unat (b AND 0xC0) = 64 * (unat b div 64)" .
  have "(0x3F :: u8) = mask 6" by (simp add: mask_eq_exp_minus_1)
  then have "unat (b AND 0x3F) = take_bit 6 (unat b)" by (simp only: take_bit_eq_mask [symmetric] unsigned_take_bit_eq)
  then show "unat (b AND 0x3F) = unat b mod 64" by (simp add: take_bit_eq_mod)
qed

lemma code_eq: "0 \<le> i \<Longrightarrow> i < 0x110000 \<Longrightarrow> c < 0x110000 \<Longrightarrow> (word_of_int i :: u32) = of_nat c \<longleftrightarrow> i = int c"
proof -
  assume a: "0 \<le> i" "i < 0x110000" "c < 0x110000"
  have "(word_of_int i :: u32) = of_nat c \<longleftrightarrow> (word_of_nat (nat i) :: u32) = word_of_nat c" using a by simp
  also have "\<dots> \<longleftrightarrow> nat i = c" using a by (intro of_nat_word_inj) auto
  finally show ?thesis using a by auto
qed

lemma gap_past: "c < i \<Longrightarrow> c \<le> i + uint (a :: u8)" "c < i \<Longrightarrow> c \<le> i + (uint (a :: u8) * 256 + uint (b :: u8))"
proof -
  have "0 \<le> uint a" "0 \<le> uint b" by simp_all
  then show "c < i \<Longrightarrow> c \<le> i + uint a" "c < i \<Longrightarrow> c \<le> i + (uint a * 256 + uint b)" by linarith+
qed

lemma find_chr_past: "int c < i \<Longrightarrow> find_chr f (of_nat c) ptr i = None"
proof (induction f "of_nat c :: u32" ptr i rule: find_chr.induct)
  case (1 f ptr i)
  have "(word_of_int i :: u32) \<noteq> of_nat c" if "i < 0x110000" using code_eq [of i c] 1(5) that by auto
  with 1 show ?case by (subst find_chr.simps) (auto simp: gap_past)
qed

lemma find_chr_gap:
  assumes "entry_ok e" "holds f ptr (entry_bytes e)" "i < 0x110000" "\<And>bs. e \<noteq> Glyph bs"
  shows "find_chr f u ptr i = find_chr f u (ptr + of_nat (length (entry_bytes e))) (i + int (entry_span e))"
proof (cases e)
  case Gap_Plane
  then show ?thesis using assms(2,3) by (subst find_chr.simps) (simp add: add.assoc)
next
  case (Gap_Long n)
  have low: "(192 + q) mod 64 = q" if "q < 63" for q :: nat
  proof -
    have "192 + q = q + 3 * 64" by simp
    with that show ?thesis by (simp only: mod_mult_self1) simp
  qed
  have "f ptr = of_nat (0xC0 + n div 256)" "f (ptr + 1) = of_nat (n mod 256)"
    using assms(2) by (simp_all add: Gap_Long)
  moreover have "0xC0 + n div 256 < 255" using assms(1) Gap_Long by auto
  ultimately have f: "unat (f ptr) = 0xC0 + n div 256" "unat (f (ptr + 1)) = n mod 256"
    by (simp_all only: unat_of_nat take_bit_nat_eq_self) simp_all
  then have g: "f ptr \<noteq> 0xFF" "f ptr AND 0xC0 = 0xC0" "unat (f ptr AND 0x3F) = n div 256"
    using \<open>0xC0 + n div 256 < 255\<close> low [of "n div 256"] by (simp_all add: word_unat_eq_iff top_bits)
  have "find_chr f u ptr i = find_chr f u (ptr + 2) (i + int (n div 256 * 256 + n mod 256) + 1)"
    by (subst find_chr.simps) (simp only: g f(2) assms(3) if_True if_False, simp only: refl if_True)
  then show ?thesis by (simp add: Gap_Long algebra_simps)
next
  case (Gap_Short n)
  have "f ptr = of_nat (0x80 + n)" using assms(2) by (simp add: Gap_Short)
  have n: "n < 0x40" using assms(1) Gap_Short by auto
  have low: "(128 + n) mod 64 = n"
  proof -
    have "128 + n = n + 2 * 64" by simp
    with n show ?thesis by (simp only: mod_mult_self1) simp
  qed
  with \<open>f ptr = of_nat (0x80 + n)\<close> have f: "unat (f ptr) = 0x80 + n" using n
    by (simp only: unat_of_nat take_bit_nat_eq_self) simp
  then have g: "f ptr \<noteq> 0xFF" "f ptr AND 0xC0 \<noteq> 0xC0" "f ptr AND 0xC0 = 0x80" "unat (f ptr AND 0x3F) = n"
    using n low by (simp_all add: word_unat_eq_iff top_bits)
  have "find_chr f u ptr i = find_chr f u (ptr + 1) (i + int n + 1)"
    by (subst find_chr.simps) (simp only: g(1,2,4) assms(3) if_True if_False, simp only: g(3) refl if_True)
  then show ?thesis by (simp add: Gap_Short algebra_simps)
qed (use assms(4) in blast)


lemma find_chr_glyph:
  assumes "entry_ok (Glyph bs)" "holds f ptr bs" "0 \<le> i" "i < 0x110000" "c < 0x110000"
  shows "find_chr f (of_nat c) ptr i = (if i = int c then Some ptr
    else find_chr f (of_nat c) (ptr + of_nat (length bs)) (i + 1))"
proof -
  obtain b n r where bs: "bs = b # n # r" using assms(1) by (cases bs; cases "tl bs") auto
  have b: "f ptr = b" "f (ptr + 1) = n" "\<not> bit b 7" using assms(1,2) by (simp_all add: bs)
  have "\<not> bit (b AND 0xC0) 7" using b(3) by (simp add: bit_and_iff)
  moreover have "bit (0xFF :: u8) 7" "bit (0xC0 :: u8) 7" "bit (0x80 :: u8) 7" by simp_all
  ultimately have "b \<noteq> 0xFF" "b AND 0xC0 \<noteq> 0xC0" "b AND 0xC0 \<noteq> 0x80" using b(3) by metis+
  moreover have "b AND 0x40 \<noteq> 0 \<longleftrightarrow> bit b 6"
    using mask_bit [of 6 b] by (simp add: and_exp_eq_0_iff_not_bit [where n = 6, simplified])
  ultimately show ?thesis
    using assms(1,4) code_eq [OF assms(3-5)] b by (subst find_chr.simps) (simp add: bs add.assoc)
qed

lemma find_chr_table:
  assumes "c < 0x110000"
  shows "holds f ptr (concat (map entry_bytes es)) \<Longrightarrow> list_all entry_ok es \<Longrightarrow> i \<le> c \<Longrightarrow>
    c < i + sum_list (map entry_span es) \<Longrightarrow>
    find_chr f (of_nat c) ptr (int i) = map_option (\<lambda>off. ptr + of_nat off - of_nat off0) (table_lookup es off0 (c - i))"
proof (induction es arbitrary: ptr i off0)
  case (Cons e es)
  have h: "holds f ptr (entry_bytes e)" "holds f (ptr + of_nat (length (entry_bytes e))) (concat (map entry_bytes es))"
    "entry_ok e" "list_all entry_ok es" and i: "int i < 0x110000" "0 \<le> int i"
    using Cons.prems assms by (simp_all add: holds_append)
  show ?case
  proof (cases "\<exists>bs. e = Glyph bs")
    case True
    then obtain bs where e: "e = Glyph bs" ..
    note g = find_chr_glyph [OF h(3) [unfolded e] h(1) [unfolded e entry_bytes.simps] i(2,1) assms]
    show ?thesis
    proof (cases "i = c")
      case True
      with g show ?thesis by (simp add: e)
    next
      case False
      with Cons.prems have "Suc i \<le> c" "c < Suc i + sum_list (map entry_span es)" by (simp_all add: e)
      from Cons.IH [OF h(2,4) this, of "off0 + length bs"] False Cons.prems(3) g show ?thesis
        by (simp add: e algebra_simps)
    qed
  next
    case False
    then have ng: "\<And>bs. e \<noteq> Glyph bs" by blast
    note g = find_chr_gap [OF h(3,1) i(1) ng, of "of_nat c"]
    show ?thesis
    proof (cases "c < i + entry_span e")
      case True
      then have "find_chr f (of_nat c) ptr (int i) = None" unfolding g by (intro find_chr_past) simp
      moreover have "table_lookup (e # es) off0 (c - i) = None"
        using True ng Cons.prems(3) by (cases e) auto
      ultimately show ?thesis by simp
    next
      case False
      then have "i + entry_span e \<le> c" "c < i + entry_span e + sum_list (map entry_span es)"
        using Cons.prems by simp_all
      from Cons.IH [OF h(2,4) this, of "off0 + length (entry_bytes e)"]
      have "find_chr f (of_nat c) ptr (int i) = map_option (\<lambda>off. ptr + of_nat off - of_nat off0)
          (table_lookup es (off0 + length (entry_bytes e)) (c - (i + entry_span e)))"
        unfolding g by (simp add: algebra_simps)
      moreover have "table_lookup (e # es) off0 (c - i) =
          table_lookup es (off0 + length (entry_bytes e)) (c - (i + entry_span e))"
        using False ng by (cases e) auto
      ultimately show ?thesis by simp
    qed
  qed
qed simp


text \<open>
  C24. Looking up a glyph.  In a character table that is the encoding of a list of gaps and glyphs
  covering all code points, the search of ssfn_putc finds for every code point the glyph the
  list has for it, and nothing for a code point in a gap.
\<close>

theorem find_chr_decodes_table:
  assumes "holds f ptr (concat (map entry_bytes es))" "list_all entry_ok es"
    and "0x110000 \<le> sum_list (map entry_span es)" "c < 0x110000"
  shows "find_chr f (of_nat c) ptr 0 = map_option (\<lambda>off. ptr + of_nat off) (table_lookup es 0 c)"
  using find_chr_table [OF assms(4,1,2), of 0 0] assms(3,4) by simp

text \<open>A table with one glyph, for the letter A.\<close>

definition tiny_table :: "chr_entry list" where
  "tiny_table = [Gap_Short 63, Gap_Short 0, Glyph [0, 0, 8, 1, 8, 0]] @ replicate 17 Gap_Plane"

theorem find_chr_decodes_table_witness:
  "let f = (\<lambda>a. let bs = concat (map entry_bytes tiny_table) in if unat a < length bs then bs ! unat a else 0)
   in find_chr f 0x41 0 0 = Some 2 \<and> find_chr f 0x42 0 0 = None"
proof -
  let ?bs = "concat (map entry_bytes tiny_table)"
  let ?f = "\<lambda>a :: u64. if unat a < length ?bs then ?bs ! unat a else 0"
  have len: "length ?bs = 25" by (simp add: tiny_table_def length_concat map_replicate_const sum_list_replicate)
  have h: "holds ?f 0 ?bs" unfolding holds_def len by simp
  have ok: "list_all entry_ok tiny_table" "0x110000 \<le> sum_list (map entry_span tiny_table)"
    by (simp_all add: tiny_table_def list_all_iff sum_list_replicate)
  have "replicate 17 Gap_Plane = Gap_Plane # replicate 16 Gap_Plane" by (simp flip: replicate_Suc)
  then have l: "table_lookup tiny_table 0 0x41 = Some 2" "table_lookup tiny_table 0 0x42 = None"
    by (simp_all add: tiny_table_def)
  show ?thesis
    using find_chr_decodes_table [OF h ok, of "0x41"] find_chr_decodes_table [OF h ok, of "0x42"] l
    by (simp add: Let_def)
qed

section \<open>UTF-8\<close>

text \<open>The encoding of a code point below 2^21.\<close>

definition utf8 :: "nat \<Rightarrow> u8 list" where
  "utf8 c =
     (if c < 0x80 then [of_nat c]
      else if c < 0x800 then [of_nat (0xC0 + c div 64), of_nat (0x80 + c mod 64)]
      else if c < 0x10000 then [of_nat (0xE0 + c div 4096), of_nat (0x80 + c div 64 mod 64), of_nat (0x80 + c mod 64)]
      else [of_nat (0xF0 + c div 262144), of_nat (0x80 + c div 4096 mod 64), of_nat (0x80 + c div 64 mod 64),
            of_nat (0x80 + c mod 64)])"


lemma byte_flag: "(b :: u8) AND 128 \<noteq> 0 \<longleftrightarrow> bit b 7" "(b :: u8) AND 32 = 0 \<longleftrightarrow> \<not> bit b 5"
  "(b :: u8) AND 16 = 0 \<longleftrightarrow> \<not> bit b 4" "(b :: u8) AND 8 = 0 \<longleftrightarrow> \<not> bit b 3"
  using and_exp_eq_0_iff_not_bit [of b 7] and_exp_eq_0_iff_not_bit [of b 5] and_exp_eq_0_iff_not_bit [of b 4]
    and_exp_eq_0_iff_not_bit [of b 3] by simp_all

lemma bit_byte: "bit (of_nat n :: u8) i \<longleftrightarrow> i < 8 \<and> odd (n div 2 ^ i)"
  by (simp add: bit_of_nat_iff bit_iff_odd [of n i])

text \<open>The payload of a byte of the encoding.\<close>

lemma payload:
  assumes "h + q < 256" "q < 2 ^ k" "2 ^ k dvd h"
  shows "(ucast (of_nat (h + q) :: u8) :: u32) AND mask k = of_nat q"
proof -
  have "(ucast (of_nat (h + q) :: u8) :: u32) = of_nat (h + q)"
    using assms(1) by (simp only: unsigned_of_nat take_bit_nat_eq_self) (simp add: take_bit_nat_eq_self)
  then have "(ucast (of_nat (h + q) :: u8) :: u32) AND mask k = take_bit k (of_nat (h + q))"
    by (simp only: take_bit_eq_mask)
  also have "\<dots> = of_nat (take_bit k (h + q))" by (simp only: take_bit_of_nat)
  also have "take_bit k (h + q) = q" using assms(2,3) by (auto simp: take_bit_eq_mod elim!: dvdE)
  finally show ?thesis .
qed

lemma join:
  assumes "b < 2 ^ k" "a * 2 ^ k + b < 2 ^ 32"
  shows "push_bit k (of_nat a :: u32) OR of_nat b = of_nat (a * 2 ^ k + b)"
proof -
  have "push_bit k a OR b = a * 2 ^ k + b"
  proof -
    have b: "n < k" if "bit b n" for n using assms(1) that by (metis bit_take_bit_iff take_bit_nat_eq_self)
    have "\<not> bit (push_bit k a) n \<or> \<not> bit b n" for n
      using b [of n] by (cases "n < k") (auto simp: bit_push_bit_iff)
    then show ?thesis by (simp add: disjunctive_add push_bit_eq_mult)
  qed
  then show ?thesis by (metis of_nat_or_eq push_bit_of_nat)
qed


lemma masks: "(0x1F :: u32) = mask 5" "(0xF :: u32) = mask 4" "(7 :: u32) = mask 3" "(0x3F :: u32) = mask 6"
  by (simp_all add: mask_eq_exp_minus_1)

lemma tail_payload: "(ucast (of_nat (0x80 + q mod 64) :: u8) :: u32) AND 0x3F = of_nat (q mod 64)"
  unfolding masks by (rule payload) simp_all

lemma head_payload:
  "q < 32 \<Longrightarrow> (ucast (of_nat (0xC0 + q) :: u8) :: u32) AND 0x1F = of_nat q"
  "q < 16 \<Longrightarrow> (ucast (of_nat (0xE0 + q) :: u8) :: u32) AND 0xF = of_nat q"
  "q < 8 \<Longrightarrow> (ucast (of_nat (0xF0 + q) :: u8) :: u32) AND 7 = of_nat q"
  unfolding masks by - (rule payload; simp)+

text \<open>The flags of the first byte, by the length of the encoding.\<close>

lemma head_flags:
  "q < 128 \<Longrightarrow> \<not> (of_nat q :: u8) AND 128 \<noteq> 0"
  "q < 32 \<Longrightarrow> (of_nat (0xC0 + q) :: u8) AND 128 \<noteq> 0 \<and> (of_nat (0xC0 + q) :: u8) AND 32 = 0"
  "q < 16 \<Longrightarrow> (of_nat (0xE0 + q) :: u8) AND 128 \<noteq> 0 \<and> (of_nat (0xE0 + q) :: u8) AND 32 \<noteq> 0
     \<and> (of_nat (0xE0 + q) :: u8) AND 16 = 0"
  "q < 8 \<Longrightarrow> (of_nat (0xF0 + q) :: u8) AND 128 \<noteq> 0 \<and> (of_nat (0xF0 + q) :: u8) AND 32 \<noteq> 0
     \<and> (of_nat (0xF0 + q) :: u8) AND 16 \<noteq> 0 \<and> (of_nat (0xF0 + q) :: u8) AND 8 = 0"
proof -
  show "q < 128 \<Longrightarrow> \<not> (of_nat q :: u8) AND 128 \<noteq> 0" unfolding byte_flag bit_byte by simp
  show "(of_nat (0xC0 + q) :: u8) AND 128 \<noteq> 0 \<and> (of_nat (0xC0 + q) :: u8) AND 32 = 0" if "q < 32"
  proof -
    have "(192 + q) div 2 ^ 7 = 1" "(192 + q) div 2 ^ 5 = 6" using that by (auto intro: div_nat_eqI)
    then show ?thesis unfolding byte_flag bit_byte by simp
  qed
  show "(of_nat (0xE0 + q) :: u8) AND 128 \<noteq> 0 \<and> (of_nat (0xE0 + q) :: u8) AND 32 \<noteq> 0
     \<and> (of_nat (0xE0 + q) :: u8) AND 16 = 0" if "q < 16"
  proof -
    have "(224 + q) div 2 ^ 7 = 1" "(224 + q) div 2 ^ 5 = 7" "(224 + q) div 2 ^ 4 = 14"
      using that by (auto intro: div_nat_eqI)
    then show ?thesis unfolding byte_flag bit_byte by simp
  qed
  show "(of_nat (0xF0 + q) :: u8) AND 128 \<noteq> 0 \<and> (of_nat (0xF0 + q) :: u8) AND 32 \<noteq> 0
     \<and> (of_nat (0xF0 + q) :: u8) AND 16 \<noteq> 0 \<and> (of_nat (0xF0 + q) :: u8) AND 8 = 0" if "q < 8"
  proof -
    have "(240 + q) div 2 ^ 7 = 1" "(240 + q) div 2 ^ 5 = 7" "(240 + q) div 2 ^ 4 = 15" "(240 + q) div 2 ^ 3 = 30"
      using that by (auto intro: div_nat_eqI)
    then show ?thesis unfolding byte_flag bit_byte by simp
  qed
qed

text \<open>A code point put together from its digits in base 64.\<close>

lemma digits64:
  fixes c :: nat
  shows "c = c div 64 * 2 ^ 6 + c mod 64"
    and "c = c div 4096 * 2 ^ 12 + (c div 64 mod 64 * 2 ^ 6 + c mod 64)"
    and "c = c div 262144 * 2 ^ 18 + (c div 4096 mod 64 * 2 ^ 12 + (c div 64 mod 64 * 2 ^ 6 + c mod 64))"
proof -
  show one: "c = c div 64 * 2 ^ 6 + c mod 64" by simp
  have "c div 64 = c div 4096 * 64 + c div 64 mod 64" by (simp add: div_mult2_eq [of c 64 64, simplified])
  with one have "c = (c div 4096 * 64 + c div 64 mod 64) * 64 + c mod 64" by simp
  then show two: "c = c div 4096 * 2 ^ 12 + (c div 64 mod 64 * 2 ^ 6 + c mod 64)" by (simp add: add_mult_distrib)
  have "c div 4096 = c div 262144 * 64 + c div 4096 mod 64" by (simp add: div_mult2_eq [of c 4096 64, simplified])
  with two have "c = (c div 262144 * 64 + c div 4096 mod 64) * 2 ^ 12 + (c div 64 mod 64 * 2 ^ 6 + c mod 64)" by simp
  then show "c = c div 262144 * 2 ^ 18 + (c div 4096 mod 64 * 2 ^ 12 + (c div 64 mod 64 * 2 ^ 6 + c mod 64))"
    by (simp add: add_mult_distrib)
qed

lemma below64: "r * 2 ^ 12 + (u * 2 ^ 6 + v) < 2 ^ 18" "u * 2 ^ 6 + v < 2 ^ 12"
  if "r < 64" "u < 64" "v < 64" for r u v :: nat
  using that by simp_all

lemma joined:
  fixes c :: nat
  assumes "c < 0x200000"
  shows "push_bit 6 (of_nat (c div 64) :: u32) OR of_nat (c mod 64) = of_nat c"
    and "push_bit 12 (of_nat (c div 4096)) OR (push_bit 6 (of_nat (c div 64 mod 64)) OR of_nat (c mod 64)) = (of_nat c :: u32)"
    and "push_bit 18 (of_nat (c div 262144)) OR (push_bit 12 (of_nat (c div 4096 mod 64)) OR
      (push_bit 6 (of_nat (c div 64 mod 64)) OR of_nat (c mod 64))) = (of_nat c :: u32)"
proof -
  let ?r = "c div 4096 mod 64" and ?u = "c div 64 mod 64" and ?v = "c mod 64"
  have s: "?r < 64" "?u < 64" "?v < 64" by simp_all
  have c: "c < 2 ^ 32" using assms by simp
  have o: "push_bit k (of_nat a :: u32) OR of_nat b = of_nat c" if "c = a * 2 ^ k + b" "b < 2 ^ k" for a b k
    using that c by (subst join) simp_all
  have p6: "push_bit 6 (of_nat ?u :: u32) OR of_nat ?v = of_nat (?u * 2 ^ 6 + ?v)"
    by (intro join) (use s in simp_all)
  have p12: "push_bit 12 (of_nat ?r :: u32) OR of_nat (?u * 2 ^ 6 + ?v) = of_nat (?r * 2 ^ 12 + (?u * 2 ^ 6 + ?v))"
    by (intro join) (use s in simp_all)
  show "push_bit 6 (of_nat (c div 64) :: u32) OR of_nat ?v = of_nat c" by (rule o [OF digits64(1)]) simp
  show "push_bit 12 (of_nat (c div 4096)) OR (push_bit 6 (of_nat ?u) OR of_nat ?v) = (of_nat c :: u32)"
    unfolding p6 by (rule o [OF digits64(2) below64(2) [OF s]])
  show "push_bit 18 (of_nat (c div 262144)) OR (push_bit 12 (of_nat ?r) OR (push_bit 6 (of_nat ?u) OR of_nat ?v)) = (of_nat c :: u32)"
    unfolding p6 p12 by (rule o [OF digits64(3) below64(1) [OF s]])
qed

text \<open>
  C38. UTF-8 round trip: ssfn_utf8, at the encoding of a code point below 2^21, gives the code
  point back and moves the pointer to the byte behind the encoding.
\<close>

theorem ssfn_utf8_decodes:
  assumes "holds m s (utf8 c)" "c < 0x200000"
  shows "ssfn_utf8 m s = (of_nat c, s + of_nat (length (utf8 c)))"
proof -
  note j = joined [OF assms(2)] and go = ssfn_utf8_def Let_def simp_thms if_True if_False add_0_right tail_payload or.assoc
  consider "c < 0x80" | "0x80 \<le> c" "c < 0x800" | "0x800 \<le> c" "c < 0x10000" | "0x10000 \<le> c" by linarith
  then show ?thesis
  proof cases
    case 1
    then have "m s = of_nat c" using assms(1) by (simp add: utf8_def)
    with head_flags(1) [of c] 1 show ?thesis by (simp add: ssfn_utf8_def utf8_def take_bit_nat_eq_self unsigned_of_nat)
  next
    case 2
    have q: "c div 64 < 32" using 2 by (simp add: less_mult_imp_div_less)
    have m: "m s = of_nat (0xC0 + c div 64)" "m (s + 1) = of_nat (0x80 + c mod 64)" using assms(1) 2 by (simp_all add: utf8_def)
    have "of_nat (length (utf8 c)) = (2 :: u64)" using 2 by (simp add: utf8_def)
    then show ?thesis by (simp only: go m head_flags(2) [OF q] head_payload(1) [OF q] j(1)) simp
  next
    case 3
    have q: "c div 4096 < 16" using 3 by (simp add: less_mult_imp_div_less)
    have m: "m s = of_nat (0xE0 + c div 4096)" "m (s + 1) = of_nat (0x80 + c div 64 mod 64)" "m (s + 2) = of_nat (0x80 + c mod 64)"
      using assms(1) 3 by (simp_all add: utf8_def add.assoc)
    have "of_nat (length (utf8 c)) = (3 :: u64)" using 3 by (simp add: utf8_def)
    then show ?thesis by (simp only: go m head_flags(3) [OF q] head_payload(2) [OF q] j(2)) simp
  next
    case 4
    have q: "c div 262144 < 8" using assms(2) by (simp add: less_mult_imp_div_less)
    have m: "m s = of_nat (0xF0 + c div 262144)" "m (s + 1) = of_nat (0x80 + c div 4096 mod 64)"
      "m (s + 2) = of_nat (0x80 + c div 64 mod 64)" "m (s + 3) = of_nat (0x80 + c mod 64)"
      using assms(1) 4 by (simp_all add: utf8_def add.assoc)
    have "of_nat (length (utf8 c)) = (4 :: u64)" using 4 by (simp add: utf8_def)
    then show ?thesis by (simp only: go m head_flags(4) [OF q] head_payload(3) [OF q] j(3)) simp
  qed
qed

theorem ssfn_utf8_decodes_witness:
  "ssfn_utf8 (\<lambda>a. if unat a < 3 then [0xE2, 0x82, 0xAC] ! unat a else 0) 0 = (0x20AC, 3)"
  using ssfn_utf8_decodes [of "\<lambda>a. if unat a < 3 then [0xE2, 0x82, 0xAC] ! unat a else 0" 0 "0x20AC"]
  by (simp add: utf8_def)

end
