(* ===== verification/Printf_Total.thy ===== *)
theory Printf_Total
  imports Printf_Render
begin

text \<open>
  printf always comes to an end.  _ftoa and _etoa call each other; that the chain of calls is
  short rests on the scaling of _etoa: whatever finite value it gets, the value it hands back
  to _ftoa is below 4096, far within the range _ftoa prints itself.  The proof follows the
  approximation of the power of ten with the rounding of every operation.
\<close>

section \<open>Rounding\<close>

text \<open>The error of rounding to nearest is at most half a unit of the last place.\<close>

lemma round_half_even_error: "\<bar>of_int (round_half_even x) - x\<bar> \<le> (1/2 :: rat)"
proof -
  define r where "r = x - of_int \<lfloor>x\<rfloor>"
  have "0 \<le> r" "r < 1" "x = of_int \<lfloor>x\<rfloor> + r" using floor_correct [of x] by (simp_all add: r_def)
  then show ?thesis by (auto simp: round_half_even_def Let_def abs_if)
qed

lemma round_half_even_ge:
  assumes "of_int n \<le> x" shows "n \<le> round_half_even x"
proof -
  have "n \<le> \<lfloor>x\<rfloor>" using assms by (simp add: le_floor_iff)
  then show ?thesis by (auto simp: round_half_even_def Let_def)
qed

lemma round_pos_error:
  assumes "0 < x" "x < pow2 20" shows "\<bar>round_pos x - x\<bar> \<le> 1 / 2 ^ 33"
proof -
  define u where "u = max (exponent x - 52) (- 1074)"
  have "pow2 (exponent x) < pow2 20" using exponent_bounds(1) [OF assms(1)] assms(2) by linarith
  then have "exponent x < 20" by (simp add: pow2_less_iff)
  then have u: "u \<le> - 32" by (simp add: u_def)
  have p: "pow2 u \<noteq> 0" using pow2_pos [of u] by linarith
  have "round_pos x - x = (of_int (round_half_even (x / pow2 u)) - x / pow2 u) * pow2 u"
    using p by (simp add: round_pos_def u_def [symmetric] Let_def left_diff_distrib)
  then have "\<bar>round_pos x - x\<bar> = \<bar>of_int (round_half_even (x / pow2 u)) - x / pow2 u\<bar> * pow2 u"
    by (simp add: abs_mult less_imp_le)
  also have "\<dots> \<le> 1/2 * pow2 u" by (intro mult_right_mono round_half_even_error) (simp add: less_imp_le)
  also have "\<dots> \<le> 1/2 * pow2 (- 32)" using pow2_mono [OF u] by simp
  also have "\<dots> = 1 / 2 ^ 33" by (simp add: pow2_def)
  finally show ?thesis .
qed

lemma round64_near:
  assumes "\<bar>x\<bar> < 1000000"
  obtains y where "round64 x = Fin y" "x - 1 / 1000000 \<le> y" "y \<le> x + 1 / 1000000"
proof (cases "x = 0")
  case True
  then show ?thesis using that [of 0] by (simp add: round64_def)
next
  case False
  have "(1000000 :: rat) \<le> pow2 20" by (simp add: pow2_def)
  with assms have "\<bar>x\<bar> < pow2 20" by linarith
  from round_pos_error [OF _ this] False have e: "\<bar>round_pos \<bar>x\<bar> - \<bar>x\<bar>\<bar> \<le> 1 / 2 ^ 33" by simp
  have "pow2 21 \<le> pow2 1024" by (rule pow2_mono) simp
  moreover have "pow2 21 = (2097152 :: rat)" by (simp add: pow2_def)
  moreover have "(1 :: rat) / 2 ^ 33 \<le> 1" by simp
  ultimately have "round_pos \<bar>x\<bar> < pow2 1024" using assms e by linarith
  then have r: "round64 x = Fin (if x < 0 then - round_pos \<bar>x\<bar> else round_pos \<bar>x\<bar>)"
    using False by (simp add: round64_def Let_def)
  have "(1 :: rat) / 2 ^ 33 \<le> 1 / 1000000" by simp
  with e have "\<bar>round_pos \<bar>x\<bar> - \<bar>x\<bar>\<bar> \<le> 1 / 1000000" by linarith
  then have "x - 1 / 1000000 \<le> (if x < 0 then - round_pos \<bar>x\<bar> else round_pos \<bar>x\<bar>)"
    "(if x < 0 then - round_pos \<bar>x\<bar> else round_pos \<bar>x\<bar>) \<le> x + 1 / 1000000"
    unfolding abs_le_iff by (cases "x < 0"; simp)+
  then show ?thesis by (rule that [OF r])
qed

text \<open>A power of two below the value stays below its rounding.\<close>

lemma round64_ge_pow2:
  assumes "pow2 j \<le> x" "- 1074 \<le> j"
  shows "round64 x = Infinite False \<or> (\<exists>y. round64 x = Fin y \<and> pow2 j \<le> y)"
proof -
  have x0: "0 < x" using assms(1) pow2_pos [of j] by linarith
  define u where "u = max (exponent x - 52) (- 1074)"
  have p: "0 < pow2 u" "pow2 u \<noteq> 0" using less_imp_neq [OF pow2_pos [of u], symmetric] by simp_all
  have "pow2 j < pow2 (exponent x + 1)" using exponent_bounds(2) [OF x0] assms(1) by linarith
  then have je: "j \<le> exponent x" by (simp add: pow2_less_iff)
  have "pow2 j \<le> round_pos x"
  proof (cases "u \<le> j")
    case True
    then have k: "pow2 j / pow2 u = of_int (2 ^ nat (j - u))" by (simp add: pow2_diff [symmetric] pow2_nat)
    then have "of_int (2 ^ nat (j - u)) \<le> x / pow2 u" using assms(1) p by (metis divide_right_mono less_imp_le)
    then have "2 ^ nat (j - u) \<le> round_half_even (x / pow2 u)" by (rule round_half_even_ge)
    then have "pow2 j / pow2 u \<le> of_int (round_half_even (x / pow2 u))" unfolding k by (simp only: of_int_le_iff)
    then have "pow2 j \<le> of_int (round_half_even (x / pow2 u)) * pow2 u" using p by (simp add: pos_divide_le_eq)
    then show ?thesis by (simp add: round_pos_def u_def [symmetric] Let_def)
  next
    case False
    then have ue: "u = exponent x - 52" and ju: "j \<le> u" using assms(2) by (auto simp: u_def max_def split: if_splits)
    have "of_int 1 \<le> x / pow2 u"
      using exponent_bounds(1) [OF x0] pow2_mono [of u "exponent x"] p by (simp add: ue pos_le_divide_eq)
    then have "1 \<le> round_half_even (x / pow2 u)" by (rule round_half_even_ge)
    then have "1 * pow2 u \<le> of_int (round_half_even (x / pow2 u)) * pow2 u"
      using p by (intro mult_right_mono) (simp_all add: less_imp_le)
    then show ?thesis using pow2_mono [OF ju] unfolding round_pos_def u_def [symmetric] Let_def by linarith
  qed
  with x0 show ?thesis by (auto simp: round64_def Let_def)
qed

section \<open>The bits of a value\<close>

text \<open>Exponent and fraction of a packed double.\<close>

lemma packed_double:
  fixes a m :: int
  assumes "0 \<le> a" "a < 2048" "0 \<le> m" "m < 2 ^ 52"
  defines "w \<equiv> (push_bit 52 (word_of_int a) OR word_of_int m :: u64)"
  shows "\<not> bit w 63" "uint (drop_bit 52 w AND 0x7FF) = a" "uint (w AND 0xFFFFFFFFFFFFF) = m"
    "w AND 0xFFFFFFFFFFFFF = word_of_int m"
proof -
  have "take_bit 11 a = a" "take_bit 52 m = m" using assms(1-4) by (intro take_bit_int_eq_self; simp)+
  then have ab: "bit a n \<Longrightarrow> n < 11" and mb: "bit m n \<Longrightarrow> n < 52" for n by (metis bit_take_bit_iff)+
  show "\<not> bit w 63" using ab [of 11] mb [of 63] by (auto simp: w_def bit_or_iff bit_push_bit_iff bit_word_of_int_iff)
  have e: "drop_bit 52 w AND 0x7FF = word_of_int a"
  proof -
    have k: "(0x7FF :: u64) = mask 11" by (simp add: mask_eq_exp_minus_1)
    show ?thesis unfolding k
      by (rule bit_word_eqI) (auto simp: w_def bit_or_iff bit_and_iff bit_mask_iff bit_drop_bit_eq bit_push_bit_iff bit_word_of_int_iff dest: ab mb)
  qed
  show "uint (drop_bit 52 w AND 0x7FF) = a" unfolding e using assms(1,2) by (simp add: uint_word_of_int_eq take_bit_int_eq_self)
  show f: "w AND 0xFFFFFFFFFFFFF = word_of_int m"
  proof -
    have k: "(0xFFFFFFFFFFFFF :: u64) = mask 52" by (simp add: mask_eq_exp_minus_1)
    show ?thesis unfolding k
      by (rule bit_word_eqI) (auto simp: w_def bit_or_iff bit_and_iff bit_mask_iff bit_push_bit_iff bit_word_of_int_iff dest: mb)
  qed
  show "uint (w AND 0xFFFFFFFFFFFFF) = m" unfolding f using assms(3,4) by (simp add: uint_word_of_int_eq take_bit_int_eq_self)
qed

lemma of_bits_packed:
  assumes "1 \<le> a" "a < 2047" "0 \<le> m" "m < 2 ^ 52"
  shows "of_bits (push_bit 52 (word_of_int a) OR word_of_int m) = Fin (of_int (m + 2 ^ 52) * pow2 (a - 1075))"
proof -
  have "0 \<le> a" "a < 2048" using assms(1,2) by simp_all
  note p = packed_double [OF this assms(3,4)]
  show ?thesis using p assms(1,2) by (simp add: of_bits_def Let_def)
qed

text \<open>The significand of any value, between 1 and 2.\<close>

lemma significand:
  obtains f where "of_bits ((U AND 0xFFFFFFFFFFFFF) OR push_bit 52 1023) = Fin f" "1 \<le> f" "f < 2"
proof -
  define m where "m = uint (U AND 0xFFFFFFFFFFFFF)"
  have k: "(0xFFFFFFFFFFFFF :: u64) = mask 52" by (simp add: mask_eq_exp_minus_1)
  have m: "0 \<le> m" "m < 2 ^ 52"
  proof -
    have "uint (U AND mask 52) = take_bit 52 (uint U)" by (simp add: take_bit_eq_mask [symmetric] unsigned_take_bit_eq)
    then show "0 \<le> m" "m < 2 ^ 52" using take_bit_int_less_exp [of 52 "uint U"] unfolding m_def k by simp_all
  qed
  have u: "U AND 0xFFFFFFFFFFFFF = word_of_int m" by (simp add: m_def)
  have "of_bits (push_bit 52 (word_of_int 1023) OR word_of_int m) = Fin (of_int (m + 2 ^ 52) * pow2 (1023 - 1075))"
    by (rule of_bits_packed) (use m in simp_all)
  then have "of_bits ((U AND 0xFFFFFFFFFFFFF) OR push_bit 52 1023) = Fin (of_int (m + 2 ^ 52) * pow2 (- 52))"
    unfolding u by (simp add: or.commute)
  moreover have "1 \<le> of_int (m + 2 ^ 52) * pow2 (- 52)" "of_int (m + 2 ^ 52) * pow2 (- 52) < 2"
  proof -
    have p: "pow2 (- 52) = 1 / 2 ^ 52" by (simp add: pow2_def)
    have "(of_int (2 ^ 52) :: rat) \<le> of_int (m + 2 ^ 52)" "(of_int (m + 2 ^ 52) :: rat) < of_int (2 * 2 ^ 52)"
      unfolding of_int_le_iff of_int_less_iff using m by simp_all
    then show "1 \<le> of_int (m + 2 ^ 52) * pow2 (- 52)" "of_int (m + 2 ^ 52) * pow2 (- 52) < 2" unfolding p by simp_all
  qed
  ultimately show ?thesis using that by blast
qed

lemma to_bits_exponent:
  assumes "0 \<le> v" "v \<le> (2 - pow2 (- 52)) * pow2 1023"
  obtains k where "uint (drop_bit 52 (to_bits (Fin v)) AND 0x7FF) - 1023 = k" "- 1023 \<le> k" "k \<le> 1023" "v < pow2 (k + 1)"
proof (cases "v < pow2 (- 1022)")
  case True
  define n where "n = (if v = 0 then 0 else \<lfloor>v / pow2 (- 1074)\<rfloor>)"
  have p: "0 < pow2 (- 1074)" "pow2 (- 1022) = pow2 52 * pow2 (- 1074)" by (simp_all add: pow2_add [symmetric])
  have "v / pow2 (- 1074) < of_int (2 ^ 52)" using True p by (simp add: pos_divide_less_eq pow2_nat)
  then have n: "0 \<le> n" "n < 2 ^ 52" using assms(1) p(1) by (simp_all add: n_def floor_less_iff less_imp_le)
  have u: "to_bits (Fin v) = push_bit 52 (word_of_int 0) OR word_of_int n" using True by (simp add: n_def)
  have "uint (drop_bit 52 (push_bit 52 (word_of_int 0) OR word_of_int n :: u64) AND 0x7FF) = 0"
    by (rule packed_double(2)) (use n in simp_all)
  then show ?thesis using that [of "- 1023"] True unfolding u by simp
next
  case False
  then have v0: "0 < v" using pow2_pos [of "- 1022"] by linarith
  define e where "e = exponent v"
  note eb = exponent_bounds [OF v0, folded e_def]
  have "pow2 (- 1022) < pow2 (e + 1)" using False eb(2) by linarith
  then have e1: "- 1022 \<le> e" by (simp add: pow2_less_iff)
  have "(2 - pow2 (- 52)) * pow2 1023 < 2 * pow2 1023" by (intro mult_strict_right_mono) simp_all
  also have "2 * pow2 1023 = pow2 1024" using pow2_add [of 1 1023] by simp
  finally have "pow2 e < pow2 1024" using eb(1) assms(2) by linarith
  then have e2: "e \<le> 1023" by (simp add: pow2_less_iff)
  define m where "m = \<lfloor>v / pow2 (e - 52)\<rfloor> - 2 ^ 52"
  have p: "0 < pow2 (e - 52)" "pow2 e = of_int (2 ^ 52) * pow2 (e - 52)" "pow2 (e + 1) = of_int (2 * 2 ^ 52) * pow2 (e - 52)"
    using pow2_add [of 52 "e - 52"] pow2_add [of 53 "e - 52"] by (simp_all add: pow2_nat add.commute)
  have "of_int (2 ^ 52) \<le> v / pow2 (e - 52)" "v / pow2 (e - 52) < of_int (2 * 2 ^ 52)"
    using eb p by (simp_all only: pos_le_divide_eq pos_divide_less_eq)
  then have "2 ^ 52 \<le> \<lfloor>v / pow2 (e - 52)\<rfloor>" "\<lfloor>v / pow2 (e - 52)\<rfloor> < 2 * 2 ^ 52"
    by (simp_all only: le_floor_iff floor_less_iff)
  then have m: "0 \<le> m" "m < 2 ^ 52" unfolding m_def by simp_all
  have u: "to_bits (Fin v) = push_bit 52 (word_of_int (e + 1023)) OR word_of_int m"
    using False v0 by (simp add: m_def e_def Let_def)
  have "uint (drop_bit 52 (push_bit 52 (word_of_int (e + 1023)) OR word_of_int m :: u64) AND 0x7FF) = e + 1023"
    by (rule packed_double(2)) (use m e1 e2 in simp_all)
  then show ?thesis using that [of e] e1 e2 eb(2) unfolding u by simp
qed

section \<open>The power of ten\<close>

text \<open>The constants of the approximation, as they are rounded.\<close>

lemma dec_log: "dec (1760912590558 / 10 ^ 13) = Fin (6344356229335219 / 36028797018963968)"
proof -
  have "\<lfloor>7744575475262718352556032 / 1220703125 :: rat\<rfloor> = 6344356229335218" by (simp add: floor_eq_iff)
  then have "round_half_even (7744575475262718352556032 / 1220703125) = 6344356229335219" by (simp add: round_half_even_def)
  then show ?thesis using round64_eqI [of "1760912590558 / 10 ^ 13" "-3" "6344356229335219"] by (simp add: pow2_def dec_def)
qed

lemma dec_log_2: "dec (301029995663981 / 10 ^ 15) = Fin (5422874305198587 / 18014398509481984)"
proof -
  have "\<lfloor>165492990270952985621168128 / 30517578125 :: rat\<rfloor> = 5422874305198587" by (simp add: floor_eq_iff)
  then have "round_half_even (165492990270952985621168128 / 30517578125) = 5422874305198587" by (simp add: round_half_even_def)
  then show ?thesis using round64_eqI [of "301029995663981 / 10 ^ 15" "-2" "5422874305198587"] by (simp add: pow2_def dec_def)
qed

lemma dec_slope: "dec (289529654602168 / 10 ^ 15) = Fin (5215702578316129 / 18014398509481984)"
proof -
  have "\<lfloor>159170610910526393689309184 / 30517578125 :: rat\<rfloor> = 5215702578316128" by (simp add: floor_eq_iff)
  then have "round_half_even (159170610910526393689309184 / 30517578125) = 5215702578316129" by (simp add: round_half_even_def)
  then show ?thesis using round64_eqI [of "289529654602168 / 10 ^ 15" "-2" "5215702578316129"] by (simp add: pow2_def dec_def)
qed

lemma dec_log2_10: "dec (3321928094887362 / 10 ^ 15) = Fin (7480317065143153 / 2251799813685248)"
proof -
  have "\<lfloor>228281160435276873499410432 / 30517578125 :: rat\<rfloor> = 7480317065143152" by (simp add: floor_eq_iff)
  then have "round_half_even (228281160435276873499410432 / 30517578125) = 7480317065143153" by (simp add: round_half_even_def)
  then show ?thesis using round64_eqI [of "3321928094887362 / 10 ^ 15" "1" "7480317065143153"] by (simp add: pow2_def dec_def)
qed

lemma dec_ln_10: "dec (2302585092994046 / 10 ^ 15) = Fin (2592480341699211 / 1125899906842624)"
proof -
  have "\<lfloor>158232442730664740683513856 / 30517578125 :: rat\<rfloor> = 5184960683398422" by (simp add: floor_eq_iff)
  then have "round_half_even (158232442730664740683513856 / 30517578125) = 5184960683398422" by (simp add: round_half_even_def)
  then show ?thesis using round64_eqI [of "2302585092994046 / 10 ^ 15" "1" "5184960683398422"] by (simp add: pow2_def dec_def)
qed

lemma dec_ln_2: "dec (6931471805599453 / 10 ^ 16) = Fin (6243314768165359 / 9007199254740992)"
proof -
  have "\<lfloor>952654230982263049935650816 / 152587890625 :: rat\<rfloor> = 6243314768165359" by (simp add: floor_eq_iff)
  then have "round_half_even (952654230982263049935650816 / 152587890625) = 6243314768165359" by (simp add: round_half_even_def)
  then show ?thesis using round64_eqI [of "6931471805599453 / 10 ^ 16" "-1" "6243314768165359"] by (simp add: pow2_def dec_def)
qed

lemmas dec_constants = dec_log dec_log_2 dec_slope dec_log2_10 dec_ln_10 dec_ln_2

lemma trunc_near: "x - 1 < of_int (trunc_d (Fin x))" "of_int (trunc_d (Fin x)) < x + 1"
  "x < 0 \<Longrightarrow> x \<le> of_int (trunc_d (Fin x))" "0 \<le> x \<Longrightarrow> of_int (trunc_d (Fin x)) \<le> x"
  using floor_correct [of x] floor_correct [of "- x"] by (auto simp del: of_int_floor_le)

lemma sub_d_Fin: "sub_d (Fin x) (Fin y) = round64 (x - y)"
  by (simp add: sub_d_def)

lemma of_int_small: "\<bar>k\<bar> \<le> 2000 \<Longrightarrow> of_int_d k = Fin (of_int k)"
  by (rule of_int_d_exact) simp

text \<open>The decimal exponent that is guessed from the binary one.\<close>

lemma scale_exponent:
  assumes "- 1023 \<le> k" "k \<le> 1023" "1 \<le> f" "f < 2"
  defines "ev \<equiv> trunc_d (add_d (add_d (dec (1760912590558 / 10 ^ 13)) (mul_d (of_int_d k) (dec (301029995663981 / 10 ^ 15))))
                              (mul_d (sub_d (Fin f) (Fin (3/2))) (dec (289529654602168 / 10 ^ 15))))"
  shows "- 307 \<le> ev" "ev \<le> 308" "30103 / 100000 * of_int k - 98 / 100 < (of_int ev :: rat)"
proof -
  define kk where "kk = (of_int k :: rat)"
  have "(of_int (- 1023) :: rat) \<le> kk" "kk \<le> of_int 1023" unfolding kk_def of_int_le_iff using assms(1,2) by simp_all
  then have kk: "- 1023 \<le> kk" "kk \<le> 1023" by simp_all
  have ik: "of_int_d k = Fin kk" using of_int_small [of k] assms(1,2) by (simp add: kk_def)
  let ?c0 = "6344356229335219 / 36028797018963968 :: rat"
  let ?c1 = "5422874305198587 / 18014398509481984 :: rat"
  let ?c2 = "5215702578316129 / 18014398509481984 :: rat"
  obtain y1 where y1: "round64 (kk * ?c1) = Fin y1" "kk * ?c1 - 1 / 1000000 \<le> y1" "y1 \<le> kk * ?c1 + 1 / 1000000"
    by (rule round64_near [of "kk * ?c1"]) (use kk in \<open>simp add: abs_less_iff\<close>)
  obtain y2 where y2: "round64 (?c0 + y1) = Fin y2" "(?c0 + y1) - 1 / 1000000 \<le> y2" "y2 \<le> (?c0 + y1) + 1 / 1000000"
    by (rule round64_near [of "?c0 + y1"]) (use kk y1(2,3) in \<open>simp add: abs_less_iff\<close>)
  obtain y3 where y3: "round64 (f - 3/2) = Fin y3" "(f - 3/2) - 1 / 1000000 \<le> y3" "y3 \<le> (f - 3/2) + 1 / 1000000"
    by (rule round64_near [of "f - 3/2"]) (use assms(3,4) in \<open>simp add: abs_less_iff\<close>)
  have b3: "- 51 / 100 \<le> y3" "y3 \<le> 51 / 100" using y3(2,3) assms(3,4) by linarith+
  obtain y4 where y4: "round64 (y3 * ?c2) = Fin y4" "y3 * ?c2 - 1 / 1000000 \<le> y4" "y4 \<le> y3 * ?c2 + 1 / 1000000"
    by (rule round64_near [of "y3 * ?c2"]) (use b3 in \<open>simp add: abs_less_iff\<close>)
  have b2: "?c0 + kk * ?c1 - 1 / 100000 \<le> y2" "y2 \<le> ?c0 + kk * ?c1 + 1 / 100000" using y2(2,3) y1(2,3) by linarith+
  have b4: "- 148 / 1000 \<le> y4" "y4 \<le> 148 / 1000" using y4(2,3) b3 by linarith+
  obtain y5 where y5: "round64 (y2 + y4) = Fin y5" "(y2 + y4) - 1 / 1000000 \<le> y5" "y5 \<le> (y2 + y4) + 1 / 1000000"
    by (rule round64_near [of "y2 + y4"]) (use kk b2 b4 in \<open>simp add: abs_less_iff\<close>)
  have b5: "30103 / 100000 * kk + 2 / 100 \<le> y5" "y5 \<le> 30103 / 100000 * kk + 33 / 100"
    using y5(2,3) b2 b4 kk by linarith+
  have "ev = trunc_d (Fin y5)"
    using y1(1) y2(1) y3(1) y4(1) y5(1) by (simp only: ev_def dec_constants ik sub_d_Fin add_d.simps mul_d.simps)
  with trunc_near [of y5] have t: "y5 - 1 < of_int ev" "of_int ev < y5 + 1" "y5 < 0 \<Longrightarrow> y5 \<le> of_int ev" "0 \<le> y5 \<Longrightarrow> of_int ev \<le> y5"
    by simp_all
  show "30103 / 100000 * of_int k - 98 / 100 < (of_int ev :: rat)" using t(1) b5(1) unfolding kk_def by linarith
  have "(of_int (- 308) :: rat) < of_int ev" using t(1,3) b5(1) kk by (cases "y5 < 0") simp_all
  then show "- 307 \<le> ev" unfolding of_int_less_iff by simp
  have "(of_int ev :: rat) < of_int 309" using t(2,4) b5(2) kk by (cases "y5 < 0") simp_all
  then show "ev \<le> 308" unfolding of_int_less_iff by simp
qed

text \<open>The binary exponent of the power of ten.\<close>

lemma scale_binary:
  assumes "- 307 \<le> ev" "ev \<le> 308"
  defines "e2 \<equiv> trunc_d (add_d (mul_d (of_int_d ev) (dec (3321928094887362 / 10 ^ 15))) (Fin (1/2)))"
  shows "- 1022 \<le> e2" "e2 \<le> 1023" "33219280949 / 10000000000 * of_int ev - 51 / 100 < (of_int e2 :: rat)"
    "(of_int e2 :: rat) < 33219280949 / 10000000000 * of_int ev + 151 / 100"
proof -
  define x where "x = (of_int ev :: rat)"
  have "(of_int (- 307) :: rat) \<le> x" "x \<le> of_int 308" unfolding x_def of_int_le_iff using assms(1,2) by simp_all
  then have x: "- 307 \<le> x" "x \<le> 308" by simp_all
  have ix: "of_int_d ev = Fin x" using of_int_small [of ev] assms(1,2) by (simp add: x_def)
  let ?c = "7480317065143153 / 2251799813685248 :: rat"
  obtain y1 where y1: "round64 (x * ?c) = Fin y1" "x * ?c - 1 / 1000000 \<le> y1" "y1 \<le> x * ?c + 1 / 1000000"
    by (rule round64_near [of "x * ?c"]) (use x in \<open>simp add: abs_less_iff\<close>)
  obtain y2 where y2: "round64 (y1 + 1/2) = Fin y2" "(y1 + 1/2) - 1 / 1000000 \<le> y2" "y2 \<le> (y1 + 1/2) + 1 / 1000000"
    by (rule round64_near [of "y1 + 1/2"]) (use x y1(2,3) in \<open>simp add: abs_less_iff\<close>)
  have b2: "33219280949 / 10000000000 * x + 1/2 - 1 / 1000 \<le> y2" "y2 \<le> 33219280949 / 10000000000 * x + 1/2 + 1 / 1000"
    using y2(2,3) y1(2,3) x by linarith+
  have "e2 = trunc_d (Fin y2)" using y1(1) y2(1) by (simp only: e2_def dec_constants ix add_d.simps mul_d.simps)
  with trunc_near [of y2] have t: "y2 - 1 < of_int e2" "of_int e2 < y2 + 1" "0 \<le> y2 \<Longrightarrow> of_int e2 \<le> y2" by simp_all
  show "33219280949 / 10000000000 * of_int ev - 51 / 100 < (of_int e2 :: rat)"
    "(of_int e2 :: rat) < 33219280949 / 10000000000 * of_int ev + 151 / 100"
    using t(1,2) b2 unfolding x_def by linarith+
  have "(of_int (- 1023) :: rat) < of_int e2" using t(1) b2(1) x by simp
  then show "- 1022 \<le> e2" unfolding of_int_less_iff by simp
  have "(of_int e2 :: rat) < of_int 1024" using t(2,3) b2(2) x by (cases "0 \<le> y2") simp_all
  then show "e2 \<le> 1023" unfolding of_int_less_iff by simp
qed

text \<open>What is left of the power of ten after its binary exponent.\<close>

lemma scale_rest:
  assumes "- 307 \<le> ev" "ev \<le> 308" "- 1022 \<le> e2" "e2 \<le> 1023"
    "33219280949 / 10000000000 * of_int ev - 51 / 100 < (of_int e2 :: rat)"
    "(of_int e2 :: rat) < 33219280949 / 10000000000 * of_int ev + 151 / 100"
  obtains z where "sub_d (mul_d (of_int_d ev) (dec (2302585092994046 / 10 ^ 15)))
      (mul_d (of_int_d e2) (dec (6931471805599453 / 10 ^ 16))) = Fin z" "- 21 / 20 \<le> z" "z \<le> 2 / 5"
proof -
  define x where "x = (of_int ev :: rat)"
  define e where "e = (of_int e2 :: rat)"
  have "(of_int (- 307) :: rat) \<le> x" "x \<le> of_int 308" "(of_int (- 1022) :: rat) \<le> e" "e \<le> of_int 1023"
    unfolding x_def e_def of_int_le_iff using assms(1-4) by simp_all
  then have b: "- 307 \<le> x" "x \<le> 308" "- 1022 \<le> e" "e \<le> 1023" by simp_all
  have i: "of_int_d ev = Fin x" "of_int_d e2 = Fin e"
    using of_int_small [of ev] of_int_small [of e2] assms(1-4) by (simp_all add: x_def e_def)
  let ?c = "2592480341699211 / 1125899906842624 :: rat"
  let ?d = "6243314768165359 / 9007199254740992 :: rat"
  obtain y1 where y1: "round64 (x * ?c) = Fin y1" "x * ?c - 1 / 1000000 \<le> y1" "y1 \<le> x * ?c + 1 / 1000000"
    by (rule round64_near [of "x * ?c"]) (use b in \<open>simp add: abs_less_iff\<close>)
  obtain y2 where y2: "round64 (e * ?d) = Fin y2" "e * ?d - 1 / 1000000 \<le> y2" "y2 \<le> e * ?d + 1 / 1000000"
    by (rule round64_near [of "e * ?d"]) (use b in \<open>simp add: abs_less_iff\<close>)
  have d: "- 1049 / 1000 \<le> y1 - y2" "y1 - y2 \<le> 39 / 100"
    using y1(2,3) y2(2,3) b assms(5,6) unfolding x_def [symmetric] e_def [symmetric] by linarith+
  obtain z where z: "round64 (y1 - y2) = Fin z" "y1 - y2 - 1 / 1000000 \<le> z" "z \<le> y1 - y2 + 1 / 1000000"
    by (rule round64_near [of "y1 - y2"]) (use d in \<open>simp add: abs_less_iff\<close>)
  have "- 21 / 20 \<le> z" "z \<le> 2 / 5" using z(2,3) d by linarith+
  moreover have "sub_d (mul_d (of_int_d ev) (dec (2302585092994046 / 10 ^ 15)))
      (mul_d (of_int_d e2) (dec (6931471805599453 / 10 ^ 16))) = Fin z"
    using y1(1) y2(1) z(1) by (simp only: dec_constants i sub_d_Fin mul_d.simps)
  ultimately show ?thesis using that by blast
qed

text \<open>A quotient by a value that is at least 1.\<close>

lemma quotient_ge: "- a * y \<le> x \<Longrightarrow> 1 \<le> (y :: rat) \<Longrightarrow> - a \<le> x / y"
  by (simp add: pos_le_divide_eq)

lemma quotient_le: "x \<le> b * y \<Longrightarrow> 1 \<le> (y :: rat) \<Longrightarrow> x / y \<le> b"
  by (simp add: pos_divide_le_eq)

text \<open>The continued fraction of the exponential function stays away from 0.\<close>

lemma scale_factor:
  assumes "- 21 / 20 \<le> z" "z \<le> 2 / 5"
  defines "z2 \<equiv> mul_d (Fin z) (Fin z)"
  obtains E where "add_d (Fin 1) (div_d (mul_d (Fin 2) (Fin z))
      (add_d (sub_d (Fin 2) (Fin z)) (div_d z2 (add_d (Fin 6) (div_d z2 (add_d (Fin 10) (div_d z2 (Fin 14)))))))) = Fin E"
    "1 / 8 \<le> E"
proof -
  let ?e = "1 / 1000000 :: rat"
  have "z * z = \<bar>z\<bar> * \<bar>z\<bar>" by (simp add: abs_mult [symmetric])
  also have "\<dots> \<le> 21 / 20 * (21 / 20)" by (intro mult_mono) (use assms(1,2) in auto)
  finally have q: "0 \<le> z * z" "z * z \<le> 441 / 400" by simp_all
  obtain s where s: "round64 (z * z) = Fin s" "z * z - ?e \<le> s" "s \<le> z * z + ?e"
    by (rule round64_near [of "z * z"]) (use q in \<open>simp add: abs_less_iff\<close>)
  have s': "- ?e \<le> s" "s \<le> 12 / 10" using s(2,3) q by linarith+
  obtain d1 where d1: "round64 (s / 14) = Fin d1" "s / 14 - ?e \<le> d1" "d1 \<le> s / 14 + ?e"
    by (rule round64_near [of "s / 14"]) (use s' in \<open>simp add: abs_less_iff\<close>)
  have b1: "- 2 * ?e \<le> d1" "d1 \<le> 1" using d1(2,3) s' by linarith+
  obtain s1 where s1: "round64 (10 + d1) = Fin s1" "10 + d1 - ?e \<le> s1" "s1 \<le> 10 + d1 + ?e"
    by (rule round64_near [of "10 + d1"]) (use b1 in \<open>simp add: abs_less_iff\<close>)
  have c1: "9 \<le> s1" "s1 \<le> 12" using s1(2,3) b1 by linarith+
  have f2: "- ?e \<le> s / s1" "s / s1 \<le> 1" by - (rule quotient_ge quotient_le; use s' c1 in linarith)+
  obtain d2 where d2: "round64 (s / s1) = Fin d2" "s / s1 - ?e \<le> d2" "d2 \<le> s / s1 + ?e"
    by (rule round64_near [of "s / s1"]) (use f2 in \<open>simp add: abs_less_iff\<close>)
  have b2: "- 2 * ?e \<le> d2" "d2 \<le> 2" using d2(2,3) f2 by linarith+
  obtain s2 where s2: "round64 (6 + d2) = Fin s2" "6 + d2 - ?e \<le> s2" "s2 \<le> 6 + d2 + ?e"
    by (rule round64_near [of "6 + d2"]) (use b2 in \<open>simp add: abs_less_iff\<close>)
  have c2: "5 \<le> s2" "s2 \<le> 9" using s2(2,3) b2 by linarith+
  have f3: "- ?e \<le> s / s2" "s / s2 \<le> 1" by - (rule quotient_ge quotient_le; use s' c2 in linarith)+
  obtain d3 where d3: "round64 (s / s2) = Fin d3" "s / s2 - ?e \<le> d3" "d3 \<le> s / s2 + ?e"
    by (rule round64_near [of "s / s2"]) (use f3 in \<open>simp add: abs_less_iff\<close>)
  have b3: "- 2 * ?e \<le> d3" "d3 \<le> 2" using d3(2,3) f3 by linarith+
  obtain a where a: "round64 (2 - z) = Fin a" "2 - z - ?e \<le> a" "a \<le> 2 - z + ?e"
    by (rule round64_near [of "2 - z"]) (use assms(1,2) in \<open>simp add: abs_less_iff\<close>)
  obtain t where t: "round64 (a + d3) = Fin t" "a + d3 - ?e \<le> t" "t \<le> a + d3 + ?e"
    by (rule round64_near [of "a + d3"]) (use assms(1,2) a(2,3) b3 in \<open>simp add: abs_less_iff\<close>)
  have c3: "2 - z - 4 * ?e \<le> t" "1 \<le> t" "t \<le> 10" using t(2,3) a(2,3) b3 assms(1,2) by linarith+
  obtain p where p: "round64 (2 * z) = Fin p" "2 * z - ?e \<le> p" "p \<le> 2 * z + ?e"
    by (rule round64_near [of "2 * z"]) (use assms(1,2) in \<open>simp add: abs_less_iff\<close>)
  have f4: "- (3 / 4) \<le> p / t" "p / t \<le> 1" by - (rule quotient_ge quotient_le; use p(2,3) c3 assms(1,2) in linarith)+
  obtain d4 where d4: "round64 (p / t) = Fin d4" "p / t - ?e \<le> d4" "d4 \<le> p / t + ?e"
    by (rule round64_near [of "p / t"]) (use f4 in \<open>simp add: abs_less_iff\<close>)
  have b4: "- 76 / 100 \<le> d4" "d4 \<le> 2" using d4(2,3) f4 by linarith+
  obtain E where E: "round64 (1 + d4) = Fin E" "1 + d4 - ?e \<le> E" "E \<le> 1 + d4 + ?e"
    by (rule round64_near [of "1 + d4"]) (use b4 in \<open>simp add: abs_less_iff\<close>)
  have nz: "(14 :: rat) \<noteq> 0" "s1 \<noteq> 0" "s2 \<noteq> 0" "t \<noteq> 0" using c1 c2 c3 by auto
  show ?thesis
  proof (rule that [of E])
    show "1 / 8 \<le> E" using E(2) b4 by linarith
    show "add_d (Fin 1) (div_d (mul_d (Fin 2) (Fin z))
      (add_d (sub_d (Fin 2) (Fin z)) (div_d z2 (add_d (Fin 6) (div_d z2 (add_d (Fin 10) (div_d z2 (Fin 14)))))))) = Fin E"
      unfolding z2_def mul_d.simps sub_d_Fin s(1) p(1) a(1)
      using nz by (simp only: div_d.simps add_d.simps if_False d1(1) s1(1) d2(1) s2(1) d3(1) t(1) d4(1) E(1))
  qed
qed

section \<open>The value handed to _ftoa\<close>

lemma pow2_of_bits:
  assumes "- 1022 \<le> e" "e \<le> 1023"
  shows "of_bits (push_bit 52 (word_of_int (e + 1023))) = Fin (pow2 e)"
proof -
  have "of_bits (push_bit 52 (word_of_int (e + 1023)) OR word_of_int 0)
      = Fin (of_int (0 + 2 ^ 52) * pow2 (e + 1023 - 1075))"
    by (rule of_bits_packed) (use assms in simp_all)
  moreover have "of_int (0 + 2 ^ 52) * pow2 (e + 1023 - 1075) = pow2 e"
    using pow2_add [of 52 "e - 52"] by (simp add: pow2_nat)
  ultimately show ?thesis by simp
qed

text \<open>The power of ten of a value is no less than a 2048th of it.\<close>

definition scaled :: "rat \<Rightarrow> double \<Rightarrow> bool" where
  "scaled v F \<longleftrightarrow> F = Infinite False \<or> (\<exists>y j. F = Fin y \<and> pow2 j \<le> y \<and> v < pow2 (j + 11))"

text \<open>The shape of the result: the exponent ev and the scale F, which lies within 11 binary digits of the value.\<close>

lemma etoa_scale_shape:
  assumes "0 \<le> v" "v \<le> (2 - pow2 (- 52)) * pow2 1023"
  shows "\<exists>ev e2 F. etoa_scale (Fin v) = (if less_d (Fin v) F then (ev - 1, div_d F (Fin 10)) else (ev, F))
    \<and> (F = Infinite False \<or> (\<exists>y. F = Fin y \<and> pow2 (e2 - 3) \<le> y)) \<and> v < pow2 (e2 + 4) \<and> - 1022 \<le> e2
    \<and> (ev \<le> 1 \<longrightarrow> v < 128)"
proof -
  obtain k where k: "uint (drop_bit 52 (to_bits (Fin v)) AND 0x7FF) - 1023 = k" "- 1023 \<le> k" "k \<le> 1023" "v < pow2 (k + 1)"
    using to_bits_exponent [OF assms] by blast
  obtain f where f: "of_bits ((to_bits (Fin v) AND 0xFFFFFFFFFFFFF) OR push_bit 52 1023) = Fin f" "1 \<le> f" "f < 2"
    using significand [of "to_bits (Fin v)"] by blast
  define ev where "ev = trunc_d (add_d (add_d (dec (1760912590558 / 10 ^ 13)) (mul_d (of_int_d k) (dec (301029995663981 / 10 ^ 15))))
                              (mul_d (sub_d (Fin f) (Fin (3/2))) (dec (289529654602168 / 10 ^ 15))))"
  note ev = scale_exponent [OF k(2,3) f(2,3), folded ev_def]
  define e2 where "e2 = trunc_d (add_d (mul_d (of_int_d ev) (dec (3321928094887362 / 10 ^ 15))) (Fin (1/2)))"
  note e2 = scale_binary [OF ev(1,2), folded e2_def]
  obtain z where z: "sub_d (mul_d (of_int_d ev) (dec (2302585092994046 / 10 ^ 15)))
      (mul_d (of_int_d e2) (dec (6931471805599453 / 10 ^ 16))) = Fin z" "- 21 / 20 \<le> z" "z \<le> 2 / 5"
    using scale_rest [OF ev(1,2) e2] by blast
  obtain E where E: "add_d (Fin 1) (div_d (mul_d (Fin 2) (Fin z)) (add_d (sub_d (Fin 2) (Fin z))
      (div_d (mul_d (Fin z) (Fin z)) (add_d (Fin 6) (div_d (mul_d (Fin z) (Fin z)) (add_d (Fin 10) (div_d (mul_d (Fin z) (Fin z)) (Fin 14)))))))) = Fin E"
    "1 / 8 \<le> E"
    using scale_factor [OF z(2,3)] by blast
  define F where "F = round64 (pow2 e2 * E)"
  have r: "etoa_scale (Fin v) = (if less_d (Fin v) F then (ev - 1, div_d F (Fin 10)) else (ev, F))"
    unfolding etoa_scale_def Let_def k(1) f(1) ev_def [symmetric] e2_def [symmetric] z(1) E(1) pow2_of_bits [OF e2(1,2)]
    by (simp only: mul_d.simps F_def)
  have b8: "pow2 (e2 - 3) = pow2 e2 * (1 / 8)" by (simp add: pow2_diff pow2_nat)
  have "pow2 (e2 - 3) \<le> pow2 e2 * E" unfolding b8 by (rule mult_left_mono) (use E(2) in \<open>simp_all add: less_imp_le\<close>)
  from round64_ge_pow2 [OF this] e2(1)
  have F: "F = Infinite False \<or> (\<exists>y. F = Fin y \<and> pow2 (e2 - 3) \<le> y)" by (simp add: F_def)
  have "(of_int (- 1023) :: rat) \<le> of_int k" "(of_int k :: rat) \<le> of_int 1023" unfolding of_int_le_iff by (rule k)+
  then have "- 1023 \<le> (of_int k :: rat)" "(of_int k :: rat) \<le> 1023" by simp_all
  with ev(3) e2(3) have "(of_int k :: rat) - 4 < of_int e2" by linarith
  then have "of_int (k - 4) < (of_int e2 :: rat)" by simp
  then have "k - 4 < e2" by (simp only: of_int_less_iff)
  then have "pow2 (k + 1) \<le> pow2 (e2 + 4)" by (intro pow2_mono) simp
  with k(4) have v: "v < pow2 (e2 + 4)" by linarith
  have "v < 128" if "ev \<le> 1"
  proof -
    have "(of_int ev :: rat) \<le> of_int 1" using that by (simp only: of_int_le_iff)
    with ev(3) have "of_int k < (of_int 7 :: rat)" by simp
    then have "k < 7" by (simp only: of_int_less_iff)
    then have "pow2 (k + 1) \<le> pow2 7" by (intro pow2_mono) simp
    moreover have "pow2 7 = (128 :: rat)" by (simp add: pow2_def)
    ultimately show ?thesis using k(4) by linarith
  qed
  with r F v e2(1) show ?thesis by blast
qed

lemma etoa_scale_bound:
  assumes "0 \<le> v" "v \<le> (2 - pow2 (- 52)) * pow2 1023"
  shows "scaled v (snd (etoa_scale (Fin v)))" "fst (etoa_scale (Fin v)) = 0 \<Longrightarrow> v < 128"
proof -
  from etoa_scale_shape [OF assms] obtain ev e2 F
    where r: "etoa_scale (Fin v) = (if less_d (Fin v) F then (ev - 1, div_d F (Fin 10)) else (ev, F))"
      and F: "F = Infinite False \<or> (\<exists>y. F = Fin y \<and> pow2 (e2 - 3) \<le> y)"
      and v: "v < pow2 (e2 + 4)" and e2: "- 1022 \<le> e2" and small: "ev \<le> 1 \<longrightarrow> v < 128" by blast
  show "scaled v (snd (etoa_scale (Fin v)))"
    using F
  proof
    assume "F = Infinite False"
    then show ?thesis by (simp add: r scaled_def)
  next
    assume "\<exists>y. F = Fin y \<and> pow2 (e2 - 3) \<le> y"
    then obtain y where y: "F = Fin y" "pow2 (e2 - 3) \<le> y" by blast
    have "pow2 (e2 + 4) \<le> pow2 (e2 - 3 + 11)" by (rule pow2_mono) simp
    with v y have s1: "scaled v F" by (fastforce simp: scaled_def)
    have c: "pow2 (e2 - 7) = pow2 (e2 - 3) / 16" using pow2_add [of 4 "e2 - 7"] by (simp add: pow2_nat)
    have "pow2 (e2 - 7) \<le> y / 10" using y(2) pow2_pos [of "e2 - 3"] unfolding c by linarith
    from round64_ge_pow2 [OF this] e2
    have "round64 (y / 10) = Infinite False \<or> (\<exists>x. round64 (y / 10) = Fin x \<and> pow2 (e2 - 7) \<le> x)" by simp
    moreover have "v < pow2 (e2 - 7 + 11)" using v by (simp add: add.commute)
    ultimately have s2: "scaled v (div_d F (Fin 10))" by (auto simp only: scaled_def y(1) div_d.simps if_False zero_neq_numeral [symmetric])
    show ?thesis using s1 s2 by (simp add: r)
  qed
  assume "fst (etoa_scale (Fin v)) = 0"
  then have "ev \<le> 1" by (auto simp: r split: if_splits)
  with small show "v < 128" by blast
qed

lemma scaled_quotient:
  assumes "0 \<le> v" "scaled v F"
  obtains x where "div_d (Fin v) F = Fin x" "- 1 \<le> x" "x \<le> 4096"
proof (cases F)
  case (Fin y)
  with assms obtain j where j: "pow2 j \<le> y" "v < pow2 (j + 11)" by (auto simp: scaled_def)
  have y: "0 < y" using j(1) pow2_pos [of j] by linarith
  have "pow2 (j + 11) = 2048 * pow2 j" using pow2_add [of j 11] by (simp add: pow2_def)
  then have "v < 2048 * y" using j by linarith
  then have q: "0 \<le> v / y" "v / y \<le> 2048" using y assms(1) by (simp_all add: pos_divide_le_eq less_imp_le)
  obtain x where "round64 (v / y) = Fin x" "v / y - 1 / 1000000 \<le> x" "x \<le> v / y + 1 / 1000000"
    by (rule round64_near [of "v / y"]) (use q in \<open>simp add: abs_less_iff\<close>)
  with q y show ?thesis by (intro that [of x]) (simp add: Fin, linarith+)
qed (use assms that [of 0] in \<open>auto simp: scaled_def\<close>)

section \<open>The end of every call\<close>

text \<open>
  A result that is a value or one of the two errors of a call that runs past a string (or past
  the table of powers of ten) or finds no argument of the type it asks for.
\<close>

definition ends :: "'a outcome \<Rightarrow> bool" where
  "ends r \<longleftrightarrow> (case r of Inl e \<Rightarrow> e = Read_Past_End \<or> e = Bad_Vararg | Inr x \<Rightarrow> True)"

lemma ends_simps [simp]: "ends (Inr x)" "ends (Inl Read_Past_End)" "ends (Inl Bad_Vararg)"
  by (simp_all add: ends_def)

lemma ends_rbind: "ends r \<Longrightarrow> (\<And>x. r = Inr x \<Longrightarrow> ends (f x)) \<Longrightarrow> ends (rbind r f)"
  by (cases r) (simp_all add: ends_def)

lemma ftoa_buf_ends: "ends (ftoa_buf v prec width flags)"
proof -
  have "ends (ftoa_split d p)" for d p by (simp add: ftoa_split_def pow10_at_def Let_def)
  then show ?thesis by (auto simp: ftoa_buf_def Let_def split_def intro!: ends_rbind)
qed

lemma ftoa_text_ends:
  assumes "is_special v \<or> (\<exists>x. v = Fin x \<and> \<bar>x\<bar> \<le> 1000000000)"
  shows "ends (ftoa_text (Suc n) v prec width flags)"
proof -
  have "is_special v \<or> \<not> (less_d PRINTF_MAX_FLOAT v \<or> less_d v (neg_d PRINTF_MAX_FLOAT))"
    using assms by (auto simp: PRINTF_MAX_FLOAT_def abs_le_iff)
  then show ?thesis by (auto simp: split_def ftoa_buf_ends intro!: ends_rbind)
qed

lemma etoa_plan_value:
  assumes "0 \<le> v" "v \<le> (2 - pow2 (- 52)) * pow2 1023" "etoa_plan (Fin v) prec width flags = (ex, mw, v', pr, fw, fl)"
  obtains x where "v' = Fin x" "\<bar>x\<bar> \<le> 1000000000"
proof -
  obtain ev F where s: "etoa_scale (Fin v) = (ev, F)" by fastforce
  note b = etoa_scale_bound [OF assms(1,2), unfolded s fst_conv snd_conv]
  obtain q where q: "div_d (Fin v) F = Fin q" "- 1 \<le> q" "q \<le> 4096" using scaled_quotient [OF assms(1) b(1)] by blast
  have "v' = div_d (Fin v) F \<or> v' = Fin v \<and> (ev = 0 \<or> v < 1000000)"
    using assms(3) by (auto simp: etoa_plan_def s Let_def split: if_splits)
  then have "v' = Fin q \<or> v' = Fin v \<and> v < 1000000" using b(2) q(1) by auto
  then show ?thesis
  proof
    assume "v' = Fin q"
    then show ?thesis by (rule that) (use q in \<open>simp add: abs_le_iff\<close>)
  next
    assume v: "v' = Fin v \<and> v < 1000000"
    show ?thesis by (rule that [of v]) (use v assms(1) in auto)
  qed
qed

lemma etoa_text_ends: "ends (etoa_text (Suc (Suc n)) v prec width flags)"
proof (cases "is_special v")
  case True
  then show ?thesis using ftoa_text_ends [of v n prec width flags] by simp
next
  case False
  then obtain x where x: "v = Fin x" "\<bar>x\<bar> \<le> (2 - pow2 (- 52)) * pow2 1023"
    by (cases v) (auto simp: is_special_def eq_d_def DBL_MAX_def abs_le_iff)
  define neg where "neg = less_d v (Fin 0)"
  have v: "(if neg then neg_d v else v) = Fin \<bar>x\<bar>" by (simp add: neg_def x(1))
  obtain ex mw v' pr fw fl where p: "etoa_plan (Fin \<bar>x\<bar>) prec width flags = (ex, mw, v', pr, fw, fl)"
    using prod_cases6 by blast
  obtain y where y: "v' = Fin y" "\<bar>y\<bar> \<le> 1000000000" using etoa_plan_value [OF _ x(2) p] by auto
  have e: "ends (ftoa_text (Suc n) (if neg then neg_d v' else v') pr fw (fl AND NOT FLAGS_ADAPT_EXP))"
    by (rule ftoa_text_ends) (use y in simp)
  show ?thesis
    unfolding etoa_text.simps(2) Let_def neg_def [symmetric] v p prod.case if_not_P [OF False]
    by (rule ends_rbind [OF e]) simp
qed

lemma float_text_ends:
  "ends (ftoa_text FTOA_FUEL v prec width flags)" "ends (etoa_text FTOA_FUEL v prec width flags)"
proof -
  have f: "FTOA_FUEL = Suc (Suc (Suc (Suc 0)))" by (simp add: FTOA_FUEL_def)
  show "ends (etoa_text FTOA_FUEL v prec width flags)" unfolding f by (rule etoa_text_ends)
  show "ends (ftoa_text FTOA_FUEL v prec width flags)"
  proof (cases "\<not> is_special v \<and> (less_d PRINTF_MAX_FLOAT v \<or> less_d v (neg_d PRINTF_MAX_FLOAT))")
    case True
    then have "ftoa_text FTOA_FUEL v prec width flags = etoa_text (Suc (Suc (Suc 0))) v prec width flags"
      unfolding f by (subst ftoa_text.simps(2)) simp
    then show ?thesis by (simp only: etoa_text_ends)
  next
    case False
    then show ?thesis unfolding f by (subst ftoa_text.simps(2)) (auto simp: split_def ftoa_buf_ends intro!: ends_rbind)
  qed
qed

lemma arguments_end: "ends (va_word va)" "ends (va_str va)" "ends (va_dbl va)" "ends (peek fmt)"
proof -
  show "ends (va_word va)" by (cases va rule: va_word.cases) simp_all
  show "ends (va_str va)" by (cases va rule: va_str.cases) simp_all
  show "ends (va_dbl va)" by (cases va rule: va_dbl.cases) simp_all
  show "ends (peek fmt)" by (cases fmt) simp_all
qed

lemma parse_spec_ends: "ends (parse_spec fmt va)"
proof -
  have a: "ends (atoi_loop s i)" for s i by (induction s i rule: atoi_loop.induct) simp_all
  have f: "ends (parse_flags s i)" for s i by (induction s i rule: parse_flags.induct) simp_all
  show ?thesis
    by (auto simp: parse_spec_def parse_width_def parse_precision_def parse_length_def atoi_def Let_def a f arguments_end split_def
        intro!: ends_rbind)
qed

lemma convert_text_ends: "ends (convert_text c flags width precision va)"
proof -
  have l: "ends (strnlen_loop s m n)" for s m n by (induction s m n rule: strnlen_loop.induct) simp_all
  have s: "ends (string_text p f q)" for p f q by (induction p f q rule: string_text.induct) (auto intro: ends_rbind)
  show ?thesis
    by (auto simp: convert_text_def strnlen_s_def l s arguments_end float_text_ends split_def intro!: ends_rbind)
qed

lemma render_ends: "ends (render fmt va)"
proof (induction fmt va rule: render.induct)
  case (2 c fmt va)
  have "ends (directive_text fmt va)"
    by (auto simp: directive_text_def parse_spec_ends convert_text_ends arguments_end split_def intro!: ends_rbind)
  with 2 show ?case by (auto simp: split_def intro!: ends_rbind)
qed simp

text \<open>
  C16. Every call of printf, sprintf, snprintf and vsnprintf comes to an end: whatever
  the output function, the format, the arguments and the state are, the interpreter either
  returns or reads past the end of a string, of the table of powers of ten or of the arguments;
  it never runs for ever, although _ftoa and _etoa call each other.
\<close>

theorem printf_terminates:
  "(\<exists>n s'. vsnprintf_internal out buffer maxlen fmt va s = Inr (n, s'))
    \<or> vsnprintf_internal out buffer maxlen fmt va s = Inl Read_Past_End
    \<or> vsnprintf_internal out buffer maxlen fmt va s = Inl Bad_Vararg"
proof -
  have "ends (vsnprintf_internal out buffer maxlen fmt va s)"
    by (auto simp: vsnprintf_render render_ends Let_def intro!: ends_rbind)
  then show ?thesis by (cases "vsnprintf_internal out buffer maxlen fmt va s") (auto simp: ends_def)
qed

end
