(* ===== verification/Pmm_Refine.thy ===== *)
theory Pmm_Refine
  imports Pmm_Heap
begin

text \<open>
  The specification of the page allocator: a set of free pages and a list of live runs.  A
  client takes a run of free pages, gives one back, or does something that changes neither.
  \<open>pages_of\<close> reads the abstract state off the bitmap and the pointers; the moves of the heap
  are moves of the specification.
\<close>

section \<open>The abstract machine\<close>

type_synonym pages = "nat set \<times> (nat \<times> nat) list"

abbreviation run :: "nat \<times> nat \<Rightarrow> nat set" where
  "run \<equiv> \<lambda>(i, n). {i..<i + n}"

inductive page_step :: "pages \<Rightarrow> pages \<Rightarrow> bool" where
  stay: "page_step (F, R) (F, R)"
| take_run: "0 < n \<Longrightarrow> run (i, n) \<subseteq> F \<Longrightarrow> page_step (F, R) (F - run (i, n), (i, n) # R)"
| give: "(i, n) \<in> set R \<Longrightarrow> page_step (F, R) (F \<union> run (i, n), remove1 (i, n) R)"

inductive_cases page_stepE: "page_step (F, R) q"

text \<open>What the specification guarantees: live runs are disjoint from the free pages and from each other, and no page is lost.\<close>

fun apart :: "(nat \<times> nat) list \<Rightarrow> bool" where
  "apart [] = True"
| "apart (x # R) = ((\<forall>y\<in>set R. run x \<inter> run y = {}) \<and> apart R)"

definition pages_ok :: "nat set \<Rightarrow> pages \<Rightarrow> bool" where
  "pages_ok A q \<longleftrightarrow> (case q of (F, R) \<Rightarrow>
     apart R \<and> (\<forall>x\<in>set R. run x \<inter> F = {}) \<and> F \<union> \<Union> (run ` set R) = A)"

lemma apart_remove1: "apart R \<Longrightarrow> apart (remove1 x R)"
  by (induction R) (auto dest: subsetD [OF set_remove1_subset])

lemma apart_others: "apart R \<Longrightarrow> x \<in> set R \<Longrightarrow> y \<in> set (remove1 x R) \<Longrightarrow> run x \<inter> run y = {}"
  by (induction R) (auto split: if_splits)

lemma page_step_ok: "page_step p q \<Longrightarrow> pages_ok A p \<Longrightarrow> pages_ok A q"
proof (induction rule: page_step.induct)
  case (take_run n i F R)
  then show ?case by (fastforce simp: pages_ok_def)
next
  case (give i n R F)
  from give.prems have R: "apart R" "\<forall>x\<in>set R. run x \<inter> F = {}" "F \<union> \<Union> (run ` set R) = A"
    by (simp_all add: pages_ok_def)
  have set_R: "set R = insert (i, n) (set (remove1 (i, n) R))"
    using give.hyps by (induction R) auto
  have "run y \<inter> (F \<union> run (i, n)) = {}" if "y \<in> set (remove1 (i, n) R)" for y
    using that R(2) apart_others [OF R(1) give.hyps that] subsetD [OF set_remove1_subset that] by blast
  moreover have "F \<union> run (i, n) \<union> \<Union> (run ` set (remove1 (i, n) R)) = A"
    using R(3) unfolding set_R by auto
  ultimately show ?case by (simp add: pages_ok_def apart_remove1 R(1))
qed simp

section \<open>Abstraction\<close>

definition pages_of :: "heap \<Rightarrow> pages" where
  "pages_of h = (case h of (s, L) \<Rightarrow>
     ({k. k < bits (pmm_bitmap s) \<and> k \<notin> used_set (pmm_bitmap s) (mem s)},
      map (\<lambda>(p, n). (page_index s p, unat n)) L))"

lemma pages_of_layout:
  "same_layout s s' \<Longrightarrow> pages_of (s', L) = ({k. k < bits (pmm_bitmap s) \<and> k \<notin> used_set (pmm_bitmap s') (mem s')},
      snd (pages_of (s, L)))"
  by (simp add: pages_of_def same_layout_simps(2,4))

lemma remove1_map_inj:
  "inj_on f (insert x (set xs)) \<Longrightarrow> map f (remove1 x xs) = remove1 (f x) (map f xs)"
  by (induction xs) (auto simp: inj_on_def)

lemma live_inj:
  assumes "\<forall>x\<in>set L. live_ok g s x"
  shows "inj_on (\<lambda>(p, n). (page_index s p, unat n)) (set L)"
proof (rule inj_onI, clarify)
  fix p n q m
  assume "(p, n) \<in> set L" "(q, m) \<in> set L" and eq: "page_index s p = page_index s q" "unat n = unat m"
  with assms have "p = page_ptr s (page_index s p)" "q = page_ptr s (page_index s q)"
    by (auto simp: live_ok_def)
  with eq show "p = q \<and> n = m" by (metis word_unat_eq_iff)
qed

lemma heap_step_simulates:
  assumes "heap_step h h'" "heap_inv g u0 h"
  shows "page_step (pages_of h) (pages_of h')"
  using assms
proof (induction rule: heap_step.induct)
  case (alloc n s p s' L)
  from alloc.prems have rdy: "heap_ready g s" by (simp add: heap_inv_def)
  note k = kalloc_live [OF rdy alloc.hyps]
  let ?F = "{k. k < bits (pmm_bitmap s) \<and> k \<notin> used_set (pmm_bitmap s) (mem s)}" and ?i = "page_index s p"
  have run: "run_of s (p, n) = run (?i, unat n)" by (simp add: run_of_def)
  have "run (?i, unat n) \<subseteq> used_set (pmm_bitmap s') (mem s')" unfolding k(6) run by blast
  also have "\<dots> \<subseteq> {..<bits (pmm_bitmap s)}" using same_layout_simps(4,7) [OF k(1)] by (auto simp: used_set_def)
  finally have "run (?i, unat n) \<subseteq> ?F" using k(5) [unfolded run] by blast
  from page_step.take_run [OF k(3) this, of "snd (pages_of (s, L))"]
  show ?case unfolding pages_of_layout [OF k(1)] k(6) run by (simp add: pages_of_def set_diff_eq conj_ac)
next
  case (alloc_fails n s s' L)
  then have rdy: "heap_ready g s" by (simp add: heap_inv_def)
  then have "bitmap_sound (pmm_bitmap s) (mem s)" "pages_fit s" by (auto simp: heap_ready_def bitmap_sound_def)
  from kalloc_null [OF this alloc_fails.hyps] have "pages_of (s', L) = pages_of (s, L)"
    by (simp add: pages_of_def page_index_def)
  then show ?case by (cases "pages_of (s, L)") (simp add: page_step.stay)
next
  case (free p n L s)
  from free.prems have rdy: "heap_ready g s" and lv: "\<forall>x\<in>set L. live_ok g s x" by (auto simp: heap_inv_def)
  have lx: "live_ok g s (p, n)" using lv free.hyps by blast
  note k = kfree_live [OF rdy lx]
  let ?F = "{k. k < bits (pmm_bitmap s) \<and> k \<notin> used_set (pmm_bitmap s) (mem s)}" and ?i = "page_index s p"
  have run: "run_of s (p, n) = run (?i, unat n)" by (simp add: run_of_def)
  have "run (?i, unat n) \<subseteq> {..<bits (pmm_bitmap s)}"
    using lx unfolding live_ok_def run [symmetric] by (auto simp: used_set_def)
  then have F: "?F \<union> run (?i, unat n) =
      {k. k < bits (pmm_bitmap s) \<and> k \<notin> used_set (pmm_bitmap s) (mem s) - run (?i, unat n)}" by auto
  have "map (\<lambda>(p, n). (page_index s p, unat n)) (remove1 (p, n) L) =
      remove1 (?i, unat n) (map (\<lambda>(p, n). (page_index s p, unat n)) L)"
    using remove1_map_inj [of "\<lambda>(p, n). (page_index s p, unat n)" "(p, n)" L] live_inj [OF lv] free.hyps
    by (simp add: insert_absorb)
  moreover have "(?i, unat n) \<in> set (snd (pages_of (s, L)))" using free.hyps by (force simp: pages_of_def)
  note page_step.give [OF this, of ?F]
  ultimately show ?case unfolding pages_of_layout [OF k(1)] k(2) run F by (simp add: pages_of_def)
next
  case (store_byte p n L a s v)
  then have rdy: "heap_ready g s" and lx: "live_ok g s (p, n)" by (auto simp: heap_inv_def)
  note k = store_live [OF rdy lx store_byte.hyps(2), where v = v]
  have "pages_of (s\<lparr>mem := (mem s)(a := v)\<rparr>, L) = pages_of (s, L)"
    unfolding pages_of_layout [OF k(1)] k(2,3) by (simp add: pages_of_def)
  then show ?case by (cases "pages_of (s, L)") (simp add: page_step.stay)
qed

lemma heap_reach_simulates:
  "heap_reach s0 h \<Longrightarrow> heap_ready g s0 \<Longrightarrow> page_step\<^sup>*\<^sup>* (pages_of (s0, [])) (pages_of h)"
proof (induction rule: heap_reach.induct)
  case (step h h')
  with heap_step_simulates [OF step.hyps(2) heap_reach_inv [OF step.hyps(1) step.prems]]
  show ?case by (blast intro: rtranclp.rtrancl_into_rtrancl)
qed simp

lemma page_steps_ok: "page_step\<^sup>*\<^sup>* p q \<Longrightarrow> pages_ok A p \<Longrightarrow> pages_ok A q"
  by (induction rule: rtranclp_induct) (auto intro: page_step_ok)

lemma heap_reach_pages_ok:
  assumes "heap_ready g s0" "heap_reach s0 h"
  shows "pages_ok {k. k < bits (pmm_bitmap s0) \<and> k \<notin> used_set (pmm_bitmap s0) (mem s0)} (pages_of h)"
  by (rule page_steps_ok [OF heap_reach_simulates [OF assms(2,1)]]) (simp add: pages_ok_def pages_of_def)

section \<open>Property\<close>

text \<open>
  C3. The allocator refines the page machine.  From a start where the bitmap's own pages are used,
  a used bit guards the end of the bitmap and the pages are addressable, every heap a client that releases and writes only what it holds reaches is, read through \<open>pages_of\<close>, a state the machine reaches, and every
  further move of the client is a move of the machine.  So no page is lost or gained: the pages
  that were free at the start are at any time exactly the free pages and the pages of the live
  runs, which are pairwise disjoint.
\<close>

theorem heap_refines_pages:
  assumes "heap_ready g s0" "heap_reach s0 h"
  shows "page_step\<^sup>*\<^sup>* (pages_of (s0, [])) (pages_of h)
    \<and> (\<forall>h'. heap_step h h' \<longrightarrow> page_step (pages_of h) (pages_of h'))
    \<and> pages_ok {k. k < bits (pmm_bitmap s0) \<and> k \<notin> used_set (pmm_bitmap s0) (mem s0)} (pages_of h)"
proof (intro conjI allI impI)
  show "page_step\<^sup>*\<^sup>* (pages_of (s0, [])) (pages_of h)"
    by (rule heap_reach_simulates [OF assms(2,1)])
  show "page_step (pages_of h) (pages_of h')" if "heap_step h h'" for h'
    by (rule heap_step_simulates [OF that heap_reach_inv [OF assms(2,1)]])
  show "pages_ok {k. k < bits (pmm_bitmap s0) \<and> k \<notin> used_set (pmm_bitmap s0) (mem s0)} (pages_of h)"
    by (rule heap_reach_pages_ok [OF assms])
qed

lemma demo_free: "{k. k < bits (pmm_bitmap demo_heap) \<and> k \<notin> used_set (pmm_bitmap demo_heap) (mem demo_heap)} = {1..<8}"
proof -
  have "list_all (\<lambda>k. page_bit (mem demo_heap) (bm_map (pmm_bitmap demo_heap)) k \<longleftrightarrow> k = 0 \<or> 8 \<le> k) [0..<64]"
    by code_simp
  then have "page_bit (mem demo_heap) (bm_map (pmm_bitmap demo_heap)) k \<longleftrightarrow> k = 0 \<or> 8 \<le> k" if "k < 64" for k
    using that by (simp only: list_all_iff set_upt atLeastLessThan_iff) simp
  then show ?thesis by (auto simp: demo_layout(1) used_set_def)
qed

theorem heap_refines_pages_witness:
  "pages_of (snd (kalloc 2 demo_heap), [(0x1001000, 2)]) = ({3..<8}, [(1, 2)])"
proof -
  let ?s = "snd (kalloc 2 demo_heap)"
  have "g_hhdm_offset ?s = 0x1000000" "lowest_address (pmm_bitmap ?s) = 0" by code_simp+
  then have R: "snd (pages_of (?s, [(0x1001000, 2)])) = [(1, 2)]"
    by (simp add: pages_of_def page_index_def PAGE_TO_BIT_def)
  then obtain F where F: "pages_of (?s, [(0x1001000, 2)]) = (F, [(1, 2)])" by (metis prod.collapse)
  from heap_refines_pages [OF demo_ready demo_reach]
  have "F \<inter> {1..<3} = {}" "F \<union> {1..<3} = {1..<8}" by (auto simp: pages_ok_def F demo_free)
  moreover have "{1..<8} - {1..<3} = {3..<8 :: nat}" by auto
  ultimately show ?thesis unfolding F by blast
qed

end
