(* ===== verification/Pmm_Booted.thy ===== *)
theory Pmm_Booted
  imports Pmm_Boot Pmm_Refine
begin

text \<open>
  The start and the allocator together.  When no usable memory is left in the storage of the
  bitmap, the state pmm_initialize leaves is a start the heap invariant holds from, and the
  pages that circulate between the allocator and its clients are those of the usable entries of
  the boot loader's map.
\<close>

text \<open>
  The storage of the bitmap does not run over the end of the address space, and no usable entry,
  at its addresses in the direct map, reaches into it.
\<close>

definition storage_clear :: "limine_memmap_entry list \<Rightarrow> pmm \<Rightarrow> bool" where
  "storage_clear es s = (let base = unat (bm_map (pmm_bitmap s)); top = base + 8 * unat (bm_size (pmm_bitmap s));
       h = unat (g_hhdm_offset s) in
     top \<le> 18446744073709551616 \<and>
     list_all (\<lambda>x. usable x \<longrightarrow> me_length x = 0
       \<or> unat (me_base x) + unat (me_length x) + h \<le> base \<or> top \<le> unat (me_base x) + h) es)"

text \<open>A byte of page k, and a byte of the storage, as physical addresses.\<close>

lemma page_byte_address:
  assumes "pages_fit s" "bits (pmm_bitmap s) \<le> bit_cap" "k < bits (pmm_bitmap s)" "a \<in> page_bytes s k"
  shows "\<exists>i<4096. unat a = unat (g_hhdm_offset s) + unat (lowest_address (pmm_bitmap s)) + 4096 * k + i"
proof -
  from assms(4) obtain i where i: "i < 4096" "a = page_ptr s k + of_nat i"
    by (auto simp: page_bytes_def in_region_iff)
  note p = unat_page_ptr [OF assms(1-3)]
  have "4096 * k + 4096 \<le> 4096 * bits (pmm_bitmap s)" using assms(3) by simp
  then have "unat (page_ptr s k) + 4096 \<le> 18446744073709551616"
    using assms(1) unfolding p pages_fit_def by linarith
  then have "unat a = unat (page_ptr s k) + i"
    unfolding i(2) using i(1) by (intro no_wrap_unat [of _ 4096]) (simp_all add: no_wrap_def)
  then show ?thesis using i(1) p by auto
qed

lemma storage_byte_address:
  assumes "unat (bm_map b) + 8 * unat (bm_size b) \<le> 18446744073709551616" "a \<in> storage b" "bits b \<le> bit_cap"
  shows "\<exists>j<8 * unat (bm_size b). unat a = unat (bm_map b) + j"
proof -
  have "8 * unat (bm_size b) \<le> 18446744073709551616" using assms(3) by (simp add: bits_def bit_cap_def)
  with assms(2) obtain j where j: "j < 8 * unat (bm_size b)" "a = bm_map b + of_nat j"
    by (auto simp: storage_def in_region_iff)
  have "unat a = unat (bm_map b) + j"
    unfolding j(2) using assms(1) j(1) by (intro no_wrap_unat [of _ "8 * unat (bm_size b)"]) (simp_all add: no_wrap_def)
  then show ?thesis using j(1) by auto
qed

lemma start_ready:
  assumes bo: "boot_ok es s" and r: "pmm_initialize es s = Inr (es', s')"
    and spare: "unat (total_pages (pmm_bitmap s')) + reserved_pages (pmm_bitmap s') < bits (pmm_bitmap s')"
    and fit: "pages_fit s'" and clear: "storage_clear es' s'"
  shows "heap_ready (unat (total_pages (pmm_bitmap s')) + reserved_pages (pmm_bitmap s')) s'"
proof -
  let ?b = "pmm_bitmap s'" and ?lo = "unat (lowest_address (pmm_bitmap s'))" and ?h = "unat (g_hhdm_offset s')"
  from pmm_initialize_result [OF bo r] obtain e where bt: "booted es s e es' s'" by blast
  note sg = start_guarded [OF bo r spare]
  have top: "unat (bm_map ?b) + 8 * unat (bm_size ?b) \<le> 18446744073709551616"
    using clear by (simp add: storage_clear_def Let_def)
  have "k \<in> used_set ?b (mem s')" if k: "k \<in> storage_pages s'" for k
  proof (rule ccontr)
    assume free: "k \<notin> used_set ?b (mem s')"
    from k have kb: "k < bits ?b" by (simp add: storage_pages_def)
    from k obtain a where a: "a \<in> page_bytes s' k" "a \<in> storage ?b" by (auto simp: storage_pages_def)
    from booted_free_iff [OF bo bt kb] free obtain x where x: "x \<in> set es'" "usable x" "covers x (?lo + 4096 * k)"
      by blast
    from page_byte_address [OF fit sg(1) kb a(1)] storage_byte_address [OF top a(2) sg(1)]
    obtain i j where ij: "i < 4096" "j < 8 * unat (bm_size ?b)" "?h + ?lo + 4096 * k + i = unat (bm_map ?b) + j" by auto
    have "me_length x \<noteq> 0" using x(3) by (auto simp: covers_def)
    then have "unat (me_base x) + unat (me_length x) + ?h \<le> unat (bm_map ?b)
        \<or> unat (bm_map ?b) + 8 * unat (bm_size ?b) \<le> unat (me_base x) + ?h"
      using clear x(1,2) unfolding storage_clear_def Let_def list_all_iff by blast
    then show False using ij x(3) unfolding covers_def by linarith
  qed
  then show ?thesis using sg(1,7) fit by (auto simp: heap_ready_def)
qed

section \<open>Property\<close>

text \<open>
  C4. From the memory map to the clients.  Let pmm_initialize return, with one bit of the bitmap to
  spare, the pages in the direct map, and no usable memory left in the storage of the bitmap.  Then,
  whatever allocations, releases of live allocations and stores into live pages follow, the free
  pages and the pages of the live allocations together are exactly the pages but page 0 that lie in
  a usable entry of the map as the start leaves it, every page belongs to at most one of them, and
  no live allocation overlaps the bitmap.
\<close>

theorem booted_heap_serves_usable_memory:
  assumes "boot_ok es s" "pmm_initialize es s = Inr (es', s')"
    and "unat (total_pages (pmm_bitmap s')) + reserved_pages (pmm_bitmap s') < bits (pmm_bitmap s')"
    and "pages_fit s'" "storage_clear es' s'" "heap_reach s' (s2, L)"
  shows "pages_ok {k. k < bits (pmm_bitmap s') \<and> k \<noteq> 0
        \<and> (\<exists>x\<in>set es'. usable x \<and> covers x (unat (lowest_address (pmm_bitmap s')) + 4096 * k))} (pages_of (s2, L))
    \<and> disjoint_runs s2 L \<and> (\<forall>x\<in>set L. run_of s2 x \<inter> storage_pages s2 = {})"
proof -
  from pmm_initialize_result [OF assms(1,2)] obtain e where bt: "booted es s e es' s'" by blast
  note rdy = start_ready [OF assms(1-5)]
  have "{k. k < bits (pmm_bitmap s') \<and> k \<notin> used_set (pmm_bitmap s') (mem s')} =
      {k. k < bits (pmm_bitmap s') \<and> k \<noteq> 0
        \<and> (\<exists>x\<in>set es'. usable x \<and> covers x (unat (lowest_address (pmm_bitmap s')) + 4096 * k))}"
    using booted_free_iff [OF assms(1) bt] by auto
  with heap_reach_pages_ok [OF rdy assms(6)] heap_reach_inv [OF assms(6) rdy] show ?thesis
    by (auto simp: heap_inv_def live_ok_def)
qed

text \<open>A map whose first usable entry has room for the rows only, with nothing usable behind it up to the end of the bitmap.\<close>

definition tight_map :: "limine_memmap_entry list" where
  "tight_map = [\<lparr>me_base = 0x100000, me_length = 0x1000, me_type = 0\<rparr>,
     \<lparr>me_base = 0x101000, me_length = 0x7000, me_type = 1\<rparr>,
     \<lparr>me_base = 0x108000, me_length = 0x7ff8000, me_type = 0\<rparr>]"

lemma tight_count:
  "pmm_bitmap (pmm_count tight_map demo_boot) =
     \<lparr>bm_map = 0, bm_size = 4096, total_pages = 32768, used_pages = 0,
      highest_address = 0x8100000, lowest_address = 0x100000\<rparr>"
  by (simp add: pmm_count_def tight_map_def demo_boot_def pmm_bitmap_init_def scan_entry_def Let_def ALIGN_UP_def)

lemma tight_boot_ok: "boot_ok tight_map demo_boot"
  unfolding boot_ok_def Let_def tight_count
  by (simp add: memmap_ok_def tight_map_def demo_boot_def bits_def)

lemma tight_booted:
  assumes "booted tight_map demo_boot e es' s'"
  shows "e = \<lparr>me_base = 0x100000, me_length = 0x1000, me_type = 0\<rparr>"
    "es' = [\<lparr>me_base = 0x101000, me_length = 0, me_type = 0\<rparr>, \<lparr>me_base = 0x101000, me_length = 0x7000, me_type = 1\<rparr>,
       \<lparr>me_base = 0x108000, me_length = 0x7ff8000, me_type = 0\<rparr>]"
    "bits (pmm_bitmap s') = 262144" "bm_size (pmm_bitmap s') = 4096" "lowest_address (pmm_bitmap s') = 0x100000"
    "g_hhdm_offset s' = 0xffff800000000000" "total_pages (pmm_bitmap s') = 32767" "used_pages (pmm_bitmap s') = 7"
proof -
  from assms obtain pre post where p: "tight_map = pre @ e # post" "es' = pre @ shrink 4096 e # post" "usable e"
    and pre: "\<forall>x\<in>set pre. \<not> (usable x \<and> 4096 \<le> me_length x)" "4096 \<le> me_length e"
    and f: "total_pages (pmm_bitmap s') = 32767" "bm_size (pmm_bitmap s') = 4096" "lowest_address (pmm_bitmap s') = 0x100000"
      "g_hhdm_offset s' = g_hhdm_offset demo_boot"
    and up: "used_pages (pmm_bitmap s') = total_pages (pmm_bitmap s') - usable_pages es'"
    by (auto simp: booted_def Let_def tight_count)
  from pre(1) p(1) have "pre = []" by (cases pre) (auto simp: tight_map_def)
  with p(1) have e: "e = \<lparr>me_base = 0x100000, me_length = 0x1000, me_type = 0\<rparr>"
    and post: "post = tl tight_map" by (auto simp: tight_map_def)
  show "e = \<lparr>me_base = 0x100000, me_length = 0x1000, me_type = 0\<rparr>" by (rule e)
  show es: "es' = [\<lparr>me_base = 0x101000, me_length = 0, me_type = 0\<rparr>, \<lparr>me_base = 0x101000, me_length = 0x7000, me_type = 1\<rparr>,
       \<lparr>me_base = 0x108000, me_length = 0x7ff8000, me_type = 0\<rparr>]"
    using p(2) \<open>pre = []\<close> e post by (simp add: shrink_def tight_map_def)
  have "usable_pages es' = 32760" unfolding es by simp
  with up f show "bits (pmm_bitmap s') = 262144" "bm_size (pmm_bitmap s') = 4096" "lowest_address (pmm_bitmap s') = 0x100000"
    "g_hhdm_offset s' = 0xffff800000000000" "total_pages (pmm_bitmap s') = 32767" "used_pages (pmm_bitmap s') = 7"
    by (simp_all add: bits_def demo_boot_def)
qed

theorem booted_heap_serves_usable_memory_witness:
  "\<exists>es' s' s2. pmm_initialize tight_map demo_boot = Inr (es', s') \<and> heap_reach s' (s2, [(page_ptr s' 8, 1)])
    \<and> pages_ok {8..<32768} (pages_of (s2, [(page_ptr s' 8, 1)]))"
proof -
  from pmm_initialize_booted [OF tight_boot_ok] obtain e es' s'
    where r: "pmm_initialize tight_map demo_boot = Inr (es', s')" and bt: "booted tight_map demo_boot e es' s'" by blast
  note d = tight_booted [OF bt]
  have guard: "unat (total_pages (pmm_bitmap s')) + reserved_pages (pmm_bitmap s') < bits (pmm_bitmap s')"
    by (simp add: d reserved_pages_def)
  note sg = start_guarded [OF tight_boot_ok r guard]
  have fit: "pages_fit s'" by (simp add: pages_fit_def d)
  have free: "k \<notin> used_set (pmm_bitmap s') (mem s') \<longleftrightarrow> 8 \<le> k \<and> k < 32768" if "k < 262144" for k
    using booted_free_iff [OF tight_boot_ok bt, of k] that unfolding d by (auto simp: covers_def)
  have set: "{k. k < bits (pmm_bitmap s') \<and> k \<noteq> 0
      \<and> (\<exists>x\<in>set es'. usable x \<and> covers x (unat (lowest_address (pmm_bitmap s')) + 4096 * k))} = {8..<32768}"
    unfolding d by (auto simp: covers_def)
  have lt: "used_pages (pmm_bitmap s') < total_pages (pmm_bitmap s')" by (simp add: d)
  have "0 \<in> used_set (pmm_bitmap s') (mem s')" "8 \<notin> used_set (pmm_bitmap s') (mem s')" using free [of 0] free [of 8] by auto
  from kalloc_one [OF sg(1,7) lt this] obtain i s2
    where k: "kalloc 1 s' = (page_ptr s' i, s2)" "i \<le> 8" "i \<notin> used_set (pmm_bitmap s') (mem s')" by (auto simp: d)
  have i: "i = 8" using free [of i] k(2,3) by simp
  have "page_ptr s' 8 \<noteq> 0" by (rule page_ptr_nonzero [OF fit sg(1)]) (simp_all add: d)
  with k(1) i have hr: "heap_reach s' (s2, [(page_ptr s' 8, 1)])"
    by (intro heap_reach.step [OF heap_reach.start] heap_step.alloc) simp_all
  have "unat (bm_map (pmm_bitmap s')) = 0xffff800000100000"
    by (simp add: booted_numbers(5) [OF tight_boot_ok bt] d)
  then have "storage_clear es' s'" by (simp add: d storage_clear_def Let_def)
  from booted_heap_serves_usable_memory [OF tight_boot_ok r guard fit this hr] r hr show ?thesis
    unfolding set by blast
qed

end
