(* ===== verification/Pmm_Corruption.thy ===== *)
theory Pmm_Corruption
  imports Pmm_Boot
begin

text \<open>
  What the unreserved storage of the bitmap leads to.  \<open>kalloc_until\<close> allocates single pages
  until a given page is handed out; \<open>page_write_frees\<close> is the effect on the bitmap of a byte
  written into a page of its storage.  Together they lead a booted machine, by allocations of single
  pages and one store into a page that was handed out, to two live allocations of one page.
\<close>

section \<open>Allocating up to a page\<close>

definition free_upto :: "pmm \<Rightarrow> nat \<Rightarrow> nat set" where
  "free_upto s t = {k. k \<le> t \<and> k \<notin> used_set (pmm_bitmap s) (mem s)}"

lemma free_upto_finite [simp]: "finite (free_upto s t)"
  by (simp add: free_upto_def)

lemma free_upto_card: "0 \<in> used_set (pmm_bitmap s) (mem s) \<Longrightarrow> card (free_upto s t) \<le> t"
proof -
  assume "0 \<in> used_set (pmm_bitmap s) (mem s)"
  then have "free_upto s t \<subseteq> {1..t}" by (auto simp: free_upto_def Suc_le_eq intro: gr0I)
  from card_mono [OF _ this] show ?thesis by simp
qed

text \<open>A client that allocates one page; its moves are moves of the heap.\<close>

inductive grab :: "heap \<Rightarrow> heap \<Rightarrow> bool" where
  grab: "kalloc 1 s = (p, s') \<Longrightarrow> p \<noteq> 0 \<Longrightarrow> grab (s, L) (s', (p, 1) # L)"

inductive_simps grab_iff: "grab (s, L) h"

lemma grab_heap_step: "grab h h' \<Longrightarrow> heap_step h h'"
  by (induction rule: grab.induct) (rule heap_step.alloc)

lemma grabs_heap_reach: "grab\<^sup>*\<^sup>* h h' \<Longrightarrow> heap_reach s0 h \<Longrightarrow> heap_reach s0 h'"
  by (induction rule: rtranclp_induct) (auto intro: heap_reach.step grab_heap_step)

text \<open>A heap from which single pages can be allocated up to page t.\<close>

definition fillable :: "nat \<Rightarrow> nat \<Rightarrow> pmm \<Rightarrow> bool" where
  "fillable g t s \<longleftrightarrow> bits (pmm_bitmap s) \<le> bit_cap \<and> sentinel (pmm_bitmap s) (mem s) g \<and> pages_fit s
     \<and> 0 \<in> used_set (pmm_bitmap s) (mem s) \<and> t < unat (total_pages (pmm_bitmap s))
     \<and> unat (used_pages (pmm_bitmap s)) + card (free_upto s t) \<le> unat (total_pages (pmm_bitmap s))"

lemma fillable_kalloc:
  assumes "fillable g t s" "t \<notin> used_set (pmm_bitmap s) (mem s)"
  shows "\<exists>i s'. kalloc 1 s = (page_ptr s i, s') \<and> page_ptr s i \<noteq> 0 \<and> 0 < i \<and> i \<le> t
    \<and> i \<notin> used_set (pmm_bitmap s) (mem s) \<and> (\<forall>j<i. j \<in> used_set (pmm_bitmap s) (mem s))
    \<and> used_set (pmm_bitmap s') (mem s') = insert i (used_set (pmm_bitmap s) (mem s))
    \<and> same_layout s s' \<and> unat (used_pages (pmm_bitmap s')) = Suc (unat (used_pages (pmm_bitmap s)))
    \<and> fillable g t s' \<and> card (free_upto s t) = Suc (card (free_upto s' t))"
proof -
  let ?b = "pmm_bitmap s"
  from assms(1) have h: "bits ?b \<le> bit_cap" "sentinel ?b (mem s) g" "pages_fit s" "0 \<in> used_set ?b (mem s)"
      "t < unat (total_pages ?b)" "unat (used_pages ?b) + card (free_upto s t) \<le> unat (total_pages ?b)"
    by (simp_all add: fillable_def)
  have "t \<in> free_upto s t" using assms(2) by (simp add: free_upto_def)
  then have "0 < card (free_upto s t)" by (auto simp: card_gt_0_iff)
  with h(6) have lt: "unat (used_pages ?b) < unat (total_pages ?b)" by simp
  then have "used_pages ?b < total_pages ?b" by (simp add: word_less_nat_alt)
  from kalloc_one [OF h(1,2) this h(4) assms(2) h(5)] obtain i s'
    where k: "kalloc 1 s = (page_ptr s i, s')" "0 < i" "i \<le> t" "i \<notin> used_set ?b (mem s)"
      "\<forall>j<i. j \<in> used_set ?b (mem s)" "used_set (pmm_bitmap s') (mem s') = insert i (used_set ?b (mem s))"
      "same_layout s s'" "used_pages (pmm_bitmap s') = used_pages ?b + 1" by blast
  note sl = same_layout_simps [OF k(7)] and sf = same_layout_fields [OF k(7)]
  have "g < bits ?b" "unat (total_pages ?b) \<le> g" using h(2) by (auto simp: sentinel_def)
  then have ib: "i < bits ?b" using k(3) h(5) by simp
  have ptr: "page_ptr s i \<noteq> 0" by (rule page_ptr_nonzero [OF h(3,1) ib k(2)])
  have cnt: "unat (used_pages (pmm_bitmap s')) = Suc (unat (used_pages ?b))"
  proof -
    have "unat (total_pages ?b) < 18446744073709551616" by (rule order_less_le_trans [OF unsigned_less]) simp
    with lt have "unat (used_pages ?b) + 1 < 18446744073709551616" by linarith
    then show ?thesis unfolding k(8) by (subst unat_add_lem [THEN iffD1]) simp_all
  qed
  have "free_upto s t = insert i (free_upto s' t)" "i \<notin> free_upto s' t"
    using k(3,4) unfolding free_upto_def k(6) by auto
  then have card: "card (free_upto s t) = Suc (card (free_upto s' t))" by simp
  have "fillable g t s'"
    using h cnt card unfolding fillable_def sentinel_used_set sl sf k(6) [unfolded sl] by auto
  with k ptr cnt card show ?thesis by blast
qed

lemma kalloc_until:
  assumes "fillable g t s" "t \<notin> used_set (pmm_bitmap s) (mem s)"
  shows "\<exists>s' L'. grab\<^sup>*\<^sup>* (s, L) (s', L') \<and> same_layout s s' \<and> set L \<subseteq> set L' \<and> (page_ptr s t, 1) \<in> set L'
    \<and> (\<forall>k. k \<in> used_set (pmm_bitmap s') (mem s') \<longleftrightarrow> k \<le> t \<or> k \<in> used_set (pmm_bitmap s) (mem s))
    \<and> unat (used_pages (pmm_bitmap s')) = unat (used_pages (pmm_bitmap s)) + card (free_upto s t)"
  using assms
proof (induction "card (free_upto s t)" arbitrary: s L)
  case 0
  from fillable_kalloc [OF 0(2,3)] 0(1) show ?case by auto
next
  case (Suc n)
  from fillable_kalloc [OF Suc.prems] obtain i s1
    where k: "kalloc 1 s = (page_ptr s i, s1)" "page_ptr s i \<noteq> 0" "i \<le> t"
      "\<forall>j<i. j \<in> used_set (pmm_bitmap s) (mem s)"
      "used_set (pmm_bitmap s1) (mem s1) = insert i (used_set (pmm_bitmap s) (mem s))" "same_layout s s1"
      "unat (used_pages (pmm_bitmap s1)) = Suc (unat (used_pages (pmm_bitmap s)))"
      "fillable g t s1" "card (free_upto s t) = Suc (card (free_upto s1 t))" by blast
  let ?L1 = "(page_ptr s i, 1) # L"
  have r1: "grab (s, L) (s1, ?L1)" by (rule grab.intros [OF k(1,2)])
  note sl = same_layout_simps [OF k(6)]
  show ?case
  proof (cases "i = t")
    case True
    have "free_upto s t = {t}" using k(4) Suc.prems(2) unfolding True by (auto simp: free_upto_def le_less)
    then have "card (free_upto s t) = 1" by simp
    with r_into_rtranclp [of grab, OF r1] k(6,7) k(4,5) show ?thesis unfolding True
      by (intro exI [of _ s1] exI [of _ "(page_ptr s t, 1) # L"]) (auto simp: le_less)
  next
    case False
    then have "t \<notin> used_set (pmm_bitmap s1) (mem s1)" unfolding k(5) using Suc.prems(2) by simp
    moreover have "n = card (free_upto s1 t)" using Suc.hyps(2) k(9) by simp
    ultimately obtain s' L' where r: "grab\<^sup>*\<^sup>* (s1, ?L1) (s', L')" "same_layout s1 s'" "set ?L1 \<subseteq> set L'"
        "(page_ptr s t, 1) \<in> set L'"
        "\<forall>x. x \<in> used_set (pmm_bitmap s') (mem s') \<longleftrightarrow> x \<le> t \<or> x \<in> used_set (pmm_bitmap s1) (mem s1)"
        "unat (used_pages (pmm_bitmap s')) = unat (used_pages (pmm_bitmap s1)) + card (free_upto s1 t)"
      using Suc.hyps(1) [OF _ k(8)] unfolding sl(1) by blast
    have "\<forall>x. x \<in> used_set (pmm_bitmap s') (mem s') \<longleftrightarrow> x \<le> t \<or> x \<in> used_set (pmm_bitmap s) (mem s)"
      using r(5) k(3) unfolding k(5) by auto
    with converse_rtranclp_into_rtranclp [of grab, OF r1 r(1)] r(3,4,6) same_layout_trans [OF k(6) r(2)] k(7,9) show ?thesis
      by (intro exI [of _ s'] exI [of _ L']) auto
  qed
qed

section \<open>Writing into the storage\<close>

text \<open>
  Page R of a bitmap at the bottom of memory holds the bits of the 32768 pages from 32768 * R on.
  A byte that has only the bit of page t clear leaves t free and the other seven used.
\<close>

lemma page_write_frees:
  assumes cap: "bits (pmm_bitmap s) \<le> bit_cap" and t: "t < bits (pmm_bitmap s)"
  defines "a \<equiv> bm_map (pmm_bitmap s) + of_nat (t div 8)"
  defines "s' \<equiv> s\<lparr>mem := (mem s)(a := NOT (push_bit (t mod 8) 1))\<rparr>"
  shows "same_layout s s'" "pmm_bitmap s' = pmm_bitmap s" "t \<notin> used_set (pmm_bitmap s') (mem s')"
    and "\<And>k. k \<noteq> t \<Longrightarrow> k \<in> used_set (pmm_bitmap s) (mem s) \<Longrightarrow> k \<in> used_set (pmm_bitmap s') (mem s')"
proof -
  show "same_layout s s'" "pmm_bitmap s' = pmm_bitmap s"
    by (auto simp: same_layout_def s'_def intro: exI [of _ "used_pages (pmm_bitmap s)"])
  have bit8: "bit (NOT (push_bit (t mod 8) 1) :: u8) (k mod 8) \<longleftrightarrow> k mod 8 \<noteq> t mod 8" for k
    by (auto simp: bit_not_iff bit_push_bit_iff bit_1_iff bit_exp_iff)
  show "t \<notin> used_set (pmm_bitmap s') (mem s')"
    using bit8 [of t] by (simp add: used_set_def page_bit_def s'_def a_def)
  fix k assume k: "k \<noteq> t" "k \<in> used_set (pmm_bitmap s) (mem s)"
  show "k \<in> used_set (pmm_bitmap s') (mem s')"
  proof (cases "k div 8 = t div 8")
    case True
    then have "k mod 8 \<noteq> t mod 8" using k(1) by (metis mod_div_decomp)
    then show ?thesis using k(2) True bit8 [of k] by (simp add: used_set_def page_bit_def s'_def a_def)
  next
    case False
    have small: "k div 8 < 18446744073709551616" "t div 8 < 18446744073709551616"
      using k(2) t cap by (auto simp: used_set_def bit_cap_def)
    have "(of_nat (k div 8) :: u64) \<noteq> of_nat (t div 8)"
    proof
      assume "(of_nat (k div 8) :: u64) = of_nat (t div 8)"
      then have "unat (of_nat (k div 8) :: u64) = unat (of_nat (t div 8) :: u64)" by (rule arg_cong)
      then show False using False small by (simp add: unat_of_nat)
    qed
    then show ?thesis using k(2) by (simp add: used_set_def page_bit_def s'_def a_def)
  qed
qed

lemma storage_byte:
  assumes "bitmap_at_bottom s" "t div 32768 = R"
  shows "in_region (bm_map (pmm_bitmap s) + of_nat (t div 8)) (page_ptr s R) 4096"
proof -
  have r: "t div 8 = 4096 * R + t mod 32768 div 8"
  proof -
    have "t = t mod 32768 + 4096 * R * 8" unfolding assms(2) [symmetric] by simp
    then have "t div 8 = (t mod 32768 + 4096 * R * 8) div 8" by (rule arg_cong)
    then show ?thesis by simp
  qed
  have "bm_map (pmm_bitmap s) + of_nat (t div 8) - page_ptr s R = of_nat (t mod 32768 div 8)"
    using assms(1) unfolding r page_ptr_def BIT_TO_PAGE_def bitmap_at_bottom_def by simp
  moreover have "t mod 32768 div 8 < 4096" by (simp add: less_mult_imp_div_less)
  ultimately show ?thesis by (simp add: in_region_def unat_of_nat)
qed

section \<open>Two owners of one page\<close>

text \<open>
  From a heap whose page R lies in the storage of the bitmap and is free, clients that only
  allocate single pages and write into a page they were given reach two allocations of page t.
\<close>

lemma fillable_below:
  assumes "bits (pmm_bitmap s) \<le> bit_cap" "sentinel (pmm_bitmap s) (mem s) g" "pages_fit s"
    and "0 \<in> used_set (pmm_bitmap s) (mem s)"
    and "unat (used_pages (pmm_bitmap s)) + t < unat (total_pages (pmm_bitmap s))"
  shows "fillable g t s"
  using assms free_upto_card [of s t] by (simp add: fillable_def)

lemma both_pages_live:
  assumes base: "bits (pmm_bitmap s) \<le> bit_cap" "sentinel (pmm_bitmap s) (mem s) g" "pages_fit s"
      "0 \<in> used_set (pmm_bitmap s) (mem s)"
    and R: "R \<notin> used_set (pmm_bitmap s) (mem s)" "0 < R"
    and t: "t div 32768 = R" "t \<notin> used_set (pmm_bitmap s) (mem s)"
    and room: "unat (used_pages (pmm_bitmap s)) + t < unat (total_pages (pmm_bitmap s))"
  shows "\<exists>s' L. grab\<^sup>*\<^sup>* (s, []) (s', L) \<and> same_layout s s' \<and> (page_ptr s R, 1) \<in> set L \<and> (page_ptr s t, 1) \<in> set L
    \<and> (\<forall>k. k \<in> used_set (pmm_bitmap s') (mem s') \<longleftrightarrow> k \<le> t \<or> k \<in> used_set (pmm_bitmap s) (mem s))
    \<and> unat (used_pages (pmm_bitmap s')) < unat (total_pages (pmm_bitmap s))"
proof -
  let ?U = "\<lambda>s. used_set (pmm_bitmap s) (mem s)" and ?n = "\<lambda>s. unat (used_pages (pmm_bitmap s))"
  have Rt: "R < t" using t(1) R(2) by auto
  then have "fillable g R s" using room by (intro fillable_below base) simp
  from kalloc_until [OF this R(1), of "[]"] obtain s1 L1
    where r1: "grab\<^sup>*\<^sup>* (s, []) (s1, L1)" and l1: "same_layout s s1" and o1: "(page_ptr s R, 1) \<in> set L1"
      and u1: "\<And>k. k \<in> ?U s1 \<longleftrightarrow> k \<le> R \<or> k \<in> ?U s" and n1: "?n s1 = ?n s + card (free_upto s R)" by blast
  note e1 = same_layout_simps [OF l1] same_layout_fields [OF l1]
  have split: "free_upto s t = free_upto s R \<union> free_upto s1 t" "free_upto s R \<inter> free_upto s1 t = {}"
    using Rt by (auto simp: free_upto_def u1)
  have card: "card (free_upto s t) = card (free_upto s R) + card (free_upto s1 t)"
    unfolding split(1) by (rule card_Un_disjoint) (use split(2) in auto)
  have n2': "?n s1 + card (free_upto s1 t) < unat (total_pages (pmm_bitmap s))"
    using n1 card room free_upto_card [OF base(4), of t] by simp
  have "fillable g t s1"
    using base n2' room u1 [unfolded e1] unfolding fillable_def e1 sentinel_used_set by auto
  from kalloc_until [OF this, of L1] obtain s2 L2 where r2: "grab\<^sup>*\<^sup>* (s1, L1) (s2, L2)" and l2': "same_layout s1 s2"
      and sub: "set L1 \<subseteq> set L2" and o2: "(page_ptr s t, 1) \<in> set L2"
      and v2: "\<And>k. k \<in> ?U s2 \<longleftrightarrow> k \<le> t \<or> k \<in> ?U s1" and n2: "?n s2 = ?n s1 + card (free_upto s1 t)"
    using t(2) Rt unfolding u1 e1(1) by auto
  have u2: "k \<in> ?U s2 \<longleftrightarrow> k \<le> t \<or> k \<in> ?U s" for k using v2 [of k] u1 [of k] Rt by auto
  have l2: "same_layout s s2" by (rule same_layout_trans [OF l1 l2'])
  have "?n s2 < unat (total_pages (pmm_bitmap s))" using n2 n2' by simp
  with rtranclp_trans [OF r1 r2] l2 sub o1 o2 u2 show ?thesis by blast
qed

text \<open>
  The run of the client: pages are grabbed one by one until t is handed out, the byte with the bit
  of t is written in page R, and the next page grabbed is t again.
\<close>

lemma corrupting_client:
  assumes base: "bits (pmm_bitmap s) \<le> bit_cap" "sentinel (pmm_bitmap s) (mem s) g" "pages_fit s"
      "0 \<in> used_set (pmm_bitmap s) (mem s)"
    and geo: "bitmap_at_bottom s"
    and R: "R \<notin> used_set (pmm_bitmap s) (mem s)" "0 < R"
    and t: "t div 32768 = R" "t \<notin> used_set (pmm_bitmap s) (mem s)"
    and room: "unat (used_pages (pmm_bitmap s)) + t < unat (total_pages (pmm_bitmap s))"
  shows "\<exists>s1 L a v s2. grab\<^sup>*\<^sup>* (s, []) (s1, L) \<and> (page_ptr s R, 1) \<in> set L \<and> in_region a (page_ptr s R) 4096
    \<and> grab (s1\<lparr>mem := (mem s1)(a := v)\<rparr>, L) (s2, (page_ptr s t, 1) # L) \<and> (page_ptr s t, 1) \<in> set L"
proof -
  let ?U = "\<lambda>s. used_set (pmm_bitmap s) (mem s)" and ?n = "\<lambda>s. unat (used_pages (pmm_bitmap s))"
  have Rt: "R < t" using t(1) R(2) by auto
  from both_pages_live [OF base R t room] obtain s2 L2 where r2: "grab\<^sup>*\<^sup>* (s, []) (s2, L2)" and l2: "same_layout s s2"
      and o1: "(page_ptr s R, 1) \<in> set L2" and o2: "(page_ptr s t, 1) \<in> set L2"
      and u2: "\<And>k. k \<in> ?U s2 \<longleftrightarrow> k \<le> t \<or> k \<in> ?U s" and n2: "?n s2 < unat (total_pages (pmm_bitmap s))" by blast
  note e2 = same_layout_simps [OF l2] same_layout_fields [OF l2]
  let ?a = "bm_map (pmm_bitmap s2) + of_nat (t div 8)"
  define s3 where "s3 = s2\<lparr>mem := (mem s2)(?a := NOT (push_bit (t mod 8) 1))\<rparr>"
  have tb: "t < bits (pmm_bitmap s)" using base(2) room by (simp add: sentinel_def)
  note w = page_write_frees [of s2 t, folded s3_def, unfolded e2(4), OF base(1) tb]
  have a: "in_region ?a (page_ptr s R) 4096"
    using storage_byte [OF geo t(1)] unfolding e2 .
  have l3: "same_layout s s3" by (rule same_layout_trans [OF l2 w(1)])
  note e3 = same_layout_simps [OF l3] same_layout_fields [OF l3]
  have below: "k \<in> ?U s3" if "k < t" for k using w(4) [of k] u2 [of k] that by simp
  have "free_upto s3 t = {t}" using below w(3) by (auto simp: free_upto_def le_less)
  then have "card (free_upto s3 t) = 1" by simp
  moreover have "g \<in> ?U s3" using base(2) room w(4) [of g] u2 [of g] by (auto simp: sentinel_used_set)
  moreover have "0 \<in> ?U s3" using Rt by (intro below) simp
  ultimately have "fillable g t s3"
    using base(1-3) n2 room w(2) unfolding fillable_def sentinel_used_set e3 by auto
  from fillable_kalloc [OF this w(3)] obtain i s4
    where k: "kalloc 1 s3 = (page_ptr s3 i, s4)" "page_ptr s3 i \<noteq> 0" "i \<le> t" "i \<notin> ?U s3" by blast
  have "i = t" using k(3,4) below by (meson le_neq_implies_less)
  then have "grab (s3, L2) (s4, (page_ptr s t, 1) # L2)" using grab.intros [OF k(1,2), of L2] by (simp add: e3)
  with r2 o1 o2 a show ?thesis unfolding s3_def by blast
qed

section \<open>Property\<close>

text \<open>
  C10. The bitmap is not safe from the clients of kalloc.  Let pmm_initialize return with the bitmap
  at the bottom of the usable memory, one of its bits to spare, the pages in the direct map, and
  the page R right behind the reserved ones free; let t be a free page whose bit lies in page R,
  such that t allocations fit below the count of pages.  Then a client that does nothing but
  allocate single pages gets both R and t; after it has written one byte into its page R, the next
  page it allocates is t again: two of its live allocations share the page.
\<close>

theorem kalloc_hands_out_twice:
  assumes "boot_ok es s" "pmm_initialize es s = Inr (es', s')" "bitmap_at_bottom s'" "pages_fit s'"
    and "unat (total_pages (pmm_bitmap s')) + reserved_pages (pmm_bitmap s') < bits (pmm_bitmap s')"
    and "reserved_pages (pmm_bitmap s') \<notin> used_set (pmm_bitmap s') (mem s')"
    and "t div 32768 = reserved_pages (pmm_bitmap s')" "t \<notin> used_set (pmm_bitmap s') (mem s')"
    and "unat (used_pages (pmm_bitmap s')) + t < unat (total_pages (pmm_bitmap s'))"
  shows "\<exists>s1 L a v s2. grab\<^sup>*\<^sup>* (s', []) (s1, L)
    \<and> (page_ptr s' (reserved_pages (pmm_bitmap s')), 1) \<in> set L
    \<and> in_region a (page_ptr s' (reserved_pages (pmm_bitmap s'))) 4096
    \<and> grab (s1\<lparr>mem := (mem s1)(a := v)\<rparr>, L) (s2, (page_ptr s' t, 1) # L)
    \<and> (page_ptr s' t, 1) \<in> set L \<and> \<not> disjoint_runs s2 ((page_ptr s' t, 1) # L)"
proof -
  note sg = start_guarded [OF assms(1,2,5)]
  from corrupting_client [OF sg(1,7) assms(4) sg(2) assms(3,6) sg(3) assms(7-9)]
  obtain s1 L a v s2 where r: "grab\<^sup>*\<^sup>* (s', []) (s1, L)" "(page_ptr s' (reserved_pages (pmm_bitmap s')), 1) \<in> set L"
      "in_region a (page_ptr s' (reserved_pages (pmm_bitmap s'))) 4096"
      "grab (s1\<lparr>mem := (mem s1)(a := v)\<rparr>, L) (s2, (page_ptr s' t, 1) # L)" "(page_ptr s' t, 1) \<in> set L" by blast
  have "run_of s2 (page_ptr s' t, 1) \<noteq> {}" by (simp add: run_of_def)
  with r(5) have "\<not> disjoint_runs s2 ((page_ptr s' t, 1) # L)" by auto
  with r show ?thesis by blast
qed

theorem kalloc_hands_out_twice_witness:
  "\<exists>es' s' s1 L a v s2. pmm_initialize demo_map demo_boot = Inr (es', s') \<and> grab\<^sup>*\<^sup>* (s', []) (s1, L)
    \<and> (page_ptr s' 1, 1) \<in> set L \<and> in_region a (page_ptr s' 1) 4096
    \<and> grab (s1\<lparr>mem := (mem s1)(a := v)\<rparr>, L) (s2, (page_ptr s' 32768, 1) # L) \<and> (page_ptr s' 32768, 1) \<in> set L"
proof -
  from pmm_initialize_booted [OF demo_boot_ok] obtain e es' s'
    where r: "pmm_initialize demo_map demo_boot = Inr (es', s')" and bt: "booted demo_map demo_boot e es' s'" by blast
  note d = demo_booted [OF bt]
  have R: "reserved_pages (pmm_bitmap s') = 1" by (simp add: reserved_pages_def d)
  have free: "32768 \<notin> used_set (pmm_bitmap s') (mem s')" "1 \<notin> used_set (pmm_bitmap s') (mem s')"
    using booted_free_iff [OF demo_boot_ok bt, of 32768] booted_free_iff [OF demo_boot_ok bt, of 1]
    unfolding d by (simp_all add: covers_def)
  have bot: "bitmap_at_bottom s'" using booted_numbers(5) [OF demo_boot_ok bt] by (simp add: bitmap_at_bottom_def d)
  have fit: "pages_fit s'" by (simp add: pages_fit_def d)
  have "unat (total_pages (pmm_bitmap s')) + 1 < bits (pmm_bitmap s')"
    and "unat (used_pages (pmm_bitmap s')) + 32768 < unat (total_pages (pmm_bitmap s'))"
    by (simp_all add: d)
  from kalloc_hands_out_twice [OF demo_boot_ok r bot fit, unfolded R, OF this(1) free(2) _ free(1) this(2)] r
  show ?thesis by (simp, blast)
qed

end
