(* ===== verification/Terminal_Text.thy ===== *)
theory Terminal_Text
  imports Terminal_Screen
begin

text \<open>
  Text on the screen.  \<open>typeset\<close> places the characters of a text: one after the other by the
  advance of their glyphs, on a new line after a newline or when the right edge is reached.  A
  terminal that writes a text paints the glyphs of the placed characters, and so does a printf
  whose characters go to the terminal.
\<close>

section \<open>Placing characters\<close>

definition glyph_of :: "font \<Rightarrow> u8 \<Rightarrow> u64 option" where
  "glyph_of f c = find_chr f (ucast c) (ucast (characters_offs (ssfn_header f))) 0"

definition advance :: "font \<Rightarrow> u8 \<Rightarrow> int" where
  "advance f c = (case glyph_of f c of None \<Rightarrow> 0 | Some chr \<Rightarrow> uint (f (chr + 4)))"

text \<open>A character's ink at a distance from the pen.\<close>

definition char_bit :: "font \<Rightarrow> u8 \<Rightarrow> int \<Rightarrow> int \<Rightarrow> bool" where
  "char_bit f c dx dy = (case glyph_of f c of None \<Rightarrow> False | Some chr \<Rightarrow> glyph_bit f chr 0 (chr + 6) dx dy)"

text \<open>Where the pen is after a character, on a screen of width w with lines of height h.\<close>

fun next_pen :: "font \<Rightarrow> int \<Rightarrow> int \<Rightarrow> u8 \<Rightarrow> int \<times> int \<Rightarrow> int \<times> int" where
  "next_pen f w h c (x, y) =
     (if c = 0x0A \<or> w \<le> x + advance f c then (0, y + h) else (x + advance f c, y))"

definition pen_after :: "font \<Rightarrow> int \<Rightarrow> int \<Rightarrow> u8 list \<Rightarrow> int \<times> int \<Rightarrow> int \<times> int" where
  "pen_after f w h = fold (next_pen f w h)"

fun typeset :: "font \<Rightarrow> int \<Rightarrow> int \<Rightarrow> u8 list \<Rightarrow> int \<times> int \<Rightarrow> (u8 \<times> int \<times> int) list" where
  "typeset f w h [] p = []"
| "typeset f w h (c # cs) p =
     (if c = 0x0A then typeset f w h cs (next_pen f w h c p)
      else (c, p) # typeset f w h cs (next_pen f w h c p))"

definition ink :: "font \<Rightarrow> (u8 \<times> int \<times> int) list \<Rightarrow> int \<Rightarrow> int \<Rightarrow> bool" where
  "ink f ps cx cy = list_ex (\<lambda>(c, x, y). char_bit f c (cx - x) (cy - y)) ps"

lemma ink_simps [simp]:
  "ink f [] cx cy = False"
  "ink f ((c, x, y) # ps) cx cy = (char_bit f c (cx - x) (cy - y) \<or> ink f ps cx cy)"
  by (simp_all add: ink_def)

lemma pen_after_simps [simp]:
  "pen_after f w h [] p = p"
  "pen_after f w h (c # cs) p = pen_after f w h cs (next_pen f w h c p)"
  by (simp_all add: pen_after_def)

lemma pen_after_below: "0 \<le> h \<Longrightarrow> snd p \<le> snd (pen_after f w h cs p)"
proof (induction cs arbitrary: p)
  case (Cons c cs)
  have "snd p \<le> snd (next_pen f w h c p)" using Cons.prems by (cases p) simp
  with Cons show ?case by (simp add: order_trans)
qed simp

section \<open>One character\<close>

text \<open>What the terminal needs to draw: a font of the right format, a buffer, no background colour, and horizontal writing.\<close>

definition draws_text :: "tty \<Rightarrow> bool" where
  "draws_text t \<longleftrightarrow> tty_ok t \<and> dst_bg (tty_dst t) = 0 \<and> dst_ptr (tty_dst t) \<noteq> 0 \<and>
     bytes_at (tty_font t) 0 4 = bytes_of ''SFN2''"

definition horizontal :: "font \<Rightarrow> u8 \<Rightarrow> bool" where
  "horizontal f c = (case glyph_of f c of None \<Rightarrow> True | Some chr \<Rightarrow> f (chr + 5) = 0)"

definition pen :: "tty \<Rightarrow> int \<times> int" where
  "pen t = (dst_x (tty_dst t), dst_y (tty_dst t))"

definition picture :: "tty \<Rightarrow> int \<times> int \<rightharpoonup> u32" where
  "picture t = screen (tty_dst t) (tty_mem t)"

text \<open>The picture with the ink of placed characters over it, in the text colour.\<close>

definition inked :: "tty \<Rightarrow> (u8 \<times> int \<times> int) list \<Rightarrow> int \<times> int \<rightharpoonup> u32" where
  "inked t ps = (\<lambda>(cx, cy). if on_screen (tty_dst t) cx cy \<and> ink (tty_font t) ps cx cy
     then Some (dst_fg (tty_dst t)) else picture t (cx, cy))"

lemma screen_pen [simp]:
  "screen (d\<lparr>dst_x := x, dst_y := y\<rparr>) = screen d" "on_screen (d\<lparr>dst_x := x, dst_y := y\<rparr>) = on_screen d"
  by (simp_all add: fun_eq_iff screen_def on_screen_def pixel_def split: prod.split)

lemma ssfn_putc_text:
  assumes "draws_text t" "horizontal (tty_font t) c"
  shows "\<exists>r m. ssfn_putc (ucast c) (Some (tty_font t)) (tty_dst t, tty_mem t) =
      (r, (tty_dst t)\<lparr>dst_x := dst_x (tty_dst t) + advance (tty_font t) c\<rparr>, m)
    \<and> screen (tty_dst t) m = inked t [(c, pen t)]"
proof -
  let ?f = "tty_font t" and ?d = "tty_dst t" and ?m = "tty_mem t"
  have g: "geometry_ok ?d" "0 \<le> dst_x ?d" "0 \<le> dst_y ?d" and dr: "dst_bg ?d = 0" "dst_ptr ?d \<noteq> 0"
      "bytes_at ?f 0 4 = bytes_of ''SFN2''"
    using assms(1) by (simp_all add: draws_text_def tty_ok_def)
  obtain r d' m where put: "ssfn_putc (ucast c) (Some ?f) (?d, ?m) = (r, d', m)" by (metis prod_cases3)
  note fr = ssfn_putc_frame [OF g, where unicode = "ucast c" and src = "Some ?f" and m = ?m, unfolded put split]
  show ?thesis
  proof (cases "glyph_of ?f c")
    case None
    then have "r \<noteq> SSFN_OK" using fr by (auto simp: glyph_of_def split: if_splits)
    then have "d' = ?d" "m = ?m" using fr by (auto split: if_splits)
    moreover have "inked t [(c, pen t)] = screen ?d ?m"
      using None by (auto simp: inked_def picture_def pen_def char_bit_def fun_eq_iff)
    ultimately show ?thesis using put None by (simp add: advance_def)
  next
    case (Some chr)
    have fc: "find_chr ?f (ucast c) (ucast (characters_offs (ssfn_header ?f))) 0 = Some chr"
      using Some by (simp add: glyph_of_def)
    have "screen ?d m = inked t [(c, pen t)]"
      using ssfn_putc_draws [OF g(1,3) dr fc, of ?m] Some
      by (simp add: put inked_def picture_def pen_def char_bit_def fun_eq_iff)
    moreover have "dst_p ?d \<noteq> 0" using g(1) by (auto simp: geometry_ok_def)
    have "bytes_at ?f 0 4 = [0x53, 0x46, 0x4E, 0x32]"
      unfolding dr(3) by code_simp
    then have mg: "?f 0 = 0x53" "?f 1 = 0x46" "?f 2 = 0x4E" "?f 3 = 0x32"
      by (simp_all add: bytes_at_def eval_nat_numeral)
    have "r = SSFN_OK"
      using put fc dr(2) \<open>dst_p ?d \<noteq> 0\<close> mg by (simp add: ssfn_putc_def Let_def split: prod.splits)
    then have "d' = ?d\<lparr>dst_x := dst_x ?d + advance ?f c, dst_y := dst_y ?d + uint (?f (chr + 5))\<rparr>"
      using fr fc Some by (auto simp: advance_def)
    moreover have "?f (chr + 5) = 0" using assms(2) Some by (simp add: horizontal_def)
    ultimately show ?thesis using put by simp
  qed
qed

lemma terminal_putchar_text:
  assumes dt: "draws_text t" and hz: "c = 0x0A \<or> horizontal (tty_font t) c"
    and fit: "snd (next_pen (tty_font t) (dst_w (tty_dst t)) (uint (cell_height t)) c (pen t)) < dst_h (tty_dst t)"
  defines "t' \<equiv> terminal_putchar c t"
  shows "draws_text t'" "tty_font t' = tty_font t" "cell_height t' = cell_height t"
    and "pen t' = next_pen (tty_font t) (dst_w (tty_dst t)) (uint (cell_height t)) c (pen t)"
    and "tty_dst t' = (tty_dst t)\<lparr>dst_x := fst (pen t'), dst_y := snd (pen t')\<rparr>"
    and "picture t' = inked t (if c = 0x0A then [] else [(c, pen t)])"
proof -
  let ?f = "tty_font t" and ?d = "tty_dst t" and ?h = "uint (cell_height t)"
  have ok: "tty_ok t" using dt by (simp add: draws_text_def)
  have main: "\<exists>m. t' = t\<lparr>tty_dst := ?d\<lparr>dst_x := fst (next_pen ?f (dst_w ?d) ?h c (pen t)),
        dst_y := snd (next_pen ?f (dst_w ?d) ?h c (pen t))\<rparr>, tty_mem := m\<rparr>
      \<and> screen ?d m = inked t (if c = 0x0A then [] else [(c, pen t)])"
  proof (cases "c = 0x0A")
    case True
    then show ?thesis using fit
      by (intro exI [of _ "tty_mem t"])
        (simp add: t'_def terminal_putchar_def pen_def inked_def picture_def Let_def fun_eq_iff)
  next
    case False
    with hz have "horizontal ?f c" by simp
    from ssfn_putc_text [OF dt this] obtain r m
      where p: "ssfn_putc (ucast c) (Some ?f) (?d, tty_mem t) = (r, ?d\<lparr>dst_x := dst_x ?d + advance ?f c\<rparr>, m)"
        and s: "screen ?d m = inked t [(c, pen t)]" by blast
    have "dst_y ?d < dst_h ?d" using ok by (simp add: tty_ok_def)
    then show ?thesis using fit s False
      by (intro exI [of _ m]) (auto simp: t'_def terminal_putchar_def pen_def Let_def p)
  qed
  then obtain m where m: "t' = t\<lparr>tty_dst := ?d\<lparr>dst_x := fst (next_pen ?f (dst_w ?d) ?h c (pen t)),
        dst_y := snd (next_pen ?f (dst_w ?d) ?h c (pen t))\<rparr>, tty_mem := m\<rparr>"
      "screen ?d m = inked t (if c = 0x0A then [] else [(c, pen t)])" by blast
  show "tty_font t' = tty_font t" "cell_height t' = cell_height t" by (simp_all add: m(1) cell_height_def)
  show p: "pen t' = next_pen ?f (dst_w ?d) ?h c (pen t)" by (simp add: m(1) pen_def)
  show "tty_dst t' = ?d\<lparr>dst_x := fst (pen t'), dst_y := snd (pen t')\<rparr>" unfolding p by (simp add: m(1))
  show "picture t' = inked t (if c = 0x0A then [] else [(c, pen t)])" unfolding picture_def by (simp add: m)
  have "tty_ok t'" unfolding t'_def by (rule terminal_putchar_ok(1) [OF ok])
  then show "draws_text t'" using dt by (simp add: draws_text_def m(1))
qed

section \<open>A text\<close>

text \<open>The text fits: horizontal writing, and the pen ends above the bottom of the screen.\<close>

definition fits :: "tty \<Rightarrow> u8 list \<Rightarrow> bool" where
  "fits t bs \<longleftrightarrow> list_all (\<lambda>c. c = 0x0A \<or> horizontal (tty_font t) c) bs \<and>
     snd (pen_after (tty_font t) (dst_w (tty_dst t)) (uint (cell_height t)) bs (pen t)) < dst_h (tty_dst t)"

definition set_text :: "tty \<Rightarrow> u8 list \<Rightarrow> (u8 \<times> int \<times> int) list" where
  "set_text t bs = typeset (tty_font t) (dst_w (tty_dst t)) (uint (cell_height t)) bs (pen t)"

lemma fits_head:
  assumes "fits t (c # bs)"
  shows "c = 0x0A \<or> horizontal (tty_font t) c"
    and "snd (next_pen (tty_font t) (dst_w (tty_dst t)) (uint (cell_height t)) c (pen t)) < dst_h (tty_dst t)"
proof -
  show "c = 0x0A \<or> horizontal (tty_font t) c" using assms by (simp add: fits_def)
  have "snd (next_pen (tty_font t) (dst_w (tty_dst t)) (uint (cell_height t)) c (pen t)) \<le>
      snd (pen_after (tty_font t) (dst_w (tty_dst t)) (uint (cell_height t)) (c # bs) (pen t))"
    unfolding pen_after_simps by (rule pen_after_below) simp
  then show "snd (next_pen (tty_font t) (dst_w (tty_dst t)) (uint (cell_height t)) c (pen t)) < dst_h (tty_dst t)"
    using assms by (simp add: fits_def)
qed

lemma terminal_write_text:
  "draws_text t \<Longrightarrow> fits t bs \<Longrightarrow>
    draws_text (terminal_write bs t) \<and> picture (terminal_write bs t) = inked t (set_text t bs) \<and>
    pen (terminal_write bs t) = pen_after (tty_font t) (dst_w (tty_dst t)) (uint (cell_height t)) bs (pen t)"
proof (induction bs arbitrary: t)
  case Nil
  then show ?case by (simp add: terminal_write_def set_text_def inked_def fun_eq_iff)
next
  case (Cons c bs)
  let ?t = "terminal_putchar c t"
  note h = fits_head [OF Cons.prems(2)] and w = terminal_putchar_text [OF Cons.prems(1) h]
  have d: "dst_w (tty_dst ?t) = dst_w (tty_dst t)" "dst_h (tty_dst ?t) = dst_h (tty_dst t)"
      "dst_fg (tty_dst ?t) = dst_fg (tty_dst t)" "on_screen (tty_dst ?t) = on_screen (tty_dst t)"
    by (subst w(5), simp)+
  have st: "set_text ?t bs = typeset (tty_font t) (dst_w (tty_dst t)) (uint (cell_height t)) bs
      (next_pen (tty_font t) (dst_w (tty_dst t)) (uint (cell_height t)) c (pen t))"
    by (simp add: set_text_def w(2,3,4) d)
  have "fits ?t bs" using Cons.prems(2) by (simp add: fits_def w(2,3,4) d)
  note ih = Cons.IH [OF w(1) this]
  have "inked ?t (set_text ?t bs) = inked t (set_text t (c # bs))"
    unfolding inked_def [of ?t] w(2,6) d st unfolding inked_def set_text_def
    by (cases "pen t") (auto simp: fun_eq_iff)
  with ih show ?case by (simp add: terminal_write_def w(2,3,4) d)
qed

section \<open>Property\<close>

text \<open>
  C8. From a call of printf to the pixels.  On a terminal that can draw, a printf whose rendered
  text fits above the bottom of the screen returns, and the picture is the old one with the ink
  of the text's characters over it in the text colour, each placed by \<open>typeset\<close>: behind its
  predecessor by that one's advance, at the start of the next line after a newline or the right
  edge.  The pen is where the placing ends and the terminal can draw on.
\<close>

theorem printf_typesets:
  assumes "draws_text t" "render fmt va = Inr bs"
    and "fits t (filter (\<lambda>c. c \<noteq> 0) bs)"
  shows "\<exists>n t'. printf (putchar_char terminal_write_char) fmt va t = Inr (n, t') \<and> draws_text t' \<and>
    picture t' = (\<lambda>(cx, cy).
      if on_screen (tty_dst t) cx cy \<and> ink (tty_font t) (set_text t (filter (\<lambda>c. c \<noteq> 0) bs)) cx cy
      then Some (dst_fg (tty_dst t)) else picture t (cx, cy)) \<and>
    pen t' = pen_after (tty_font t) (dst_w (tty_dst t)) (uint (cell_height t)) (filter (\<lambda>c. c \<noteq> 0) bs) (pen t)"
  using terminal_write_text [OF assms(1,3)] assms(2)
  by (simp add: printf_render terminal_char_write inked_def)

theorem printf_typesets_witness:
  "\<exists>n t'. printf (putchar_char terminal_write_char) (lit ''A'') [] tiny_tty = Inr (n, t') \<and>
     picture t' (7, 0) = Some 7 \<and> picture t' (6, 0) = Some 0 \<and> pen t' = (0, 1)"
proof -
  let ?f = tiny_font
  have g: "glyph_of ?f 0x41 = Some 34" using tiny_glyph(2) by (simp add: glyph_of_def)
  have a: "?f (34 + 4) = 8" "?f (34 + 5) = 0" by code_simp+
  have st: "tty_font tiny_tty = ?f" "tty_dst tiny_tty = tiny_screen" "cell_height tiny_tty = 1"
      "pen tiny_tty = (0, 0)" "dst_w tiny_screen = 8" "dst_h tiny_screen = 2"
    by (simp_all add: tiny_tty_def cell_height_def tiny_height pen_def tiny_screen_def)
  have dt: "draws_text tiny_tty"
    using tiny_tty_ok tiny_ok tiny_glyph(1) by (simp add: draws_text_def st)
  have r: "render (lit ''A'') [] = Inr [0x41]"
    using render_plain [of "[0x41]" "[0]" "[]"] by (simp add: lit_def bytes_of_def of_char_def)
  have np: "next_pen ?f 8 1 0x41 (0, 0) = (0, 1)" by (simp add: advance_def g a [simplified])
  have "fits tiny_tty (filter (\<lambda>c. c \<noteq> 0) [0x41])"
    by (simp add: fits_def st np del: next_pen.simps) (simp add: horizontal_def g a [simplified])
  from printf_typesets [OF dt r this] obtain n t' where p:
    "printf (putchar_char terminal_write_char) (lit ''A'') [] tiny_tty = Inr (n, t')"
    "picture t' = (\<lambda>(cx, cy). if on_screen tiny_screen cx cy \<and> ink ?f [(0x41, 0, 0)] cx cy
      then Some (dst_fg (tty_dst tiny_tty)) else picture tiny_tty (cx, cy))" "pen t' = (0, 1)"
    by (auto simp: st set_text_def np simp del: next_pen.simps)
  have z: "load32 (\<lambda>_. 0) a = 0" for a by (rule bit_word_eqI) (simp add: bit_load32)
  have "on_screen tiny_screen 7 0" "on_screen tiny_screen 6 0" by (simp_all add: on_screen_def tiny_screen_def)
  moreover have "picture tiny_tty (6, 0) = Some 0"
    using \<open>on_screen tiny_screen 6 0\<close> by (simp add: picture_def screen_def st) (simp add: tiny_tty_def z)
  ultimately have "picture t' (7, 0) = Some 7" "picture t' (6, 0) = Some 0"
    using tiny_glyph(3,4) by (simp_all add: p(2) char_bit_def g st tiny_ok)
  with p(1,3) show ?thesis by blast
qed

end
