(* ===== verification/Spec2Isabelle.thy ===== *)
theory Spec2Isabelle
  imports Exceptions Apic Itoa Vga_Screen Ssfn_Table Printf_Total Pmm_Booted Pmm_Corruption Terminal_Text
begin

text \<open>
  Hippos: a small x86_64 kernel that the Limine boot loader starts, and the freestanding libc it
  is linked with.  This development models its C code, and the parts of its assembly that the
  processor runs on the way into an exception, as executable definitions, and proves what each
  component promises and that kernel_main puts them together.

  The program and its theories.

  \<^item> Prelude, Mem_Words: the machine integers under their C names (u8 to u64 are words, so that
    arithmetic wraps as the compiled code does), the memory as one byte per 64-bit address,
    little-endian access, \<open>outcome\<close> (a value, or the reason why there is none: an access
    outside an object, va_arg of the wrong type, a division by zero, a halt, an endless wait).

  \<^item> Libc_String: src/libc/string (memcpy, memmove, memset, memcmp, strlen).  Correctness for
    overlapping regions, lexicographic order, termination of strlen.

  \<^item> Itoa: src/libc/stdlib/itoa.c.  Equivalence with positional notation and the exact
    condition under which it returns.

  \<^item> Printf_Core, Binary64, Printf_Float, Printf_Format, Printf_Render, Printf_Shape,
    Printf_Total, Stdio:
    src/libc/stdio (printf.c, putchar.c, puts.c) and abort.c.  A call of printf interprets its
    format over a list of argument slots; the four output functions are parameters of the
    interpreter as they are in C.  \<open>render\<close> is the text of a call as a function of the format
    and the arguments; the interpreter refines it.  Binary64 is IEEE 754 binary64 arithmetic
    with round to nearest even on exact rationals, for the two floating conversions.
    Printf_Shape shows that, without floating-point arguments, whether a call has a text depends
    on the kinds of its arguments only, so that the formats of the kernel are checked once, by evaluation.  Printf_Total
    bounds the value _etoa hands to _ftoa, with the rounding of every operation of its
    approximation of the power of ten, so that no call of printf runs for ever.

  \<^item> Console, Klog, Console_Run: the calls components make to the console (ULOG_*, printf, text
    colour) as data, what each does (src/kernel/arch/x86_64/log/klog.c), and what a list of
    them does.  Ulog: the table of subscribers and message delivery of ulog.c, against a map
    from functions to thresholds (locale \<open>bounded_map\<close>), and what a message may do to the state
    of its subscribers (locale \<open>subscriber\<close>, interpreted on the two of klog.c).

  \<^item> Port_Io, Serial: src/kernel/include/kernel/io/io.h and the two drivers serial.c.  The
    program's side of the ports is the history of its accesses; the device is a parameter, a
    function from the history to the next byte read.

  \<^item> Ssfn, Ssfn_Screen, Ssfn_Table: the bitmap renderer ssfn_putc and ssfn_utf8 of
    src/kernel/include/kernel/ssfn.h, the part the kernel compiles in.  Terminal,
    Terminal_Screen: src/kernel/arch/x86_64/framebuffer/tty.c on top of it.  Vga_Tty,
    Vga_Screen: src/kernel/arch/i386/tty.c.  Screen_Contract: what printing code relies on of a
    terminal (locale \<open>char_screen\<close>), with both terminals as interpretations.  Terminal_Text:
    the picture a printf leaves on the frame buffer, as the ink of a typeset text.

  \<^item> Pmm_Bitmap, Pmm_Alloc, Pmm_Heap, Pmm_Init, Pmm_Boot: src/kernel/arch/x86_64/mem/pmm.c and
    pmm.h.  Bit operations (locale \<open>bit_array\<close>), first-fit allocation, reachable heap states
    under all sequences of client operations, and the start from the loader's memory map.
    Pmm_Refine: the abstract machine of free pages and live runs, and the simulation of every
    client move by it.  Both ask of the heap they start from that the pages of the bitmap's storage
    are used, which the start of the kernel does not always see to.  Pmm_Booted, Pmm_Corruption:
    what pmm_initialize means for the clients, when no usable memory is left in the storage of the
    bitmap (the heap is safe and circulates exactly the usable pages) and when the storage lies at
    the bottom of usable memory (one page can get two owners).
    Memory: hhdm.c, mem.c, vmm.h, macros.h, the memory-mapped accesses of io.h, and the dump of
    the bitmap with the binary macros of src/libc/include/printf.h.

  \<^item> Cpudet, Cpudet_Text: cpudet.c, with the CPUID instruction as a parameter.  Gdt, Idt: gdt.c,
    idt.c, asm/gdt.s and asm/idt.asm; the processor's reading of descriptors, gates and the
    stack is specified next to them.  The comment in gdt.h describes another table (larger limits,
    other flags, the user segments in the other order, a task state segment): the model is the one
    gdt.c builds.  Apic: apic.c, which the kernel does not call yet.

  \<^item> Kernel: kernel_main of src/kernel/kernel/kernel.c over the states of all of these.
    Exceptions: an exception on the machine kernel_main leaves behind, from its gate through the stub and the
    handler to the line on the serial port.

  How the parts interact.  A component that reports keeps the calls it makes in its own state;
  kernel_main runs them, on the terminal and the serial port, before it starts the next
  component.  So the log's table, the terminal, the serial port's history, the processor's
  registers and the allocator are states of their own; they share no memory (the loader places
  the frame buffer and the kernel outside usable memory).

  Bounds and fuel.  Loops whose end depends on data are recursive functions with a measure.
  Loops that may not end are partial functions into option: the wait for the serial port, the
  printing of the memory map (a counter of eight bits), strlen, itoa's digits.  The mutual calls
  of the floating conversions have a fuel of 4: _ftoa hands a value out of range to _etoa, and the
  value _etoa hands back is below 1000000000 in magnitude, which _ftoa prints itself; that three calls
  are enough is the lemma \<open>float_text_ends\<close> of Printf_Total.  The bitmap's operations are correct up to
  2 ^ 38 pages, where the 32-bit row number of bitmap_check wraps.

  What the theorems show.  Functional behaviour of each operation on every branch; invariants
  of the terminals and the heap over arbitrary sequences of operations; refinement of the
  allocator, the interpreter, the subscriber table, the renderer and the terminal's text output
  to their specifications; round trips of
  kalloc and kfree, of the interrupt gates and UTF-8; termination and its failures (a stuck
  serial port, itoa in base 1, more than 255 memory map entries); bounds of all conversion
  buffers; that the kernel boots to its last halt with every vector on its stub and every
  message on the serial port, and that every exception after that is reported before the processor
  stops.  Where the code does not do what it means to (the bitmap lies in pages that are handed
  out, so that a client's write can give a page to two owners, the stubs push the error codes the wrong way round, a scroll of the
  text terminal loses a row), the theorem states what it does.  No call of printf runs for ever,
  and nothing the kernel reports takes the pen off the screen or writes outside the frame buffer.

  Not modelled.  The assembly entry code, linker scripts and build files: no logic of the C
  code.  The scalable renderer and the C++ wrapper of ssfn.h, which the configuration leaves
  out, and the declarations of limine.h for requests the kernel does not make.  vmm_alloc, whose
  body is empty although it must return a pointer, and load_cr3, one instruction without a
  caller.  A boot loader that leaves the memory map request without a response: the model takes the
  entries, where pmm_initialize follows the pointer unchecked.  The int index of itoa is a natural
  number: it counts digits.  Timing, caches and interrupts that arrive between two instructions.
\<close>

end
